(* ===== verification/Prelude.thy ===== *)
theory Prelude
  imports Main "HOL-Library.Word" "HOL-Library.Monad_Syntax"
begin

text \<open>
  Vocabulary shared by every component: the machine integers of the C code as words, bytes,
  little-endian encoding, NUL-terminated strings over byte arrays, and the lemma collections
  through which the component theories share their automation.

  Conventions of the whole development.  An operation of the code is a HOL function from the
  state it works on to \<open>(result \<times> state) option\<close>.  \<open>None\<close> stands for an execution that has no
  defined result: an access outside an array, a use of freed memory, or waiting for a byte that
  never arrives.  Error codes the program itself returns are ordinary results.  \<open>char\<close> is
  unsigned on the target (the AAPCS ABI selected in the Makefile), hence \<open>8 word\<close>.
\<close>

unbundle bit_operations_syntax

type_synonym byte = "8 word"
type_synonym u8 = "8 word"
type_synonym u16 = "16 word"
type_synonym u32 = "32 word"

named_theorems uart_simps \<open>effect of the serial-line primitives\<close>
named_theorems vol_simps \<open>components of a volume left alone by an operation\<close>
named_theorems layout_simps \<open>sizes and round trips of the on-disk structures\<close>
named_theorems ker_simps \<open>components of the kernel state left alone by an operation\<close>

section \<open>Bytes and little-endian words\<close>

text \<open>Character constants of the source, as the bytes they denote.\<close>

definition chars :: "string \<Rightarrow> byte list" where
  "chars s = map of_char s"

lemma length_chars [simp]: "length (chars s) = length s"
  by (simp add: chars_def)

definition le16 :: "u16 \<Rightarrow> byte list" where
  "le16 w = [ucast w, ucast (drop_bit 8 w)]"

definition le32 :: "u32 \<Rightarrow> byte list" where
  "le32 w = [ucast w, ucast (drop_bit 8 w), ucast (drop_bit 16 w), ucast (drop_bit 24 w)]"

definition of_le16 :: "byte list \<Rightarrow> u16" where
  "of_le16 bs = ucast (bs ! 0) OR push_bit 8 (ucast (bs ! 1))"

definition of_le32 :: "byte list \<Rightarrow> u32" where
  "of_le32 bs = ucast (bs ! 0) OR push_bit 8 (ucast (bs ! 1))
     OR push_bit 16 (ucast (bs ! 2)) OR push_bit 24 (ucast (bs ! 3))"

lemma length_le16 [simp]: "length (le16 w) = 2"
  by (simp add: le16_def)

lemma length_le32 [simp]: "length (le32 w) = 4"
  by (simp add: le32_def)

lemma of_le16_le16 [simp]: "of_le16 (le16 w) = w"
  unfolding le16_def of_le16_def
  by (rule bit_word_eqI) (auto simp: bit_simps)

lemma of_le32_le32 [simp]: "of_le32 (le32 w) = w"
proof (rule bit_word_eqI)
  fix n assume n: "n < LENGTH(32)"
  consider "n < 8" | "8 \<le> n" "n < 16" | "16 \<le> n" "n < 24" | "24 \<le> n" "n < 32"
    using n by fastforce
  then show "bit (of_le32 (le32 w)) n = bit w n"
    by cases (auto simp: le32_def of_le32_def bit_simps)
qed

lemma le32_of_le32: "length bs = 4 \<Longrightarrow> le32 (of_le32 bs) = bs"
proof -
  assume "length bs = 4"
  then obtain a b c d where bs: "bs = [a, b, c, d]"
    by (auto simp: numeral_eq_Suc length_Suc_conv)
  show ?thesis
    unfolding bs le32_def of_le32_def
    by (simp, intro conjI; rule bit_word_eqI) (auto simp: bit_simps dest: bit_imp_le_length)
qed

lemma le16_of_le16: "length bs = 2 \<Longrightarrow> le16 (of_le16 bs) = bs"
proof -
  assume "length bs = 2"
  then obtain a b where bs: "bs = [a, b]"
    by (auto simp: numeral_eq_Suc length_Suc_conv)
  show ?thesis
    unfolding bs le16_def of_le16_def
    by (simp, intro conjI; rule bit_word_eqI) (auto simp: bit_simps dest: bit_imp_le_length)
qed

text \<open>A sequence of little-endian 32-bit words, and back.\<close>

definition le32s :: "u32 list \<Rightarrow> byte list" where
  "le32s ws = concat (map le32 ws)"

primrec of_le32s :: "nat \<Rightarrow> byte list \<Rightarrow> u32 list" where
  "of_le32s 0 bs = []"
| "of_le32s (Suc n) bs = of_le32 (take 4 bs) # of_le32s n (drop 4 bs)"

lemma length_le32s [simp]: "length (le32s ws) = 4 * length ws"
  by (induction ws) (simp_all add: le32s_def)

lemma length_of_le32s [simp]: "length (of_le32s n bs) = n"
  by (induction n arbitrary: bs) simp_all

lemma of_le32s_le32s_append: "n = length ws \<Longrightarrow> of_le32s n (le32s ws @ bs) = ws"
  by (induction ws arbitrary: n) (simp_all add: le32s_def)

lemma of_le32s_le32s [simp]: "n = length ws \<Longrightarrow> of_le32s n (le32s ws) = ws"
  using of_le32s_le32s_append [of n ws "[]"] by simp

lemma le32s_of_le32s: "length bs = 4 * n \<Longrightarrow> le32s (of_le32s n bs) = bs"
  by (induction n arbitrary: bs) (simp_all add: le32s_def le32_of_le32)

section \<open>C strings\<close>

text \<open>
  A C string is written as the list of its characters without the terminating NUL; \<open>cstr\<close> is the
  array that holds it.  \<open>strncmp_eq n a b\<close> is \<open>strncmp(a, b, n) == 0\<close> on two arrays; running off
  the end of an array compares unequal.
\<close>

definition cstr :: "byte list \<Rightarrow> byte list" where
  "cstr s = s @ [0]"

definition cstring :: "byte list \<Rightarrow> bool" where
  "cstring s \<longleftrightarrow> 0 \<notin> set s"

fun strncmp_eq :: "nat \<Rightarrow> byte list \<Rightarrow> byte list \<Rightarrow> bool" where
  "strncmp_eq 0 as bs = True"
| "strncmp_eq (Suc n) (a # as) (b # bs) = (a = b \<and> (a = 0 \<or> strncmp_eq n as bs))"
| "strncmp_eq (Suc n) as bs = False"

text \<open>The characters of the array before the first NUL.\<close>

definition c_chars :: "byte list \<Rightarrow> byte list" where
  "c_chars bs = takeWhile (\<lambda>b. b \<noteq> 0) bs"

text \<open>\<open>strncpy\<close> of the string \<open>s\<close> into an array of \<open>n\<close> bytes pads with NULs.\<close>

definition strncpy :: "nat \<Rightarrow> byte list \<Rightarrow> byte list" where
  "strncpy n s = take n (s @ replicate n 0)"

text \<open>\<open>strcpy\<close> of the string \<open>s\<close> over the array \<open>old\<close>; \<open>None\<close> when it does not fit.\<close>

definition strcpy_over :: "byte list \<Rightarrow> byte list \<Rightarrow> byte list option" where
  "strcpy_over old s =
     (if length s < length old then Some (cstr s @ drop (length s + 1) old) else None)"

lemma length_cstr [simp]: "length (cstr s) = Suc (length s)"
  by (simp add: cstr_def)

lemma length_strncpy [simp]: "length (strncpy n s) = n"
  by (simp add: strncpy_def)

lemma length_strcpy_over: "strcpy_over old s = Some t \<Longrightarrow> length t = length old"
  by (auto simp: strcpy_over_def split: if_splits)

lemma c_chars_cstr_append [simp]: "cstring s \<Longrightarrow> c_chars (cstr s @ t) = s"
  by (induction s) (auto simp: c_chars_def cstr_def cstring_def)

text \<open>
  On a NUL-free prefix of length \<open>n\<close> the comparison only asks whether the other array starts with
  those \<open>n\<close> characters.
\<close>

lemma strncmp_eq_prefix:
  "\<lbrakk> cstring s; length s \<le> length a \<rbrakk> \<Longrightarrow>
   strncmp_eq (length s) a (s @ t) \<longleftrightarrow> take (length s) a = s"
proof (induction s arbitrary: a)
  case Nil
  then show ?case by simp
next
  case (Cons x s)
  then obtain y b where "a = y # b" by (cases a) auto
  with Cons show ?case by (auto simp: cstring_def)
qed

section \<open>Lists updated by index\<close>

lemma map_upd_same [simp]: "i < length xs \<Longrightarrow> f x = f (xs ! i) \<Longrightarrow> map f (xs[i := x]) = map f xs"
  by (simp add: map_update list_update_same_conv)

lemma list_update_append_right:
  "length xs \<le> i \<Longrightarrow> (xs @ ys)[i := y] = xs @ ys[i - length xs := y]"
  by (simp add: list_update_append)

lemma take_list_update_Suc:
  "i < length xs \<Longrightarrow> take (Suc i) (xs[i := x]) = take i xs @ [x]"
  by (simp add: take_Suc_conv_app_nth)

section \<open>Unsigned arithmetic read as natural numbers\<close>

lemma unat_mod_32_less [simp]: "unat ((w :: u32) mod 32) < 32"
  using word_mod_less_divisor [of 32 w] by (simp add: word_less_nat_alt)

lemma unat_mod_128_less [simp]: "unat ((w :: u32) mod 128) < 128"
  using word_mod_less_divisor [of 128 w] by (simp add: word_less_nat_alt)

lemma unat_mod_4096_less [simp]: "unat ((w :: u32) mod 4096) < 4096"
  using word_mod_less_divisor [of 4096 w] by (simp add: word_less_nat_alt)

lemma unat_u8_less: "unat (w :: u8) < 256"
  using unsigned_less [of w] by simp

lemma unat_ucast_u8 [simp]: "unat (ucast (w :: u8) :: u32) = unat w"
  using unat_u8_less [of w] by (simp add: unsigned_ucast_eq take_bit_nat_eq_self)

lemma uint_less_iff_unat: "uint w < n \<longleftrightarrow> unat w < nat n"
  using nat_less_eq_zless [OF uint_ge_0 [of w], of n] by simp

lemma unat_add_no_wrap:
  "unat a + unat b < 2 ^ 32 \<Longrightarrow> unat ((a :: u32) + b) = unat a + unat b"
  by (simp add: unat_word_ariths)

lemma unat_plus_one_less: "k < e \<Longrightarrow> unat ((k :: u32) + 1) = Suc (unat k)"
proof -
  assume "k < e"
  then have "unat k < unat e" by (simp add: word_less_nat_alt)
  then have "unat k + unat (1 :: u32) < 2 ^ 32" using unsigned_less [where 'a = nat, of e] by simp
  then show ?thesis by (subst unat_add_no_wrap) simp_all
qed

lemma unat_sub_no_wrap: "b \<le> a \<Longrightarrow> unat ((a :: u32) - b) = unat a - unat b"
  by (rule unat_sub)

lemma sint_diff_small:
  assumes "unat a < 2 ^ 31" "unat b < 2 ^ 31"
  shows "sint ((a :: u32) - b) = int (unat a) - int (unat b)"
proof -
  have w: "sint (word_of_int x :: u32) = x" if "- (2 ^ 31) \<le> x" "x < 2 ^ 31" for x
    using that by (simp add: sint_sbintrunc' signed_take_bit_int_eq_self)
  have "uint a < 2 ^ 31" "uint b < 2 ^ 31"
    using assms by (simp_all add: uint_less_iff_unat)
  then have "sint (word_of_int (uint a - uint b) :: u32) = uint a - uint b"
    using uint_ge_0 [of a] uint_ge_0 [of b] by (intro w) linarith+
  then show ?thesis by simp
qed

lemma sint_below_31: "unat a < 2 ^ 31 \<Longrightarrow> sint (a :: u32) = int (unat a)"
  using sint_diff_small [of a 0] by simp

end
