(* ===== verification/Uart.thy ===== *)
theory Uart
  imports Prelude
begin

text \<open>
  The serial-line driver, \<^verbatim>\<open>device/PL011.c\<close>.  A UART is the queue of bytes received and not yet
  read (its data register and receive FIFO) together with the peer at the other end of the line.
  The peer is a parameter \<open>react\<close>: what it does on each byte it is sent, and the bytes it sends
  back.  Every call in the kernel passes \<open>f = true\<close> (blocking); the transmit FIFO of the hardware
  always drains, so a blocking \<open>putc\<close> sends, while a blocking \<open>getc\<close> on a line on which nothing
  will arrive spins for ever, which is \<open>None\<close>.
\<close>

record 'p uart =
  rx :: "byte list"
  peer :: 'p

definition PL011_can_getc :: "'p uart \<Rightarrow> bool" where
  "PL011_can_getc d = (rx d \<noteq> [])"

definition PL011_putc :: "('p \<Rightarrow> byte \<Rightarrow> 'p \<times> byte list) \<Rightarrow> 'p uart \<Rightarrow> byte \<Rightarrow> 'p uart" where
  "PL011_putc react d x =
     (let (p, answer) = react (peer d) x in d\<lparr>rx := rx d @ answer, peer := p\<rparr>)"

definition PL011_getc :: "'p uart \<Rightarrow> (byte \<times> 'p uart) option" where
  "PL011_getc d = (case rx d of [] \<Rightarrow> None | r # rs \<Rightarrow> Some (r, d\<lparr>rx := rs\<rparr>))"

section \<open>Hexadecimal digits\<close>

definition xtoi :: "byte \<Rightarrow> int" where
  "xtoi x =
     (if 0x30 \<le> x \<and> x \<le> 0x39 then 0 + (uint x - 0x30)
      else if 0x61 \<le> x \<and> x \<le> 0x66 then 10 + (uint x - 0x61)
      else if 0x41 \<le> x \<and> x \<le> 0x46 then 10 + (uint x - 0x41)
      else -1)"

definition itox :: "int \<Rightarrow> byte" where
  "itox x =
     (if 0 \<le> x \<and> x \<le> 9 then word_of_int (0x30 + (x - 0))
      else if 10 \<le> x \<and> x \<le> 15 then word_of_int (0x41 + (x - 10))
      else -1)"

definition PL011_puth :: "('p \<Rightarrow> byte \<Rightarrow> 'p \<times> byte list) \<Rightarrow> 'p uart \<Rightarrow> byte \<Rightarrow> 'p uart" where
  "PL011_puth react d x =
     (let d1 = PL011_putc react d (itox (uint (drop_bit 4 x AND 0xF)))
      in PL011_putc react d1 (itox (uint (drop_bit 0 x AND 0xF))))"

definition PL011_geth :: "'p uart \<Rightarrow> (byte \<times> 'p uart) option" where
  "PL011_geth d = do {
     (c1, d1) \<leftarrow> PL011_getc d;
     let r = word_of_int (push_bit 4 (xtoi c1));
     (c2, d2) \<leftarrow> PL011_getc d1;
     Some (r OR word_of_int (push_bit 0 (xtoi c2)), d2)
   }"

section \<open>Sending and receiving sequences\<close>

definition put_all :: "('p \<Rightarrow> byte \<Rightarrow> 'p \<times> byte list) \<Rightarrow> 'p uart \<Rightarrow> byte list \<Rightarrow> 'p uart" where
  "put_all react d xs = foldl (PL011_putc react) d xs"

text \<open>The two characters \<open>PL011_puth\<close> sends for a byte, and the lower-case form of the disk.\<close>

definition hex_upper :: "byte \<Rightarrow> byte list" where
  "hex_upper x = [itox (uint x div 16), itox (uint x mod 16)]"

definition lower :: "byte \<Rightarrow> byte" where
  "lower c = (if 0x41 \<le> c \<and> c \<le> 0x5A then c + 0x20 else c)"

definition hex_lower :: "byte \<Rightarrow> byte list" where
  "hex_lower x = map lower (hex_upper x)"

lemma put_all_Nil [simp]: "put_all react d [] = d"
  by (simp add: put_all_def)

lemma put_all_Cons: "put_all react d (x # xs) = put_all react (PL011_putc react d x) xs"
  by (simp add: put_all_def)

lemma put_all_append: "put_all react d (xs @ ys) = put_all react (put_all react d xs) ys"
  by (simp add: put_all_def)

lemma uint_and_nibble: "uint (x AND 0xF) = uint (x :: byte) mod 16"
proof -
  have m: "(15 :: byte) = mask 4" by (simp add: mask_eq_exp_minus_1)
  show ?thesis
    unfolding m by (simp add: take_bit_eq_mask [symmetric] take_bit_eq_mod uint_mod_distrib)
qed

lemma uint_high_nibble: "uint (drop_bit 4 (x :: byte)) mod 16 = uint x div 16"
proof -
  have "uint x div 16 < 16" "0 \<le> uint x div 16"
    using uint_lt2p [of x] uint_ge_0 [of x] by (auto simp: pos_imp_zdiv_nonneg_iff)
  moreover have "uint (drop_bit 4 x) = uint x div 16"
    by (simp add: drop_bit_eq_div uint_div_distrib)
  ultimately show ?thesis by simp
qed

lemma PL011_puth_put_all: "PL011_puth react d x = put_all react d (hex_upper x)"
  by (simp add: PL011_puth_def hex_upper_def put_all_Cons uint_and_nibble uint_high_nibble Let_def)

lemma nibble_cases:
  assumes "(0::int) \<le> n" "n < 16"
  obtains "n = 0" | "n = 1" | "n = 2" | "n = 3" | "n = 4" | "n = 5" | "n = 6" | "n = 7"
  | "n = 8" | "n = 9" | "n = 10" | "n = 11" | "n = 12" | "n = 13" | "n = 14" | "n = 15"
proof -
  have "n \<in> {0, 1, 2, 3, 4, 5, 6, 7, 8, 9, 10, 11, 12, 13, 14, 15}"
    using assms by (simp only: insert_iff empty_iff, presburger)
  then show ?thesis using that by blast
qed

text \<open>\<open>xtoi\<close> undoes \<open>itox\<close> on a digit, in either case.\<close>

lemma xtoi_itox: "0 \<le> n \<Longrightarrow> n < 16 \<Longrightarrow> xtoi (itox n) = n"
  by (erule (1) nibble_cases) (simp_all add: itox_def xtoi_def)

lemma xtoi_lower_itox: "0 \<le> n \<Longrightarrow> n < 16 \<Longrightarrow> xtoi (lower (itox n)) = n"
  by (erule (1) nibble_cases) (simp_all add: itox_def xtoi_def lower_def)

lemma itox_graphic: "0 \<le> n \<Longrightarrow> n < 16 \<Longrightarrow> itox n > 0x20"
  by (erule (1) nibble_cases) (simp_all add: itox_def)

lemma lower_itox_graphic: "0 \<le> n \<Longrightarrow> n < 16 \<Longrightarrow> lower (itox n) > 0x20"
  by (erule (1) nibble_cases) (simp_all add: itox_def lower_def)

lemma byte_of_nibbles:
  "word_of_int (push_bit 4 (uint x div 16)) OR word_of_int (uint x mod 16) = (x :: byte)"
proof (rule bit_word_eqI)
  fix n assume n: "n < LENGTH(8)"
  have d: "uint x div 16 = drop_bit 4 (uint x)" by (simp add: drop_bit_eq_div)
  have m: "uint x mod 16 = take_bit 4 (uint x)" by (simp add: take_bit_eq_mod)
  show "bit (word_of_int (push_bit 4 (uint x div 16)) OR word_of_int (uint x mod 16) :: byte) n
      = bit x n"
    unfolding d m using n by (cases "n < 4") (auto simp: bit_simps)
qed

lemma hex_bounds: "0 \<le> uint (x :: byte) div 16" "uint x div 16 < 16"
  "0 \<le> uint x mod 16" "uint x mod 16 < 16"
  using uint_lt2p [of x] uint_ge_0 [of x] by (auto simp: pos_imp_zdiv_nonneg_iff)

lemma PL011_getc_Cons [uart_simps]: "rx d = r # rs \<Longrightarrow> PL011_getc d = Some (r, d\<lparr>rx := rs\<rparr>)"
  by (simp add: PL011_getc_def)

lemma PL011_getc_empty [uart_simps]: "PL011_getc d = None \<longleftrightarrow> \<not> PL011_can_getc d"
  by (simp add: PL011_getc_def PL011_can_getc_def split: list.splits)

lemma PL011_geth_upper [uart_simps]:
  "rx d = hex_upper x @ rs \<Longrightarrow> PL011_geth d = Some (x, d\<lparr>rx := rs\<rparr>)"
  by (simp add: PL011_geth_def PL011_getc_def hex_upper_def xtoi_itox hex_bounds Let_def
      byte_of_nibbles)

lemma PL011_geth_lower [uart_simps]:
  "rx d = hex_lower x @ rs \<Longrightarrow> PL011_geth d = Some (x, d\<lparr>rx := rs\<rparr>)"
  by (simp add: PL011_geth_def PL011_getc_def hex_lower_def hex_upper_def xtoi_lower_itox
      hex_bounds Let_def byte_of_nibbles)

end
