(* ===== verification/Disk_Server.thy ===== *)
theory Disk_Server
  imports Uart
begin

text \<open>
  The emulated disk at the far end of \<open>UART2\<close>, \<^verbatim>\<open>device/disk.py\<close>: a server that reads one request
  line at a time and writes one acknowledgement line.  The image file is kept as its list of
  blocks.  \<open>os.write\<close> and \<open>os.read\<close> may transfer fewer bytes than asked: \<open>shorts\<close> lists, for the
  successive calls, how many bytes they come up short (0 once the list is used up).  An uncaught
  Python exception ends the server: \<open>dead\<close>, after which nothing is ever answered.
\<close>

record disk_srv =
  block_num :: int
  block_len :: nat
  disk_img :: "byte list list"
  shorts :: "nat list"
  dead :: bool
  line :: "byte list"

definition ACK_OKAY :: "byte list" where
  "ACK_OKAY = chars ''00''"

definition ACK_FAIL :: "byte list" where
  "ACK_FAIL = chars ''01''"

text \<open>\<open>binascii.unhexlify\<close>: \<open>None\<close> is the exception on an odd length or a character that is not a
  hexadecimal digit.\<close>

fun unhexlify :: "byte list \<Rightarrow> byte list option" where
  "unhexlify [] = Some []"
| "unhexlify [c] = None"
| "unhexlify (c1 # c2 # cs) =
     (if xtoi c1 < 0 \<or> xtoi c2 < 0 then None
      else map_option ((#) (word_of_int (16 * xtoi c1 + xtoi c2))) (unhexlify cs))"

definition hexlify :: "byte list \<Rightarrow> byte list" where
  "hexlify xs = concat (map hex_lower xs)"

text \<open>\<open>req.split( ' ' )\<close> and \<open>req.strip()\<close>.\<close>

fun split_space :: "byte list \<Rightarrow> byte list list" where
  "split_space [] = [[]]"
| "split_space (c # cs) =
     (if c = 0x20 then [] # split_space cs
      else case split_space cs of w # ws \<Rightarrow> (c # w) # ws | [] \<Rightarrow> [[c]])"

definition is_space :: "byte \<Rightarrow> bool" where
  "is_space c \<longleftrightarrow> c = 0x20 \<or> (0x09 \<le> c \<and> c \<le> 0x0D)"

definition strip :: "byte list \<Rightarrow> byte list" where
  "strip cs = rev (dropWhile is_space (rev (dropWhile is_space cs)))"

text \<open>\<open>struct.unpack( '<l', \<dots> )[ 0 ]\<close>: a signed 32-bit value, or the exception.\<close>

definition unpack_l :: "byte list \<Rightarrow> int option" where
  "unpack_l bs = (if length bs = 4 then Some (sint (of_le32 bs)) else None)"

definition short_of :: "disk_srv \<Rightarrow> nat" where
  "short_of s = (case shorts s of [] \<Rightarrow> 0 | k # ks \<Rightarrow> k)"

text \<open>The block of the image at an index below \<open>length disk_img\<close>; past the end of the file there is
  nothing to read, and writing there extends the file with zeros.\<close>

definition pad_image :: "disk_srv \<Rightarrow> nat \<Rightarrow> byte list list" where
  "pad_image s a = disk_img s @ replicate (Suc a - length (disk_img s)) (replicate (block_len s) 0)"

definition conf :: "disk_srv \<Rightarrow> byte list list \<Rightarrow> (byte list list \<times> disk_srv) option" where
  "conf s req =
     (let data = le32 (word_of_int (block_num s)) @ le32 (word_of_nat (block_len s))
      in Some ([ACK_OKAY, data], s))"

definition wr :: "disk_srv \<Rightarrow> byte list list \<Rightarrow> (byte list list \<times> disk_srv) option" where
  "wr s req =
     (if length req < 3 then None
      else do {
        raw \<leftarrow> unhexlify (req ! 1);
        address \<leftarrow> unpack_l raw;
        data \<leftarrow> unhexlify (req ! 2);
        if address \<ge> block_num s then Some ([ACK_FAIL], s)
        else if length data \<noteq> block_len s then Some ([ACK_FAIL], s)
        else if address < 0 then None
        else
          let a = nat address;
              n = length data - short_of s;
              img = pad_image s a;
              s' = s\<lparr>disk_img := img[a := take n data @ drop n (img ! a)],
                     shorts := tl (shorts s)\<rparr>
          in Some ([if length data \<noteq> n then ACK_FAIL else ACK_OKAY], s')
      })"

definition rd :: "disk_srv \<Rightarrow> byte list list \<Rightarrow> (byte list list \<times> disk_srv) option" where
  "rd s req =
     (if length req < 2 then None
      else do {
        raw \<leftarrow> unhexlify (req ! 1);
        address \<leftarrow> unpack_l raw;
        if address \<ge> block_num s then Some ([ACK_FAIL], s)
        else if address < 0 then None
        else
          let a = nat address;
              stored = (if a < length (disk_img s) then disk_img s ! a else []);
              data = take (block_len s - short_of s) stored;
              s' = s\<lparr>shorts := tl (shorts s)\<rparr>
          in Some (if length data \<noteq> block_len s then [ACK_FAIL] else [ACK_OKAY, data], s')
      })"

text \<open>One turn of the server's loop, on a complete request line without its newline; the answer
  ends in a newline.\<close>

definition answer_of :: "byte list list \<Rightarrow> byte list" where
  "answer_of ack =
     (if length ack > 1 then hd ack @ [0x20] @ concat (map hexlify (tl ack)) else hd ack) @ [0x0A]"

definition serve :: "disk_srv \<Rightarrow> byte list \<Rightarrow> (byte list \<times> disk_srv) option" where
  "serve s l =
     (let req = split_space (strip l); cmd = hd req
      in map_option (\<lambda>(ack, s'). (answer_of ack, s'))
          (if cmd = chars ''00'' then conf s req
           else if cmd = chars ''01'' then wr s req
           else if cmd = chars ''02'' then rd s req
           else Some ([ACK_FAIL], s)))"

text \<open>The server as the peer of a UART: bytes are gathered until a newline completes a line.\<close>

definition disk_peer :: "disk_srv \<Rightarrow> byte \<Rightarrow> disk_srv \<times> byte list" where
  "disk_peer s c =
     (if dead s then (s, [])
      else if c \<noteq> 0x0A then (s\<lparr>line := line s @ [c]\<rparr>, [])
      else (case serve (s\<lparr>line := []\<rparr>) (line s) of
              None \<Rightarrow> (s\<lparr>line := [], dead := True\<rparr>, [])
            | Some (answer, s') \<Rightarrow> (s', answer)))"

section \<open>The codecs\<close>

lemma unhexlify_upper_append [simp]:
  "unhexlify (hex_upper x @ cs) = map_option ((#) x) (unhexlify cs)"
proof -
  have "word_of_int (16 * (uint x div 16) + uint x mod 16) = x" by simp
  moreover have "\<not> uint x div 16 < 0" "\<not> uint x mod 16 < 0"
    using hex_bounds [of x] by (simp_all only: not_less)
  ultimately show ?thesis by (simp add: hex_upper_def xtoi_itox hex_bounds)
qed

lemma unhexlify_upper: "unhexlify (concat (map hex_upper xs)) = Some xs"
  by (induction xs) simp_all

lemma hex_upper_graphic: "c \<in> set (hex_upper x) \<Longrightarrow> c > 0x20"
  using itox_graphic hex_bounds by (auto simp: hex_upper_def)

lemma hex_lower_graphic: "c \<in> set (hex_lower x) \<Longrightarrow> c > 0x20"
  using lower_itox_graphic hex_bounds by (auto simp: hex_lower_def hex_upper_def)

lemma graphic_not_space:
  "c > 0x20 \<Longrightarrow> \<not> is_space c \<and> c \<noteq> 0x20 \<and> c \<noteq> (0x0A :: byte)"
  by (auto simp: is_space_def word_less_nat_alt word_le_nat_alt)

lemma split_space_word:
  "\<forall>c \<in> set w. c \<noteq> 0x20 \<Longrightarrow> split_space w = [w]"
  by (induction w) auto

lemma split_space_append:
  "\<forall>c \<in> set w. c \<noteq> 0x20 \<Longrightarrow> split_space (w @ 0x20 # cs) = w # split_space cs"
  by (induction w) auto

lemma strip_graphic:
  "\<lbrakk> cs \<noteq> []; \<not> is_space (hd cs); \<not> is_space (last cs) \<rbrakk> \<Longrightarrow> strip cs = cs"
proof -
  assume cs: "cs \<noteq> []" "\<not> is_space (hd cs)" "\<not> is_space (last cs)"
  have keep: "dropWhile is_space xs = xs" if "xs \<noteq> []" "\<not> is_space (hd xs)" for xs
    using that by (cases xs) auto
  show "strip cs = cs" unfolding strip_def using cs by (simp add: keep hd_rev)
qed

section \<open>Sending a line\<close>

lemma disk_peer_char [uart_simps]:
  "\<lbrakk> \<not> dead s; c \<noteq> 0x0A \<rbrakk> \<Longrightarrow> disk_peer s c = (s\<lparr>line := line s @ [c]\<rparr>, [])"
  by (simp add: disk_peer_def)

lemma put_all_chars:
  "\<lbrakk> \<not> dead (peer d); \<forall>c \<in> set cs. c \<noteq> 0x0A \<rbrakk> \<Longrightarrow>
   put_all disk_peer d cs = d\<lparr>peer := (peer d)\<lparr>line := line (peer d) @ cs\<rparr>\<rparr>"
proof (induction cs arbitrary: d)
  case Nil
  then show ?case by simp
next
  case (Cons c cs)
  then show ?case by (simp add: put_all_Cons PL011_putc_def disk_peer_char)
qed

lemma put_newline:
  assumes "\<not> dead (peer d)" "serve ((peer d)\<lparr>line := []\<rparr>) (line (peer d)) = Some (ans, s')"
  shows "PL011_putc disk_peer d 0x0A = d\<lparr>rx := rx d @ ans, peer := s'\<rparr>"
  using assms by (simp add: PL011_putc_def disk_peer_def)

end
