(* ===== verification/Disk.thy ===== *)
theory Disk
  imports Disk_Server
begin

text \<open>
  The kernel's side of the disk protocol, \<^verbatim>\<open>device/disk.c\<close>, over the line to the server of
  \<open>Disk_Server\<close>.  A loop \<open>for i < DISK_RETRY\<close> is a recursion on the attempts left.  The lemmas
  show that on a working line the two sides implement an array of blocks, that a request that
  comes up short is retried, and what the kernel sees when it is not served.
\<close>

type_synonym uart2 = "disk_srv uart"

abbreviation UART2_putc :: "uart2 \<Rightarrow> byte \<Rightarrow> uart2" where
  "UART2_putc \<equiv> PL011_putc disk_peer"

abbreviation UART2_puth :: "uart2 \<Rightarrow> byte \<Rightarrow> uart2" where
  "UART2_puth \<equiv> PL011_puth disk_peer"

definition DISK_RETRY :: nat where "DISK_RETRY = 3"

definition DISK_SUCCESS :: int where "DISK_SUCCESS = 0"

definition DISK_FAILURE :: int where "DISK_FAILURE = -1"

definition addr_puth :: "uart2 \<Rightarrow> u32 \<Rightarrow> uart2" where
  "addr_puth d x =
     (let d0 = UART2_puth d (ucast (drop_bit 0 x AND 0xFF));
          d1 = UART2_puth d0 (ucast (drop_bit 8 x AND 0xFF));
          d2 = UART2_puth d1 (ucast (drop_bit 16 x AND 0xFF))
      in UART2_puth d2 (ucast (drop_bit 24 x AND 0xFF)))"

text \<open>\<open>x\<close> is the array the pointer designates; reading past its end is undefined.\<close>

definition data_puth :: "uart2 \<Rightarrow> byte list \<Rightarrow> nat \<Rightarrow> uart2 option" where
  "data_puth d x n = (if n \<le> length x then Some (foldl UART2_puth d (take n x)) else None)"

primrec data_geth :: "uart2 \<Rightarrow> nat \<Rightarrow> (byte list \<times> uart2) option" where
  "data_geth d 0 = Some ([], d)"
| "data_geth d (Suc n) = do {
     (b, d1) \<leftarrow> PL011_geth d;
     (bs, d2) \<leftarrow> data_geth d1 n;
     Some (b # bs, d2)
   }"

text \<open>\<open>disk_get_block_num\<close> and \<open>disk_get_block_len\<close> differ in the word of the answer they return.\<close>

primrec disk_conf_tries :: "nat \<Rightarrow> nat \<Rightarrow> uart2 \<Rightarrow> (int \<times> uart2) option" where
  "disk_conf_tries k 0 d = Some (DISK_FAILURE, d)"
| "disk_conf_tries k (Suc tries) d = (
     let d1 = UART2_puth d 0x00; d2 = UART2_putc d1 0x0A in
     do {
       (ack, d3) \<leftarrow> PL011_geth d2;
       if ack = 0x00 then do {
         (sep, d4) \<leftarrow> PL011_getc d3;
         (x, d5) \<leftarrow> data_geth d4 8;
         (eol, d6) \<leftarrow> PL011_getc d5;
         Some (sint (of_le32 (take 4 (drop k x))), d6)
       } else do {
         (eol, d4) \<leftarrow> PL011_getc d3;
         disk_conf_tries k tries d4
       }
     })"

definition disk_get_block_num :: "uart2 \<Rightarrow> (int \<times> uart2) option" where
  "disk_get_block_num d = disk_conf_tries 0 DISK_RETRY d"

definition disk_get_block_len :: "uart2 \<Rightarrow> (int \<times> uart2) option" where
  "disk_get_block_len d = disk_conf_tries 4 DISK_RETRY d"

primrec disk_wr_tries :: "nat \<Rightarrow> uart2 \<Rightarrow> u32 \<Rightarrow> byte list \<Rightarrow> nat \<Rightarrow> (int \<times> uart2) option" where
  "disk_wr_tries 0 d a x n = Some (DISK_FAILURE, d)"
| "disk_wr_tries (Suc tries) d a x n = (
     let d1 = UART2_puth d 0x01;
         d2 = UART2_putc d1 0x20;
         d3 = addr_puth d2 a;
         d4 = UART2_putc d3 0x20
     in do {
       d5 \<leftarrow> data_puth d4 x n;
       let d6 = UART2_putc d5 0x0A;
       (ack, d7) \<leftarrow> PL011_geth d6;
       (eol, d8) \<leftarrow> PL011_getc d7;
       if ack = 0x00 then Some (DISK_SUCCESS, d8) else disk_wr_tries tries d8 a x n
     })"

definition disk_wr :: "uart2 \<Rightarrow> u32 \<Rightarrow> byte list \<Rightarrow> nat \<Rightarrow> (int \<times> uart2) option" where
  "disk_wr d a x n = disk_wr_tries DISK_RETRY d a x n"

text \<open>The result carries the bytes stored through the pointer; a failed read leaves the buffer
  alone, which is \<open>[]\<close>.\<close>

primrec disk_rd_tries :: "nat \<Rightarrow> uart2 \<Rightarrow> u32 \<Rightarrow> nat \<Rightarrow> (int \<times> byte list \<times> uart2) option" where
  "disk_rd_tries 0 d a n = Some (DISK_FAILURE, [], d)"
| "disk_rd_tries (Suc tries) d a n = (
     let d1 = UART2_puth d 0x02;
         d2 = UART2_putc d1 0x20;
         d3 = addr_puth d2 a;
         d4 = UART2_putc d3 0x0A
     in do {
       (ack, d5) \<leftarrow> PL011_geth d4;
       if ack = 0x00 then do {
         (sep, d6) \<leftarrow> PL011_getc d5;
         (x, d7) \<leftarrow> data_geth d6 n;
         (eol, d8) \<leftarrow> PL011_getc d7;
         Some (DISK_SUCCESS, x, d8)
       } else do {
         (eol, d6) \<leftarrow> PL011_getc d5;
         disk_rd_tries tries d6 a n
       }
     })"

definition disk_rd :: "uart2 \<Rightarrow> u32 \<Rightarrow> nat \<Rightarrow> (int \<times> byte list \<times> uart2) option" where
  "disk_rd d a n = disk_rd_tries DISK_RETRY d a n"

declare disk_wr_tries.simps(2) [simp del] disk_rd_tries.simps(2) [simp del]

section \<open>Requests as lines\<close>

text \<open>A line on which the next request can be sent: nothing pending in either direction.\<close>

definition ready :: "uart2 \<Rightarrow> bool" where
  "ready d \<longleftrightarrow> rx d = [] \<and> line (peer d) = [] \<and> \<not> dead (peer d)"

definition hexs :: "byte list \<Rightarrow> byte list" where
  "hexs xs = concat (map hex_upper xs)"

lemma foldl_puth: "foldl UART2_puth d xs = put_all disk_peer d (hexs xs)"
  by (induction xs arbitrary: d) (simp_all add: PL011_puth_put_all put_all_append hexs_def)

lemma ucast_and_FF: "(ucast (w AND 0xFF) :: byte) = ucast (w :: u32)"
proof -
  have m: "(255 :: u32) = mask 8" by (simp add: mask_eq_exp_minus_1)
  show ?thesis unfolding m by (rule bit_word_eqI) (simp add: bit_simps)
qed

lemma addr_puth_put_all: "addr_puth d x = put_all disk_peer d (hexs (le32 x))"
  by (simp add: addr_puth_def hexs_def le32_def PL011_puth_put_all put_all_append ucast_and_FF
      del: uint_and_nibble)

lemma hexs_graphic: "c \<in> set (hexs xs) \<Longrightarrow> c > 0x20"
  by (auto simp: hexs_def dest: hex_upper_graphic)

lemma hexs_Nil_iff [simp]: "hexs xs = [] \<longleftrightarrow> xs = []"
  by (cases xs) (auto simp: hexs_def hex_upper_def)

lemma unhexlify_hexs [simp]: "unhexlify (hexs xs) = Some xs"
  by (simp add: hexs_def unhexlify_upper)

lemma le32_nonempty [simp]: "le32 a \<noteq> []"
  by (simp add: le32_def)

lemma rx_emptied: "rx d = [] \<Longrightarrow> d\<lparr>peer := s, rx := []\<rparr> = d\<lparr>peer := s\<rparr>"
  by (cases d) simp

lemma putc_put_all: "UART2_putc d c = put_all disk_peer d [c]"
  by (simp add: put_all_Cons)

lemma hexlify_read:
  "rx d = hexlify xs @ rs \<Longrightarrow> data_geth d (length xs) = Some (xs, d\<lparr>rx := rs\<rparr>)"
proof (induction xs arbitrary: d)
  case Nil
  then show ?case by (simp add: hexlify_def)
next
  case (Cons x xs)
  then have "rx d = hex_lower x @ (hexlify xs @ rs)" by (simp add: hexlify_def)
  then show ?case by (simp add: PL011_geth_lower Cons.IH)
qed

lemma cmd_bytes:
  "chars ''00'' = hexs [0]" "chars ''01'' = hexs [1]" "chars ''02'' = hexs [2]"
  by (simp_all add: chars_def hexs_def hex_upper_def itox_def)

lemma ack_bytes: "ACK_OKAY = hex_upper 0" "ACK_FAIL = hex_upper 1"
  by (simp_all add: ACK_OKAY_def ACK_FAIL_def cmd_bytes hexs_def)

section \<open>What the server does with a request of the kernel\<close>

lemma split_graphic: "\<forall>c \<in> set w. c > (0x20 :: byte) \<Longrightarrow> split_space w = [w]"
  by (rule split_space_word) (auto dest: graphic_not_space)

lemma split_graphic_append:
  "\<forall>c \<in> set w. c > (0x20 :: byte) \<Longrightarrow> split_space (w @ 0x20 # cs) = w # split_space cs"
  by (rule split_space_append) (auto dest: graphic_not_space)

lemma strip_request:
  assumes "ws \<noteq> []" "vs \<noteq> []" "\<forall>c \<in> set ws. c > (0x20 :: byte)" "\<forall>c \<in> set vs. c > (0x20 :: byte)"
  shows "strip (ws @ cs @ vs) = ws @ cs @ vs"
  using assms by (intro strip_graphic) (auto dest: graphic_not_space)

lemma serve_rd_line:
  "serve s (hexs [2] @ 0x20 # hexs (le32 a)) =
     map_option (\<lambda>(ack, s'). (answer_of ack, s')) (rd s [hexs [2], hexs (le32 a)])"
proof -
  have "strip (hexs [2] @ [0x20] @ hexs (le32 a)) = hexs [2] @ [0x20] @ hexs (le32 a)"
    by (rule strip_request) (auto dest: hexs_graphic)
  moreover have "split_space (hexs [2] @ 0x20 # hexs (le32 a)) = [hexs [2], hexs (le32 a)]"
    by (simp add: split_graphic_append split_graphic hexs_graphic)
  moreover have "hexs [2] \<noteq> hexs [0]" "hexs [2] \<noteq> hexs [1]"
    by (simp_all add: hexs_def hex_upper_def itox_def)
  ultimately show ?thesis by (simp add: serve_def cmd_bytes)
qed

lemma serve_wr_line:
  assumes "x \<noteq> []"
  shows "serve s (hexs [1] @ 0x20 # hexs (le32 a) @ 0x20 # hexs x) =
     map_option (\<lambda>(ack, s'). (answer_of ack, s')) (wr s [hexs [1], hexs (le32 a), hexs x])"
proof -
  have "strip (hexs [1] @ ([0x20] @ hexs (le32 a) @ [0x20]) @ hexs x)
      = hexs [1] @ ([0x20] @ hexs (le32 a) @ [0x20]) @ hexs x"
    using assms by (intro strip_request) (auto dest: hexs_graphic)
  moreover have "split_space (hexs [1] @ 0x20 # hexs (le32 a) @ 0x20 # hexs x)
      = [hexs [1], hexs (le32 a), hexs x]"
    by (simp add: split_graphic_append split_graphic hexs_graphic)
  moreover have "hexs [1] \<noteq> hexs [0]"
    by (simp add: hexs_def hex_upper_def itox_def)
  ultimately show ?thesis by (simp add: serve_def cmd_bytes)
qed

text \<open>Sending a whole line, and the bytes that come back.\<close>

lemma send_line:
  assumes d: "ready d" and cs: "\<forall>c \<in> set cs. c \<noteq> 0x0A"
    and srv: "serve (peer d) cs = Some (ans, s')"
  shows "put_all disk_peer d (cs @ [0x0A]) = d\<lparr>rx := ans, peer := s'\<rparr>"
proof -
  have l: "(peer d)\<lparr>line := []\<rparr> = peer d" using d by (simp add: ready_def)
  show ?thesis
    using d cs srv
    by (simp add: put_all_append put_all_chars ready_def put_all_Cons PL011_putc_def
        disk_peer_def l)
qed

lemma request_no_newline:
  "c \<in> set (hexs w @ 0x20 # hexs v) \<Longrightarrow> c \<noteq> 0x0A"
  "c \<in> set (hexs w @ 0x20 # hexs v @ 0x20 # hexs u) \<Longrightarrow> c \<noteq> 0x0A"
  by (auto dest: hexs_graphic graphic_not_space)

lemma disk_wr_tries_Suc:
  assumes d: "ready d" and x: "x \<noteq> []" "length x = n"
    and w: "wr (peer d) [hexs [1], hexs (le32 a), hexs x] = Some ([ack], s')"
    and ack: "ack = hex_upper b"
  shows "disk_wr_tries (Suc tries) d a x n =
    (if b = 0 then Some (DISK_SUCCESS, d\<lparr>peer := s'\<rparr>)
     else disk_wr_tries tries (d\<lparr>peer := s'\<rparr>) a x n)"
proof -
  let ?req = "hexs [1] @ 0x20 # hexs (le32 a) @ 0x20 # hexs x"
  have sent: "put_all disk_peer d (?req @ [0x0A]) = d\<lparr>rx := ack @ [0x0A], peer := s'\<rparr>"
  proof (rule send_line [OF d])
    show "\<forall>c\<in>set ?req. c \<noteq> 0x0A" using request_no_newline(2) by blast
    show "serve (peer d) ?req = Some (ack @ [0x0A], s')"
      using x w by (simp add: serve_wr_line answer_of_def)
  qed
  have rx: "rx d = []" using d by (simp add: ready_def)
  have req: "put_all disk_peer (put_all disk_peer (put_all disk_peer (put_all disk_peer
      (put_all disk_peer (put_all disk_peer d (hexs [1])) [0x20]) (hexs (le32 a))) [0x20])
      (hexs x)) [0x0A] = d\<lparr>rx := ack @ [0x0A], peer := s'\<rparr>"
    using sent by (simp add: put_all_append [symmetric])
  show ?thesis
    using x rx
    by (simp add: disk_wr_tries.simps(2) Let_def PL011_puth_put_all addr_puth_put_all putc_put_all data_puth_def
        foldl_puth req hexs_def [of "[1]", simplified, symmetric] PL011_geth_upper ack
        PL011_getc_def rx_emptied)
qed

lemma disk_rd_tries_Suc:
  assumes d: "ready d"
    and w: "rd (peer d) [hexs [2], hexs (le32 a)] = Some (ack, s')"
  shows "ack = [ACK_FAIL] \<Longrightarrow> disk_rd_tries (Suc tries) d a n = disk_rd_tries tries (d\<lparr>peer := s'\<rparr>) a n"
    and "\<lbrakk> ack = [ACK_OKAY, x]; length x = n \<rbrakk> \<Longrightarrow>
      disk_rd_tries (Suc tries) d a n = Some (DISK_SUCCESS, x, d\<lparr>peer := s'\<rparr>)"
proof -
  let ?req = "hexs [2] @ 0x20 # hexs (le32 a)"
  have sent: "put_all disk_peer d (?req @ [0x0A]) = d\<lparr>rx := answer_of ack, peer := s'\<rparr>"
  proof (rule send_line [OF d])
    show "\<forall>c\<in>set ?req. c \<noteq> 0x0A" using request_no_newline(1) by blast
    show "serve (peer d) ?req = Some (answer_of ack, s')"
      using w by (simp add: serve_rd_line)
  qed
  have rx: "rx d = []" using d by (simp add: ready_def)
  have req: "put_all disk_peer (put_all disk_peer (put_all disk_peer (put_all disk_peer
      d (hexs [2])) [0x20]) (hexs (le32 a))) [0x0A] = d\<lparr>rx := answer_of ack, peer := s'\<rparr>"
    using sent by (simp add: put_all_append [symmetric])
  note unfolds = disk_rd_tries.simps(2) Let_def PL011_puth_put_all addr_puth_put_all putc_put_all req
      hexs_def [of "[2]", simplified, symmetric] PL011_geth_upper ack_bytes answer_of_def
      PL011_getc_def rx_emptied
  show "disk_rd_tries (Suc tries) d a n = disk_rd_tries tries (d\<lparr>peer := s'\<rparr>) a n"
    if "ack = [ACK_FAIL]"
    using rx that by (simp add: unfolds)
  show "disk_rd_tries (Suc tries) d a n = Some (DISK_SUCCESS, x, d\<lparr>peer := s'\<rparr>)"
    if "ack = [ACK_OKAY, x]" "length x = n"
  proof -
    have "data_geth (d\<lparr>peer := s', rx := hexlify x @ [0x0A]\<rparr>) (length x)
        = Some (x, d\<lparr>peer := s', rx := hexlify x @ [0x0A], rx := [0x0A]\<rparr>)"
      by (rule hexlify_read) simp
    then show ?thesis using rx that by (simp add: unfolds)
  qed
qed

section \<open>The disk as an array of blocks\<close>

text \<open>The server is set up as the Makefile does: the image holds the announced number of blocks of
  the announced length, and block numbers fit a positive \<open>int\<close>.\<close>

definition disk_ok :: "uart2 \<Rightarrow> bool" where
  "disk_ok d \<longleftrightarrow> ready d \<and> block_num (peer d) = int (length (disk_img (peer d)))
     \<and> length (disk_img (peer d)) \<le> 2 ^ 31 \<and> 0 < block_len (peer d)
     \<and> (\<forall>b \<in> set (disk_img (peer d)). length b = block_len (peer d))"

definition blocks :: "uart2 \<Rightarrow> byte list list" where
  "blocks d = disk_img (peer d)"

text \<open>The line after a request whose transfers came up short \<open>k\<close> times, and after a write.\<close>

definition used :: "nat \<Rightarrow> uart2 \<Rightarrow> uart2" where
  "used k d = d\<lparr>peer := (peer d)\<lparr>shorts := drop k (shorts (peer d))\<rparr>\<rparr>"

definition stored :: "u32 \<Rightarrow> byte list \<Rightarrow> uart2 \<Rightarrow> uart2" where
  "stored a x d = d\<lparr>peer := (peer d)\<lparr>disk_img := (disk_img (peer d))[unat a := x]\<rparr>\<rparr>"

text \<open>The number of leading transfers that come up short.\<close>

definition failing :: "uart2 \<Rightarrow> nat" where
  "failing d = length (takeWhile (\<lambda>k. k \<noteq> 0) (shorts (peer d)))"

lemma stored_sel [uart_simps]:
  "blocks (stored a x d) = (blocks d)[unat a := x]"
  "shorts (peer (stored a x d)) = shorts (peer d)"
  "block_len (peer (stored a x d)) = block_len (peer d)"
  by (simp_all add: stored_def blocks_def)

lemma used_sel [uart_simps]:
  "blocks (used k d) = blocks d" "shorts (peer (used k d)) = drop k (shorts (peer d))"
  "block_len (peer (used k d)) = block_len (peer d)"
  by (simp_all add: used_def blocks_def)

lemma used_used [simp]: "used j (used k d) = used (k + j) d"
  by (simp add: used_def drop_drop add.commute)

lemma used_0 [simp]: "used 0 d = d"
  by (simp add: used_def)

lemma used_stored: "used k (stored a x d) = stored a x (used k d)"
  by (simp add: used_def stored_def)

lemma stored_stored [simp]: "stored a x (stored a y d) = stored a x d"
  by (simp add: stored_def)

lemma disk_ok_used [simp]: "disk_ok (used k d) = disk_ok d"
  by (simp add: disk_ok_def used_def ready_def)

lemma disk_ok_stored [simp]:
  "\<lbrakk> disk_ok d; length x = block_len (peer d) \<rbrakk> \<Longrightarrow> disk_ok (stored a x d)"
  by (auto simp: disk_ok_def stored_def ready_def dest!: set_update_subset_insert [THEN subsetD])

lemma sint_small:
  assumes "unat (a :: u32) < 2147483648"
  shows "sint a = uint a"
proof -
  have "int (unat a) < 2147483648" using assms by linarith
  then have "uint a < 2 ^ 31" by simp
  moreover have "- 2147483648 \<le> uint a" using uint_ge_0 [of a] by linarith
  ultimately show ?thesis by (simp add: sint_uint signed_take_bit_int_eq_self)
qed

lemma disk_ok_addr:
  assumes "disk_ok d" "unat (a :: u32) < length (blocks d)"
  shows "sint a = uint a" "uint a < block_num (peer d)" "\<not> uint a < 0" "nat (uint a) = unat a"
proof -
  have l: "block_num (peer d) = int (length (blocks d))" "length (blocks d) \<le> 2147483648"
    using assms(1) by (simp_all add: disk_ok_def blocks_def)
  show "sint a = uint a" using assms(2) l(2) by (intro sint_small) linarith
  have "int (unat a) < int (length (blocks d))" using assms(2) by linarith
  then show "uint a < block_num (peer d)" using l(1) by simp
  show "\<not> uint a < 0" by simp
  show "nat (uint a) = unat a" by simp
qed

lemma pad_image_in_range: "a < length (disk_img s) \<Longrightarrow> pad_image s a = disk_img s"
  by (simp add: pad_image_def)

lemma disk_ok_block: "\<lbrakk> disk_ok d; i < length (blocks d) \<rbrakk> \<Longrightarrow> length (blocks d ! i) = block_len (peer d)"
  by (simp add: disk_ok_def blocks_def)

lemma wr_in_range:
  assumes d: "disk_ok d" and a: "unat a < length (blocks d)" and x: "length x = block_len (peer d)"
  shows "wr (peer d) [hexs [1], hexs (le32 a), hexs x] =
    (let n = length x - short_of (peer d)
     in Some ([if short_of (peer d) = 0 then ACK_OKAY else ACK_FAIL],
              peer (stored a (take n x @ drop n (blocks d ! unat a)) (used 1 d))))"
proof -
  have pos: "0 < block_len (peer d)" using d by (simp add: disk_ok_def)
  have img: "pad_image (peer d) (unat a) = disk_img (peer d)"
    using a by (simp add: pad_image_in_range blocks_def)
  note addr = disk_ok_addr [OF d a]
  have "wr (peer d) [hexs [1], hexs (le32 a), hexs x] =
     (let n = length x - short_of (peer d);
          s' = (peer d)\<lparr>disk_img := (disk_img (peer d))[unat a := take n x @ drop n (disk_img (peer d) ! unat a)],
                       shorts := tl (shorts (peer d))\<rparr>
      in Some ([if length x \<noteq> n then ACK_FAIL else ACK_OKAY], s'))"
    using addr(2,3) x by (simp add: wr_def unpack_l_def Let_def img addr(1,4))
  moreover have "(length x \<noteq> length x - short_of (peer d)) \<longleftrightarrow> short_of (peer d) \<noteq> 0"
    using pos x by linarith
  ultimately show ?thesis
    by (simp add: Let_def stored_def used_def blocks_def drop_Suc)
qed

lemma wr_out_of_range:
  "block_num (peer d) \<le> sint a \<Longrightarrow>
   wr (peer d) [hexs [1], hexs (le32 a), hexs x] = Some ([ACK_FAIL], peer d)"
  by (simp add: wr_def unpack_l_def)

lemma rd_in_range:
  assumes d: "disk_ok d" and a: "unat a < length (blocks d)"
  shows "rd (peer d) [hexs [2], hexs (le32 a)] =
    Some (if short_of (peer d) = 0 then [ACK_OKAY, blocks d ! unat a] else [ACK_FAIL],
          peer (used 1 d))"
proof -
  let ?b = "blocks d ! unat a"
  let ?n = "block_len (peer d) - short_of (peer d)"
  have pos: "0 < block_len (peer d)" using d by (simp add: disk_ok_def)
  have len: "length ?b = block_len (peer d)" using disk_ok_block [OF d a] .
  have short: "length (take ?n ?b) \<noteq> block_len (peer d) \<longleftrightarrow> short_of (peer d) \<noteq> 0"
    using pos len by (simp, linarith)
  have whole: "short_of (peer d) = 0 \<Longrightarrow> take ?n ?b = ?b" using len by simp
  note addr = disk_ok_addr [OF d a]
  have "rd (peer d) [hexs [2], hexs (le32 a)] =
     Some (if length (take ?n ?b) \<noteq> block_len (peer d) then [ACK_FAIL] else [ACK_OKAY, take ?n ?b],
           (peer d)\<lparr>shorts := tl (shorts (peer d))\<rparr>)"
    using addr(2,3) a by (simp add: rd_def unpack_l_def Let_def addr(1,4) blocks_def)
  then show ?thesis
    using short whole by (auto simp: used_def drop_Suc)
qed

lemma rd_out_of_range:
  "block_num (peer d) \<le> sint a \<Longrightarrow>
   rd (peer d) [hexs [2], hexs (le32 a)] = Some ([ACK_FAIL], peer d)"
  by (simp add: rd_def unpack_l_def)

section \<open>Reads and writes through the retry loop\<close>

lemma short_of_failing: "short_of (peer d) = 0 \<longleftrightarrow> failing d = 0"
  by (auto simp: short_of_def failing_def split: list.splits)

lemma failing_used: "short_of (peer d) \<noteq> 0 \<Longrightarrow> failing (used 1 d) = failing d - 1"
  by (auto simp: short_of_def failing_def used_def drop_Suc split: list.splits)

lemma disk_wr_tries_in_range:
  assumes "disk_ok d" "unat a < length (blocks d)" "length x = n" "n = block_len (peer d)"
  shows "if failing d < tries
    then disk_wr_tries tries d a x n = Some (DISK_SUCCESS, stored a x (used (Suc (failing d)) d))
    else \<exists>y. length y = n \<and>
      disk_wr_tries tries d a x n = Some (DISK_FAILURE, stored a y (used tries d))"
  using assms
proof (induction tries arbitrary: d)
  case 0
  then have "stored a (blocks d ! unat a) d = d" by (simp add: stored_def blocks_def)
  with 0 show ?case by (auto simp: disk_ok_block intro!: exI [of _ "blocks d ! unat a"])
next
  case (Suc tries)
  note d = Suc.prems(1) and a = Suc.prems(2) and n = Suc.prems(3,4)
  let ?k = "n - short_of (peer d)"
  let ?y = "take ?k x @ drop ?k (blocks d ! unat a)"
  define d1 where "d1 = stored a ?y (used (Suc 0) d)"
  have y: "length ?y = n" using n disk_ok_block [OF d a] by simp
  have ok1: "disk_ok d1" and a1: "unat a < length (blocks d1)" and n1: "n = block_len (peer d1)"
    using d a n y by (simp_all add: d1_def uart_simps)
  have fail1: "failing d1 = failing (used 1 d)" by (simp add: d1_def failing_def stored_def)
  have x0: "x \<noteq> []" using d n by (auto simp: disk_ok_def)
  have ready: "ready d" using d by (simp add: disk_ok_def)
  have step: "disk_wr_tries (Suc tries) d a x n =
      (if short_of (peer d) = 0 then Some (DISK_SUCCESS, d1) else disk_wr_tries tries d1 a x n)"
  proof -
    have upd: "d\<lparr>peer := peer d1\<rparr> = d1" by (simp add: d1_def stored_def used_def)
    show ?thesis
      by (subst disk_wr_tries_Suc [OF ready x0 n(1) wr_in_range [OF d a, unfolded Let_def],
            where b = "if short_of (peer d) = 0 then 0 else 1"])
         (use n upd in \<open>auto simp: ack_bytes d1_def\<close>)
  qed
  show ?case
  proof (cases "short_of (peer d) = 0")
    case True
    then have "failing d = 0" by (simp add: short_of_failing)
    moreover have "?y = x" unfolding True using n disk_ok_block [OF d a] by simp
    ultimately show ?thesis using True by (simp add: step d1_def)
  next
    case False
    have "failing d1 = failing d - 1" "failing d \<noteq> 0"
      using False failing_used [OF False] fail1 by (simp_all add: short_of_failing)
    moreover have "used k d1 = stored a ?y (used (Suc k) d)" for k
      by (simp add: d1_def used_stored)
    ultimately show ?thesis
      using False Suc.IH [OF ok1 a1 n(1) n1]
      by (auto simp: step split: if_splits)
  qed
qed

lemma disk_rd_tries_in_range:
  assumes "disk_ok d" "unat a < length (blocks d)" "n = block_len (peer d)"
  shows "disk_rd_tries tries d a n =
    (if failing d < tries then Some (DISK_SUCCESS, blocks d ! unat a, used (Suc (failing d)) d)
     else Some (DISK_FAILURE, [], used tries d))"
  using assms
proof (induction tries arbitrary: d)
  case 0
  then show ?case by simp
next
  case (Suc tries)
  note d = Suc.prems(1) and a = Suc.prems(2) and n = Suc.prems(3)
  have ready: "ready d" using d by (simp add: disk_ok_def)
  have upd: "d\<lparr>peer := peer (used 1 d)\<rparr> = used 1 d" by (simp add: used_def)
  have len: "length (blocks d ! unat a) = n" using disk_ok_block [OF d a] n by simp
  have IH: "disk_rd_tries tries (used 1 d) a n =
    (if failing (used 1 d) < tries
     then Some (DISK_SUCCESS, blocks d ! unat a, used (Suc (Suc (failing (used 1 d)))) d)
     else Some (DISK_FAILURE, [], used (Suc tries) d))"
    using Suc.IH [of "used 1 d"] d a n by (simp add: uart_simps)
  show ?case
  proof (cases "short_of (peer d) = 0")
    case True
    with rd_in_range [OF d a] have
      "rd (peer d) [hexs [2], hexs (le32 a)] = Some ([ACK_OKAY, blocks d ! unat a], peer (used 1 d))"
      by simp
    from disk_rd_tries_Suc(2) [OF ready this refl len] True upd
    show ?thesis by (simp add: short_of_failing)
  next
    case False
    with rd_in_range [OF d a] have
      "rd (peer d) [hexs [2], hexs (le32 a)] = Some ([ACK_FAIL], peer (used 1 d))"
      by simp
    from disk_rd_tries_Suc(1) [OF ready this refl, of tries n] upd
    have "disk_rd_tries (Suc tries) d a n = disk_rd_tries tries (used 1 d) a n" by simp
    moreover have "failing (used 1 d) = failing d - 1" "failing d \<noteq> 0"
      using False failing_used [OF False] by (simp_all add: short_of_failing)
    ultimately show ?thesis by (auto simp: IH [unfolded One_nat_def])
  qed
qed

section \<open>Requests outside the disk\<close>

lemma disk_wr_tries_out_of_range:
  assumes "ready d" "x \<noteq> []" "length x = n" "block_num (peer d) \<le> sint a"
  shows "disk_wr_tries tries d a x n = Some (DISK_FAILURE, d)"
proof (induction tries)
  case 0
  then show ?case by simp
next
  case (Suc tries)
  have "d\<lparr>peer := peer d\<rparr> = d" by simp
  with Suc show ?case
    by (simp add: disk_wr_tries_Suc [OF assms(1-3) wr_out_of_range [OF assms(4)] ack_bytes(2)])
qed

lemma disk_rd_tries_out_of_range:
  assumes "ready d" "block_num (peer d) \<le> sint a"
  shows "disk_rd_tries tries d a n = Some (DISK_FAILURE, [], d)"
proof (induction tries)
  case 0
  then show ?case by simp
next
  case (Suc tries)
  then show ?case
    using disk_rd_tries_Suc(1) [OF assms(1) rd_out_of_range [OF assms(2)] refl] by simp
qed

text \<open>A request the server dies on is never answered.\<close>

lemma send_fatal:
  assumes d: "ready d" and cs: "\<forall>c \<in> set cs. c \<noteq> 0x0A" and srv: "serve (peer d) cs = None"
  shows "rx (put_all disk_peer d (cs @ [0x0A])) = []"
proof -
  have l: "(peer d)\<lparr>line := []\<rparr> = peer d" using d by (simp add: ready_def)
  show ?thesis
    using d cs srv
    by (simp add: put_all_append put_all_chars ready_def put_all_Cons PL011_putc_def
        disk_peer_def l)
qed

lemma disk_rd_tries_negative:
  assumes d: "ready d" and a: "sint a < 0" "0 \<le> block_num (peer d)"
  shows "disk_rd_tries (Suc tries) d a n = None"
proof -
  let ?req = "hexs [2] @ 0x20 # hexs (le32 a)"
  have "\<forall>c\<in>set ?req. c \<noteq> 0x0A" using request_no_newline(1) by blast
  moreover have "serve (peer d) ?req = None"
    using a by (simp add: serve_rd_line rd_def unpack_l_def)
  ultimately have "rx (put_all disk_peer d (?req @ [0x0A])) = []" by (rule send_fatal [OF d])
  then have "rx (put_all disk_peer (put_all disk_peer (put_all disk_peer (put_all disk_peer
      d (hexs [2])) [0x20]) (hexs (le32 a))) [0x0A]) = []"
    by (simp add: put_all_append [symmetric])
  then show ?thesis
    by (simp add: disk_rd_tries.simps(2) Let_def PL011_puth_put_all addr_puth_put_all putc_put_all
        hexs_def [of "[2]", simplified, symmetric] PL011_geth_def PL011_getc_def)
qed

section \<open>Properties\<close>

text \<open>A small disk: two blocks of two bytes, the first two transfers come up short.\<close>

definition sample_disk :: uart2 where
  "sample_disk = \<lparr>rx = [], peer = \<lparr>block_num = 2, block_len = 2, disk_img = [[7, 8], [9, 10]],
     shorts = [1, 2], dead = False, line = []\<rparr>\<rparr>"

lemma sample_disk_facts:
  "disk_ok sample_disk" "blocks sample_disk = [[7, 8], [9, 10]]" "block_len (peer sample_disk) = 2"
  "failing sample_disk = 2" "ready sample_disk"
  by (simp_all add: sample_disk_def disk_ok_def ready_def blocks_def failing_def)

text \<open>
  C12: Writing a block.  For every address on the disk, \<open>disk_wr\<close> either succeeds, and then the block
  holds exactly the bytes given and every other block is as before, or it has used up its three
  attempts, and then it reports failure.  It succeeds exactly when one of the first three transfers of
  the server is complete, and in both cases the line is ready for the next request.
\<close>

theorem disk_wr_block:
  assumes "disk_ok d" "unat a < length (blocks d)" "length x = block_len (peer d)"
  shows "\<exists>d'. disk_wr d a x (length x) =
      Some (if failing d < 3 then DISK_SUCCESS else DISK_FAILURE, d') \<and> disk_ok d'
    \<and> (failing d < 3 \<longrightarrow> blocks d' = (blocks d)[unat a := x])
    \<and> (\<forall>i < length (blocks d). i \<noteq> unat a \<longrightarrow> blocks d' ! i = blocks d ! i)"
proof (cases "failing d < 3")
  case True
  let ?d = "stored a x (used (Suc (failing d)) d)"
  have "disk_wr d a x (length x) = Some (DISK_SUCCESS, ?d)"
    using disk_wr_tries_in_range [OF assms(1,2) refl assms(3), of 3] True
    by (simp add: disk_wr_def DISK_RETRY_def)
  then show ?thesis using True assms by (intro exI [of _ ?d]) (simp add: uart_simps)
next
  case False
  then obtain y where "length y = length x" "disk_wr d a x (length x) = Some (DISK_FAILURE, stored a y (used 3 d))"
    using disk_wr_tries_in_range [OF assms(1,2) refl assms(3), of 3]
    by (auto simp: disk_wr_def DISK_RETRY_def)
  then show ?thesis using False assms by (intro exI [of _ "stored a y (used 3 d)"]) (simp add: uart_simps)
qed

lemma disk_wr_block_witness:
  "\<exists>d'. disk_wr sample_disk 1 [1, 2] 2 = Some (DISK_SUCCESS, d') \<and> blocks d' = [[7, 8], [1, 2]]"
  using disk_wr_block [of sample_disk 1 "[1, 2]"] by (auto simp: sample_disk_facts numeral_2_eq_2)

text \<open>
  C13: Reading a block.  For every address on the disk, \<open>disk_rd\<close> returns the block stored there if
  one of the first three transfers is complete, and reports failure, leaving the caller's buffer
  alone, if not.  The blocks are not changed.
\<close>

theorem disk_rd_block:
  assumes "disk_ok d" "unat a < length (blocks d)" "n = block_len (peer d)"
  shows "\<exists>d'. disk_rd d a n =
      Some (if failing d < 3 then (DISK_SUCCESS, blocks d ! unat a, d') else (DISK_FAILURE, [], d'))
    \<and> disk_ok d' \<and> blocks d' = blocks d"
proof -
  let ?d = "used (if failing d < 3 then Suc (failing d) else 3) d"
  have "disk_rd d a n =
      Some (if failing d < 3 then (DISK_SUCCESS, blocks d ! unat a, ?d) else (DISK_FAILURE, [], ?d))"
    using disk_rd_tries_in_range [OF assms, of 3] by (simp add: disk_rd_def DISK_RETRY_def)
  then show ?thesis using assms(1) by (intro exI [of _ ?d]) (simp add: uart_simps)
qed

lemma disk_rd_block_witness:
  "\<exists>d'. disk_rd sample_disk 0 2 = Some (DISK_SUCCESS, [7, 8], d') \<and> blocks d' = [[7, 8], [9, 10]]"
  using disk_rd_block [of sample_disk 0 2] by (auto simp: sample_disk_facts)

text \<open>
  C14: Addresses outside the disk.  The server refuses an address that, read as the signed number it
  unpacks, is past the end, and both operations then fail with nothing changed.  A negative one
  (\<open>0x80000000\<close> and above) makes the server's seek raise an exception: it dies without answering, and
  \<open>disk_rd\<close> waits for ever.
\<close>

theorem disk_out_of_range:
  assumes "disk_ok d" "x \<noteq> []"
  shows "(int (length (blocks d)) \<le> sint a \<longrightarrow>
      disk_wr d a x (length x) = Some (DISK_FAILURE, d) \<and> disk_rd d a n = Some (DISK_FAILURE, [], d))
    \<and> (sint a < 0 \<longrightarrow> disk_rd d a n = None)"
proof (intro conjI impI)
  have d: "ready d" "block_num (peer d) = int (length (blocks d))"
    using assms by (auto simp: disk_ok_def blocks_def)
  show "disk_wr d a x (length x) = Some (DISK_FAILURE, d)" "disk_rd d a n = Some (DISK_FAILURE, [], d)"
    if "int (length (blocks d)) \<le> sint a"
    using disk_wr_tries_out_of_range [OF d(1) assms(2) refl] disk_rd_tries_out_of_range [OF d(1)] d(2) that
    by (simp_all add: disk_wr_def disk_rd_def)
  show "disk_rd d a n = None" if "sint a < 0"
    using disk_rd_tries_negative [OF d(1), of a 2 n] d(2) that
    by (simp add: disk_rd_def DISK_RETRY_def numeral_3_eq_3 numeral_2_eq_2)
qed

lemma disk_out_of_range_witness:
  "disk_wr sample_disk 2 [1] 1 = Some (DISK_FAILURE, sample_disk) \<and> disk_rd sample_disk 0x80000000 1 = None"
  using disk_out_of_range [where d = sample_disk and x = "[1]" and a = 2 and n = 1]
    disk_out_of_range [where d = sample_disk and x = "[1]" and a = "0x80000000" and n = 1]
  by (simp add: sample_disk_facts)

end
