(* ===== verification/Fs2_Layout.thy ===== *)
theory Fs2_Layout
  imports Prelude
begin

text \<open>
  The on-disk structures of the file system, \<^verbatim>\<open>kernel/fs2.h\<close>: records with the fields of the C
  structs, arrays as lists of the declared length, and the byte layout the casts to \<open>uint8_t*\<close>
  give them (little-endian, no padding: the numbers in the header's comments are the offsets).
  \<open>wf_\<dots>\<close> says that every array has its declared length, which the C types guarantee.
\<close>

definition FS2_BLOCK_SZ :: nat where "FS2_BLOCK_SZ = 0x1000"

definition FS2_FTYPE_DIR :: u8 where "FS2_FTYPE_DIR = 0x00"

definition FS2_FTYPE_FILE :: u8 where "FS2_FTYPE_FILE = 0x01"

definition FS2_U_READ :: u8 where "FS2_U_READ = 0x01"

definition FS2_U_WRITE :: u8 where "FS2_U_WRITE = 0x02"

record fs2_inode =
  ftype :: u8
  fperm :: u8
  i_unused :: "u8 list"
  reg_len :: "u8 list"
  eof :: u32
  iparent :: u32
  reg_start :: "u32 list"

record fs2_dir_entry =
  inode_index :: u32
  name :: "byte list"

record fs2_hblock =
  ident :: "byte list"
  default_perm :: u8
  default_ireg_len :: u8
  default_freg_len :: u8
  default_dreg_len :: u8
  nblocks :: u32
  next_inode :: u32
  next_block :: u32
  h_unused :: "u8 list"
  separator :: u16
  h_reg_start :: "u32 list"
  h_reg_len :: "u8 list"

type_synonym fs2_iblock = "fs2_inode list"
type_synonym fs2_dblock = "fs2_dir_entry list"
type_synonym fs2_block = "byte list"

definition wf_inode :: "fs2_inode \<Rightarrow> bool" where
  "wf_inode i \<longleftrightarrow> length (i_unused i) = 3 \<and> length (reg_len i) = 23 \<and> length (reg_start i) = 23"

definition wf_entry :: "fs2_dir_entry \<Rightarrow> bool" where
  "wf_entry e \<longleftrightarrow> length (name e) = 28"

definition wf_hblock :: "fs2_hblock \<Rightarrow> bool" where
  "wf_hblock h \<longleftrightarrow> length (ident h) = 8 \<and> length (h_unused h) = 70
     \<and> length (h_reg_start h) = 800 \<and> length (h_reg_len h) = 800"

definition wf_iblock :: "fs2_iblock \<Rightarrow> bool" where
  "wf_iblock ib \<longleftrightarrow> length ib = 32 \<and> (\<forall>i \<in> set ib. wf_inode i)"

definition wf_dblock :: "fs2_dblock \<Rightarrow> bool" where
  "wf_dblock db \<longleftrightarrow> length db = 128 \<and> (\<forall>e \<in> set db. wf_entry e)"

section \<open>Byte layout\<close>

definition inode_bytes :: "fs2_inode \<Rightarrow> byte list" where
  "inode_bytes i = [ftype i, fperm i] @ i_unused i @ reg_len i @ le32 (eof i) @ le32 (iparent i)
     @ le32s (reg_start i)"

definition inode_of_bytes :: "byte list \<Rightarrow> fs2_inode" where
  "inode_of_bytes bs = \<lparr>
     ftype = bs ! 0, fperm = bs ! 1,
     i_unused = take 3 (drop 2 bs), reg_len = take 23 (drop 5 bs),
     eof = of_le32 (take 4 (drop 28 bs)), iparent = of_le32 (take 4 (drop 32 bs)),
     reg_start = of_le32s 23 (take 92 (drop 36 bs)) \<rparr>"

definition entry_bytes :: "fs2_dir_entry \<Rightarrow> byte list" where
  "entry_bytes e = le32 (inode_index e) @ name e"

definition entry_of_bytes :: "byte list \<Rightarrow> fs2_dir_entry" where
  "entry_of_bytes bs = \<lparr> inode_index = of_le32 (take 4 bs), name = take 28 (drop 4 bs) \<rparr>"

definition hblock_bytes :: "fs2_hblock \<Rightarrow> byte list" where
  "hblock_bytes h = ident h
     @ [default_perm h, default_ireg_len h, default_freg_len h, default_dreg_len h]
     @ le32 (nblocks h) @ le32 (next_inode h) @ le32 (next_block h)
     @ h_unused h @ le16 (separator h) @ le32s (h_reg_start h) @ h_reg_len h"

definition hblock_of_bytes :: "byte list \<Rightarrow> fs2_hblock" where
  "hblock_of_bytes bs = \<lparr>
     ident = take 8 bs,
     default_perm = bs ! 8, default_ireg_len = bs ! 9,
     default_freg_len = bs ! 10, default_dreg_len = bs ! 11,
     nblocks = of_le32 (take 4 (drop 12 bs)), next_inode = of_le32 (take 4 (drop 16 bs)),
     next_block = of_le32 (take 4 (drop 20 bs)),
     h_unused = take 70 (drop 24 bs), separator = of_le16 (take 2 (drop 94 bs)),
     h_reg_start = of_le32s 800 (take 3200 (drop 96 bs)),
     h_reg_len = take 800 (drop 3296 bs) \<rparr>"

text \<open>An array of structures of \<open>w\<close> bytes each.\<close>

primrec array_of_bytes :: "nat \<Rightarrow> (byte list \<Rightarrow> 'a) \<Rightarrow> nat \<Rightarrow> byte list \<Rightarrow> 'a list" where
  "array_of_bytes w dec 0 bs = []"
| "array_of_bytes w dec (Suc n) bs = dec (take w bs) # array_of_bytes w dec n (drop w bs)"

definition iblock_bytes :: "fs2_iblock \<Rightarrow> byte list" where
  "iblock_bytes ib = concat (map inode_bytes ib)"

definition iblock_of_bytes :: "byte list \<Rightarrow> fs2_iblock" where
  "iblock_of_bytes bs = array_of_bytes 128 inode_of_bytes 32 bs"

definition dblock_bytes :: "fs2_dblock \<Rightarrow> byte list" where
  "dblock_bytes db = concat (map entry_bytes db)"

definition dblock_of_bytes :: "byte list \<Rightarrow> fs2_dblock" where
  "dblock_of_bytes bs = array_of_bytes 32 entry_of_bytes 128 bs"

section \<open>Sizes and round trips\<close>

lemma take_drop_next: "m = n + a \<Longrightarrow> take a (drop n bs) @ drop m bs = drop n bs"
  by (metis append_take_drop_id drop_drop add.commute)

lemma nth_drop_next: "\<lbrakk> n < length bs; m = Suc n \<rbrakk> \<Longrightarrow> (bs ! n) # drop m bs = drop n bs"
  by (simp add: Cons_nth_drop_Suc)

lemma length_inode_bytes [layout_simps]: "wf_inode i \<Longrightarrow> length (inode_bytes i) = 128"
  by (simp add: inode_bytes_def wf_inode_def)

lemma length_entry_bytes [layout_simps]: "wf_entry e \<Longrightarrow> length (entry_bytes e) = 32"
  by (simp add: entry_bytes_def wf_entry_def)

lemma length_hblock_bytes [layout_simps]: "wf_hblock h \<Longrightarrow> length (hblock_bytes h) = 4096"
  by (simp add: hblock_bytes_def wf_hblock_def)

lemma wf_inode_of_bytes [layout_simps]: "length bs = 128 \<Longrightarrow> wf_inode (inode_of_bytes bs)"
  by (simp add: inode_of_bytes_def wf_inode_def)

lemma wf_entry_of_bytes [layout_simps]: "length bs = 32 \<Longrightarrow> wf_entry (entry_of_bytes bs)"
  by (simp add: entry_of_bytes_def wf_entry_def)

lemma wf_hblock_of_bytes [layout_simps]: "length bs = 4096 \<Longrightarrow> wf_hblock (hblock_of_bytes bs)"
  by (simp add: hblock_of_bytes_def wf_hblock_def)

lemma inode_of_inode_bytes [layout_simps]: "wf_inode i \<Longrightarrow> inode_of_bytes (inode_bytes i) = i"
  by (cases i) (simp add: inode_of_bytes_def inode_bytes_def wf_inode_def)

lemma entry_of_entry_bytes [layout_simps]: "wf_entry e \<Longrightarrow> entry_of_bytes (entry_bytes e) = e"
  by (cases e) (simp add: entry_of_bytes_def entry_bytes_def wf_entry_def)

lemma hblock_of_hblock_bytes [layout_simps]: "wf_hblock h \<Longrightarrow> hblock_of_bytes (hblock_bytes h) = h"
  by (cases h) (simp add: hblock_of_bytes_def hblock_bytes_def wf_hblock_def nth_append)

lemma inode_bytes_of_bytes [layout_simps]:
  assumes "length bs = 128"
  shows "inode_bytes (inode_of_bytes bs) = bs"
proof -
  have "inode_bytes (inode_of_bytes bs) = (bs ! 0) # (bs ! 1) # take 3 (drop 2 bs)
      @ take 23 (drop 5 bs) @ take 4 (drop 28 bs) @ take 4 (drop 32 bs) @ drop 36 bs"
    using assms by (simp add: inode_bytes_def inode_of_bytes_def le32_of_le32 le32s_of_le32s)
  also have "\<dots> = drop 0 bs"
    using assms by (simp add: take_drop_next nth_drop_next)
  finally show ?thesis by simp
qed

lemma entry_bytes_of_bytes [layout_simps]:
  assumes "length bs = 32"
  shows "entry_bytes (entry_of_bytes bs) = bs"
  using assms by (simp add: entry_bytes_def entry_of_bytes_def le32_of_le32)

lemma hblock_bytes_of_bytes [layout_simps]:
  assumes "length bs = 4096"
  shows "hblock_bytes (hblock_of_bytes bs) = bs"
proof -
  have "hblock_bytes (hblock_of_bytes bs) = take 8 (drop 0 bs)
      @ (bs ! 8) # (bs ! 9) # (bs ! 10) # (bs ! 11) # take 4 (drop 12 bs)
      @ take 4 (drop 16 bs) @ take 4 (drop 20 bs) @ take 70 (drop 24 bs) @ take 2 (drop 94 bs)
      @ take 3200 (drop 96 bs) @ drop 3296 bs"
    using assms
    by (simp add: hblock_bytes_def hblock_of_bytes_def le32_of_le32 le16_of_le16 le32s_of_le32s)
  also have "\<dots> = drop 0 bs"
    using assms by (simp add: take_drop_next nth_drop_next)
  finally show ?thesis by simp
qed

text \<open>The same for arrays of structures, once for all element types.\<close>

lemma length_array_of_bytes [layout_simps]: "length (array_of_bytes w dec n bs) = n"
  by (induction n arbitrary: bs) simp_all

lemma length_concat_map: "\<forall>x \<in> set xs. length (enc x) = w \<Longrightarrow> length (concat (map enc xs)) = w * length xs"
  by (induction xs) simp_all

lemma array_of_bytes_encode:
  assumes "\<forall>x \<in> set xs. length (enc x) = w \<and> dec (enc x) = x"
  shows "array_of_bytes w dec (length xs) (concat (map enc xs)) = xs"
  using assms by (induction xs) simp_all

lemma encode_array_of_bytes:
  assumes "\<And>b. length b = w \<Longrightarrow> enc (dec b) = b"
  shows "length bs = w * n \<Longrightarrow> concat (map enc (array_of_bytes w dec n bs)) = bs"
proof (induction n arbitrary: bs)
  case 0
  then show ?case by simp
next
  case (Suc n)
  then show ?case by (simp add: assms)
qed

lemma array_of_bytes_wf:
  assumes "\<And>b. length b = w \<Longrightarrow> good (dec b)"
  shows "length bs = w * n \<Longrightarrow> \<forall>x \<in> set (array_of_bytes w dec n bs). good x"
proof (induction n arbitrary: bs)
  case 0
  then show ?case by simp
next
  case (Suc n)
  then have "\<forall>x \<in> set (array_of_bytes w dec n (drop w bs)). good x" by (intro Suc.IH) simp
  then show ?case using Suc.prems assms by simp
qed

lemma length_iblock_bytes [layout_simps]: "wf_iblock ib \<Longrightarrow> length (iblock_bytes ib) = 4096"
  unfolding iblock_bytes_def wf_iblock_def
  by (subst length_concat_map [where w = 128]) (simp_all add: length_inode_bytes)

lemma length_dblock_bytes [layout_simps]: "wf_dblock db \<Longrightarrow> length (dblock_bytes db) = 4096"
  unfolding dblock_bytes_def wf_dblock_def
  by (subst length_concat_map [where w = 32]) (simp_all add: length_entry_bytes)

lemma iblock_of_iblock_bytes [layout_simps]: "wf_iblock ib \<Longrightarrow> iblock_of_bytes (iblock_bytes ib) = ib"
  using array_of_bytes_encode [of ib inode_bytes 128 inode_of_bytes]
  by (simp add: iblock_bytes_def iblock_of_bytes_def wf_iblock_def length_inode_bytes
      inode_of_inode_bytes)

lemma dblock_of_dblock_bytes [layout_simps]: "wf_dblock db \<Longrightarrow> dblock_of_bytes (dblock_bytes db) = db"
  using array_of_bytes_encode [of db entry_bytes 32 entry_of_bytes]
  by (simp add: dblock_bytes_def dblock_of_bytes_def wf_dblock_def length_entry_bytes
      entry_of_entry_bytes)

lemma iblock_bytes_of_bytes [layout_simps]: "length bs = 4096 \<Longrightarrow> iblock_bytes (iblock_of_bytes bs) = bs"
  unfolding iblock_bytes_def iblock_of_bytes_def
  by (rule encode_array_of_bytes) (simp_all add: inode_bytes_of_bytes)

lemma dblock_bytes_of_bytes [layout_simps]: "length bs = 4096 \<Longrightarrow> dblock_bytes (dblock_of_bytes bs) = bs"
  unfolding dblock_bytes_def dblock_of_bytes_def
  by (rule encode_array_of_bytes) (simp_all add: entry_bytes_of_bytes)

lemma wf_iblock_of_bytes [layout_simps]: "length bs = 4096 \<Longrightarrow> wf_iblock (iblock_of_bytes bs)"
  unfolding wf_iblock_def iblock_of_bytes_def
  using array_of_bytes_wf [where w = 128 and good = wf_inode and dec = inode_of_bytes and n = 32]
  by (simp add: length_array_of_bytes wf_inode_of_bytes)

lemma wf_dblock_of_bytes [layout_simps]: "length bs = 4096 \<Longrightarrow> wf_dblock (dblock_of_bytes bs)"
  unfolding wf_dblock_def dblock_of_bytes_def
  using array_of_bytes_wf [where w = 32 and good = wf_entry and dec = entry_of_bytes and n = 128]
  by (simp add: length_array_of_bytes wf_entry_of_bytes)

section \<open>Properties\<close>

text \<open>
  C34: The layout of the volume.  Header, inode blocks and directory blocks are each exactly one block
  of 4096 bytes, reading back what was written gives the same structure, and writing back what was
  read gives the same bytes: no field overlaps another and no byte of a block is lost.
\<close>

theorem layout_roundtrip:
  assumes "wf_hblock h" "wf_iblock ib" "wf_dblock db" "length bs = FS2_BLOCK_SZ"
  shows "hblock_of_bytes (hblock_bytes h) = h \<and> length (hblock_bytes h) = FS2_BLOCK_SZ
    \<and> iblock_of_bytes (iblock_bytes ib) = ib \<and> length (iblock_bytes ib) = FS2_BLOCK_SZ
    \<and> dblock_of_bytes (dblock_bytes db) = db \<and> length (dblock_bytes db) = FS2_BLOCK_SZ
    \<and> hblock_bytes (hblock_of_bytes bs) = bs \<and> iblock_bytes (iblock_of_bytes bs) = bs
    \<and> dblock_bytes (dblock_of_bytes bs) = bs"
  using assms by (simp add: layout_simps FS2_BLOCK_SZ_def)

lemma layout_roundtrip_witness:
  "hblock_bytes (hblock_of_bytes (replicate 4096 7)) = replicate 4096 7
   \<and> iblock_of_bytes (iblock_bytes (iblock_of_bytes (replicate 4096 9))) = iblock_of_bytes (replicate 4096 9)"
  using layout_roundtrip [of "hblock_of_bytes (replicate 4096 8)" "iblock_of_bytes (replicate 4096 9)"
      "dblock_of_bytes (replicate 4096 1)" "replicate 4096 7"]
  by (simp add: layout_simps FS2_BLOCK_SZ_def)

end
