(* ===== verification/Fs2_Cache.thy ===== *)
theory Fs2_Cache
  imports Disk Fs2_Layout
begin

text \<open>
  The volume in memory, block input and output, the block caches and the allocation of regions
  (\<^verbatim>\<open>kernel/fs2.c\<close>, the section LOAD / SAVE).  The field \<open>disk\<close> is not part of the C struct:
  it is the line to the disk, which the C code reaches through the global \<open>UART2\<close>.
\<close>

datatype fs2_outcome =
    FS2_SUCCESS | FS2_INVALID_FS | FS2_BAD_FORMAT_ARGS | FS2_DISK_RD_ERR | FS2_DISK_WR_ERR
  | FS2_HBLOCK_FULL | FS2_DISK_FULL | FS2_FILE_FULL | FS2_UNEXPECTED_FILE | FS2_INVALID_PATH
  | FS2_NO_FILE | FS2_BAD_FTYPE | FS2_BAD_PERMISSIONS

record fs2_volume =
  blk_0 :: u32
  outcome :: fs2_outcome
  hblock :: fs2_hblock
  icindex :: u32
  icaddr :: u32
  icache :: fs2_iblock
  dcaddr :: u32
  dcache :: fs2_dblock
  xcaddr :: u32
  xcache :: fs2_block
  disk :: uart2

section \<open>Blocks\<close>

definition fs2_rblk :: "fs2_volume \<Rightarrow> u32 \<Rightarrow> (bool \<times> byte list \<times> fs2_volume) option" where
  "fs2_rblk vol blkindex = do {
     (r, bs, d) \<leftarrow> disk_rd (disk vol) (blk_0 vol + blkindex) FS2_BLOCK_SZ;
     Some (r \<ge> 0, bs, vol\<lparr>disk := d\<rparr>)
   }"

definition fs2_wblk :: "fs2_volume \<Rightarrow> u32 \<Rightarrow> byte list \<Rightarrow> (bool \<times> fs2_volume) option" where
  "fs2_wblk vol blkindex bs = do {
     (r, d) \<leftarrow> disk_wr (disk vol) (blk_0 vol + blkindex) bs FS2_BLOCK_SZ;
     Some (r \<ge> 0, vol\<lparr>disk := d\<rparr>)
   }"

text \<open>\<open>vol->outcome = ok ? FS2_SUCCESS : err\<close>\<close>

definition set_outcome :: "bool \<Rightarrow> fs2_outcome \<Rightarrow> fs2_volume \<Rightarrow> fs2_volume" where
  "set_outcome ok err vol = vol\<lparr>outcome := if ok then FS2_SUCCESS else err\<rparr>"

definition fs2_save_hblock :: "fs2_volume \<Rightarrow> fs2_volume option" where
  "fs2_save_hblock vol = do {
     (ok, vol1) \<leftarrow> fs2_wblk vol 0 (hblock_bytes (hblock vol));
     Some (set_outcome ok FS2_DISK_WR_ERR vol1)
   }"

definition fs2_save_iblock_c :: "fs2_volume \<Rightarrow> fs2_volume option" where
  "fs2_save_iblock_c vol = do {
     (ok, vol1) \<leftarrow> fs2_wblk vol (icaddr vol) (iblock_bytes (icache vol));
     Some (set_outcome ok FS2_DISK_WR_ERR vol1)
   }"

section \<open>Regions\<close>

text \<open>
  The loop at the head of \<open>fs2_find_free_region\<close> runs \<open>i\<close> downwards from \<open>separator\<close> while
  \<open>i < 800\<close>, without effect: with \<open>separator < 800\<close> it walks off the front of \<open>reg_len\<close>.
\<close>

function free_region_scan :: "fs2_hblock \<Rightarrow> int \<Rightarrow> unit option" where
  "free_region_scan h i =
     (if i < 800 then if i < 0 then None else free_region_scan h (i - 1) else Some ())"
  by pat_completeness auto
termination
  by (relation "measure (\<lambda>(h, i). nat (i + 1))") auto

declare free_region_scan.simps [simp del]

definition fs2_find_free_region :: "fs2_volume \<Rightarrow> u8 \<Rightarrow> bool \<Rightarrow> (u32 \<times> fs2_volume) option" where
  "fs2_find_free_region vol rsz save = do {
     _ \<leftarrow> free_region_scan (hblock vol) (int (unat (separator (hblock vol))));
     let onb = next_block (hblock vol);
     let nnb = onb + ucast rsz;
     if nnb > nblocks (hblock vol) then Some (0, vol\<lparr>outcome := FS2_DISK_FULL\<rparr>)
     else
       let vol1 = vol\<lparr>hblock := (hblock vol)\<lparr>next_block := nnb\<rparr>\<rparr>
       in if save then do { vol2 \<leftarrow> fs2_save_hblock vol1; Some (onb, vol2) }
          else Some (onb, vol1\<lparr>outcome := FS2_SUCCESS\<rparr>)
   }"

text \<open>
  The loop of \<open>fs2_get_iblock\<close> over the iregions of the hblock: \<open>Inl\<close> the address of the iblock,
  or \<open>Inr\<close> the index at which the loop stopped.  \<open>n\<close> counts the iblocks of the regions before \<open>i\<close>.
\<close>

function find_iregion :: "fs2_hblock \<Rightarrow> u32 \<Rightarrow> nat \<Rightarrow> u32 \<Rightarrow> (u32 + nat) option" where
  "find_iregion h ibindex i n =
     (if i < unat (separator h) then
        if 800 \<le> i then None
        else if h_reg_start h ! i \<noteq> 0 then
          let b = n + ucast (h_reg_len h ! i)
          in if ibindex < b then Some (Inl (h_reg_start h ! i + ibindex - n))
             else find_iregion h ibindex (Suc i) b
        else Some (Inr i)
      else Some (Inr i))"
  by pat_completeness auto
termination
  by (relation "measure (\<lambda>(h, ibindex, i, n). unat (separator h) - i)") auto

declare find_iregion.simps [simp del]

text \<open>
  \<open>find_blk\<close> searches the regions of an inode in the same way; 0 means that the file has no such
  block.  The arrays have \<open>nreg\<close> entries (23 in every call).
\<close>

function find_blk_loop :: "u32 list \<Rightarrow> u8 list \<Rightarrow> nat \<Rightarrow> int \<Rightarrow> nat \<Rightarrow> int \<Rightarrow> u32" where
  "find_blk_loop starts lens nreg bindex i n =
     (if i < nreg \<and> starts ! i \<noteq> 0 then
        let j = n + uint (lens ! i)
        in if bindex < j then starts ! i + word_of_int bindex - word_of_int n
           else find_blk_loop starts lens nreg bindex (Suc i) j
      else 0)"
  by pat_completeness auto
termination
  by (relation "measure (\<lambda>(starts, lens, nreg, bindex, i, n). nreg - i)") auto

declare find_blk_loop.simps [simp del]

definition find_blk :: "u32 list \<Rightarrow> u8 list \<Rightarrow> nat \<Rightarrow> int \<Rightarrow> u32" where
  "find_blk starts lens nreg bindex = find_blk_loop starts lens nreg bindex 0 0"

text \<open>\<open>iblock\<close> is what the structure pointed to holds before the call; it is returned updated.\<close>

definition fs2_get_iblock ::
    "fs2_volume \<Rightarrow> fs2_iblock \<Rightarrow> u32 \<Rightarrow> bool \<Rightarrow> (u32 \<times> fs2_iblock \<times> fs2_volume) option" where
  "fs2_get_iblock vol iblock ibindex save_hblock = do {
     r \<leftarrow> find_iregion (hblock vol) ibindex 0 0;
     case r of
       Inl ibaddr \<Rightarrow> do {
         (ok, bs, vol1) \<leftarrow> fs2_rblk vol ibaddr;
         Some (ibaddr, if ok then iblock_of_bytes bs else iblock,
               set_outcome ok FS2_DISK_RD_ERR vol1)
       }
     | Inr i \<Rightarrow>
         if i = unat (separator (hblock vol)) then Some (0, iblock, vol\<lparr>outcome := FS2_HBLOCK_FULL\<rparr>)
         else do {
           (nreg_start, vol1) \<leftarrow>
             fs2_find_free_region vol (default_ireg_len (hblock vol)) False;
           if nreg_start = 0 then Some (0, iblock, vol1)
           else
             let h = hblock vol1;
                 vol2 = vol1\<lparr>hblock := h\<lparr>h_reg_start := (h_reg_start h)[i := nreg_start],
                                        h_reg_len := (h_reg_len h)[i := default_ireg_len h]\<rparr>\<rparr>
             in if save_hblock then do { vol3 \<leftarrow> fs2_save_hblock vol2; Some (nreg_start, iblock, vol3) }
                else Some (nreg_start, iblock, vol2\<lparr>outcome := FS2_SUCCESS\<rparr>)
         }
   }"

section \<open>The caches\<close>

definition fs2_get_iblock_c :: "fs2_volume \<Rightarrow> u32 \<Rightarrow> bool \<Rightarrow> bool \<Rightarrow> fs2_volume option" where
  "fs2_get_iblock_c vol ibindex save_h savechanges =
     (if ibindex \<noteq> icindex vol then do {
        vol1 \<leftarrow> (if savechanges then fs2_save_iblock_c vol else Some vol);
        if savechanges \<and> outcome vol1 \<noteq> FS2_SUCCESS then Some vol1
        else do {
          let vol2 = vol1\<lparr>icindex := ibindex\<rparr>;
          (addr, ib, vol3) \<leftarrow> fs2_get_iblock vol2 (icache vol2) ibindex save_h;
          let vol4 = vol3\<lparr>icache := ib, icaddr := addr\<rparr>;
          if outcome vol4 \<noteq> FS2_SUCCESS then Some vol4 else Some (vol4\<lparr>outcome := FS2_SUCCESS\<rparr>)
        }
      }
      else Some (vol\<lparr>outcome := FS2_SUCCESS\<rparr>))"

definition fs2_load_dblock_c :: "fs2_volume \<Rightarrow> u32 \<Rightarrow> bool \<Rightarrow> fs2_volume option" where
  "fs2_load_dblock_c vol daddr dry =
     (if daddr \<noteq> dcaddr vol then
        if \<not> dry then do {
          (ok, bs, vol1) \<leftarrow> fs2_rblk vol daddr;
          if \<not> ok then Some (vol1\<lparr>outcome := FS2_DISK_RD_ERR\<rparr>)
          else Some (vol1\<lparr>dcache := dblock_of_bytes bs, dcaddr := daddr, outcome := FS2_SUCCESS\<rparr>)
        }
        else Some (vol\<lparr>dcaddr := daddr, outcome := FS2_SUCCESS\<rparr>)
      else Some (vol\<lparr>outcome := FS2_SUCCESS\<rparr>))"

definition fs2_save_dblock_c :: "fs2_volume \<Rightarrow> fs2_volume option" where
  "fs2_save_dblock_c vol = do {
     (ok, vol1) \<leftarrow> fs2_wblk vol (dcaddr vol) (dblock_bytes (dcache vol));
     Some (set_outcome ok FS2_DISK_WR_ERR vol1)
   }"

definition fs2_load_gp_c :: "fs2_volume \<Rightarrow> u32 \<Rightarrow> bool \<Rightarrow> fs2_volume option" where
  "fs2_load_gp_c vol baddr dry =
     (if baddr \<noteq> xcaddr vol then
        if \<not> dry then do {
          (ok, bs, vol1) \<leftarrow> fs2_rblk vol baddr;
          if \<not> ok then Some (vol1\<lparr>outcome := FS2_DISK_RD_ERR\<rparr>)
          else Some (vol1\<lparr>xcache := bs, xcaddr := baddr, outcome := FS2_SUCCESS\<rparr>)
        }
        else Some (vol\<lparr>xcaddr := baddr, outcome := FS2_SUCCESS\<rparr>)
      else Some (vol\<lparr>outcome := FS2_SUCCESS\<rparr>))"

definition fs2_save_gp_c :: "fs2_volume \<Rightarrow> fs2_volume option" where
  "fs2_save_gp_c vol = do {
     (ok, vol1) \<leftarrow> fs2_wblk vol (xcaddr vol) (xcache vol);
     Some (set_outcome ok FS2_DISK_WR_ERR vol1)
   }"

text \<open>The identifier of the format, \<open>"CWFS 2.1"\<close>.\<close>

definition cwfs_ident :: "byte list" where
  "cwfs_ident = chars ''CWFS 2.1''"

definition fs2_load_volume :: "fs2_volume \<Rightarrow> fs2_volume option" where
  "fs2_load_volume vol = do {
     (ok, bs, vol1) \<leftarrow> fs2_rblk vol 0;
     if \<not> ok then Some (vol1\<lparr>outcome := FS2_DISK_RD_ERR\<rparr>)
     else
       let vol2 = vol1\<lparr>hblock := hblock_of_bytes bs\<rparr>
       in if \<not> strncmp_eq 8 (ident (hblock vol2)) (cstr cwfs_ident)
          then Some (vol2\<lparr>outcome := FS2_INVALID_FS\<rparr>)
          else Some (vol2\<lparr>icindex := -1, dcaddr := -1, xcaddr := -1, outcome := FS2_SUCCESS\<rparr>)
   }"

end
