(* ===== verification/Fs2_Regions.thy ===== *)
theory Fs2_Regions
  imports Fs2_Cache
begin

text \<open>
  Properties of the block layer of \<open>Fs2_Cache\<close>: input and output on a working disk, the region
  tables against their reference (the list of blocks they denote), the allocator, and the contract
  of a block cache, stated as a locale that both the directory-block cache and the general
  purpose cache of the volume satisfy.
\<close>

section \<open>Blocks of a volume\<close>

definition vol_ok :: "fs2_volume \<Rightarrow> bool" where
  "vol_ok v \<longleftrightarrow> disk_ok (disk v) \<and> block_len (peer (disk v)) = 4096
     \<and> wf_hblock (hblock v) \<and> wf_iblock (icache v) \<and> wf_dblock (dcache v) \<and> length (xcache v) = 4096"

text \<open>No transfer of the disk comes up short.\<close>

definition quiet :: "fs2_volume \<Rightarrow> bool" where
  "quiet v \<longleftrightarrow> shorts (peer (disk v)) = []"

definition on_disk :: "fs2_volume \<Rightarrow> u32 \<Rightarrow> bool" where
  "on_disk v a \<longleftrightarrow> unat (blk_0 v + a) < length (blocks (disk v))"

definition blk :: "fs2_volume \<Rightarrow> u32 \<Rightarrow> byte list" where
  "blk v a = blocks (disk v) ! unat (blk_0 v + a)"

definition put_blk :: "u32 \<Rightarrow> byte list \<Rightarrow> fs2_volume \<Rightarrow> fs2_volume" where
  "put_blk a x v = v\<lparr>disk := stored (blk_0 v + a) x (disk v)\<rparr>"

lemma quiet_failing: "quiet v \<Longrightarrow> failing (disk v) = 0"
  by (simp add: quiet_def failing_def)

lemma quiet_used: "quiet v \<Longrightarrow> used k (disk v) = disk v"
  by (simp add: quiet_def used_def)

lemma fs2_rblk_ok [vol_simps]:
  assumes "vol_ok v" "quiet v" "on_disk v a"
  shows "fs2_rblk v a = Some (True, blk v a, v)"
  using assms
  by (simp add: fs2_rblk_def disk_rd_def FS2_BLOCK_SZ_def DISK_RETRY_def disk_rd_tries_in_range
      vol_ok_def on_disk_def quiet_failing quiet_used blk_def DISK_SUCCESS_def)

lemma fs2_wblk_ok [vol_simps]:
  assumes "vol_ok v" "quiet v" "on_disk v a" "length x = 4096"
  shows "fs2_wblk v a x = Some (True, put_blk a x v)"
proof -
  have "disk_wr_tries 3 (disk v) (blk_0 v + a) x 4096
      = Some (DISK_SUCCESS, stored (blk_0 v + a) x (disk v))"
    using disk_wr_tries_in_range [of "disk v" "blk_0 v + a" x 4096 3] assms
    by (simp add: vol_ok_def on_disk_def quiet_failing quiet_used)
  then show ?thesis
    by (simp add: fs2_wblk_def disk_wr_def FS2_BLOCK_SZ_def DISK_RETRY_def DISK_SUCCESS_def
        put_blk_def)
qed

text \<open>When every retry fails the caller sees it, and nothing but a torn block has changed.\<close>

lemma fs2_rblk_fail:
  assumes "vol_ok v" "3 \<le> failing (disk v)" "on_disk v a"
  shows "fs2_rblk v a = Some (False, [], v\<lparr>disk := used 3 (disk v)\<rparr>)"
  using assms
  by (simp add: fs2_rblk_def disk_rd_def FS2_BLOCK_SZ_def DISK_RETRY_def disk_rd_tries_in_range
      vol_ok_def on_disk_def DISK_FAILURE_def)

lemma add_left_same_block: "unat (b + a) = unat (b + c) \<longleftrightarrow> a = (c :: u32)"
  by (metis add_left_cancel unsigned_word_eqI)

lemma blk_put_blk [vol_simps]:
  "on_disk v b \<Longrightarrow> blk (put_blk a x v) b = (if a = b then x else blk v b)"
  by (auto simp: blk_def put_blk_def stored_def blocks_def on_disk_def nth_list_update
      add_left_same_block)

lemma put_blk_put_blk [simp]: "put_blk a x (put_blk a y v) = put_blk a x v"
  by (simp add: put_blk_def)

lemma put_blk_sel [vol_simps, simp]:
  "blk_0 (put_blk a x v) = blk_0 v" "outcome (put_blk a x v) = outcome v"
  "hblock (put_blk a x v) = hblock v" "icindex (put_blk a x v) = icindex v"
  "icaddr (put_blk a x v) = icaddr v" "icache (put_blk a x v) = icache v"
  "dcaddr (put_blk a x v) = dcaddr v" "dcache (put_blk a x v) = dcache v"
  "xcaddr (put_blk a x v) = xcaddr v" "xcache (put_blk a x v) = xcache v"
  by (simp_all add: put_blk_def)

lemma put_blk_on_disk [vol_simps, simp]: "on_disk (put_blk a x v) b = on_disk v b"
  by (simp add: on_disk_def put_blk_def stored_def blocks_def)

lemma put_blk_quiet [vol_simps, simp]: "quiet (put_blk a x v) = quiet v"
  by (simp add: quiet_def put_blk_def stored_def)

lemma put_blk_vol_ok [vol_simps, simp]:
  "\<lbrakk> vol_ok v; length x = 4096 \<rbrakk> \<Longrightarrow> vol_ok (put_blk a x v)"
  by (simp add: vol_ok_def put_blk_def uart_simps)

text \<open>The predicates look at the disk and at the shape of the buffers only.\<close>

lemma outcome_irrelevant [simp]:
  "vol_ok (v\<lparr>outcome := oc\<rparr>) = vol_ok v" "quiet (v\<lparr>outcome := oc\<rparr>) = quiet v"
  "on_disk (v\<lparr>outcome := oc\<rparr>) = on_disk v" "blk (v\<lparr>outcome := oc\<rparr>) = blk v"
  by (auto simp: vol_ok_def quiet_def on_disk_def blk_def fun_eq_iff)

lemma dcache_irrelevant [simp]:
  "quiet (v\<lparr>dcache := b\<rparr>) = quiet v" "on_disk (v\<lparr>dcache := b\<rparr>) = on_disk v"
  "blk (v\<lparr>dcache := b\<rparr>) = blk v"
  "quiet (v\<lparr>dcaddr := a\<rparr>) = quiet v" "on_disk (v\<lparr>dcaddr := a\<rparr>) = on_disk v"
  "blk (v\<lparr>dcaddr := a\<rparr>) = blk v" "vol_ok (v\<lparr>dcaddr := a\<rparr>) = vol_ok v"
  by (auto simp: vol_ok_def quiet_def on_disk_def blk_def fun_eq_iff)

lemma xcache_irrelevant [simp]:
  "quiet (v\<lparr>xcache := x\<rparr>) = quiet v" "on_disk (v\<lparr>xcache := x\<rparr>) = on_disk v"
  "blk (v\<lparr>xcache := x\<rparr>) = blk v"
  "quiet (v\<lparr>xcaddr := a\<rparr>) = quiet v" "on_disk (v\<lparr>xcaddr := a\<rparr>) = on_disk v"
  "blk (v\<lparr>xcaddr := a\<rparr>) = blk v" "vol_ok (v\<lparr>xcaddr := a\<rparr>) = vol_ok v"
  by (auto simp: vol_ok_def quiet_def on_disk_def blk_def fun_eq_iff)

lemma icache_irrelevant [simp]:
  "quiet (v\<lparr>icache := ib\<rparr>) = quiet v" "on_disk (v\<lparr>icache := ib\<rparr>) = on_disk v"
  "blk (v\<lparr>icache := ib\<rparr>) = blk v"
  "quiet (v\<lparr>icaddr := a\<rparr>) = quiet v" "on_disk (v\<lparr>icaddr := a\<rparr>) = on_disk v"
  "blk (v\<lparr>icaddr := a\<rparr>) = blk v" "vol_ok (v\<lparr>icaddr := a\<rparr>) = vol_ok v"
  "quiet (v\<lparr>icindex := k\<rparr>) = quiet v" "on_disk (v\<lparr>icindex := k\<rparr>) = on_disk v"
  "blk (v\<lparr>icindex := k\<rparr>) = blk v" "vol_ok (v\<lparr>icindex := k\<rparr>) = vol_ok v"
  by (auto simp: vol_ok_def quiet_def on_disk_def blk_def fun_eq_iff)

lemma hblock_irrelevant [simp]:
  "quiet (v\<lparr>hblock := h\<rparr>) = quiet v" "on_disk (v\<lparr>hblock := h\<rparr>) = on_disk v"
  "blk (v\<lparr>hblock := h\<rparr>) = blk v"
  by (auto simp: quiet_def on_disk_def blk_def fun_eq_iff)

lemma vol_ok_wf:
  "vol_ok v \<Longrightarrow> wf_hblock (hblock v)" "vol_ok v \<Longrightarrow> wf_iblock (icache v)"
  "vol_ok v \<Longrightarrow> wf_dblock (dcache v)" "vol_ok v \<Longrightarrow> length (xcache v) = 4096"
  by (simp_all add: vol_ok_def)

lemma length_blk [simp]: "\<lbrakk> vol_ok v; on_disk v a \<rbrakk> \<Longrightarrow> length (blk v a) = 4096"
  unfolding vol_ok_def on_disk_def blk_def using disk_ok_block by force

lemma vol_ok_upd [simp]:
  "vol_ok v \<Longrightarrow> wf_dblock b \<Longrightarrow> vol_ok (v\<lparr>dcache := b\<rparr>)"
  "vol_ok v \<Longrightarrow> length x = 4096 \<Longrightarrow> vol_ok (v\<lparr>xcache := x\<rparr>)"
  "vol_ok v \<Longrightarrow> wf_iblock ib \<Longrightarrow> vol_ok (v\<lparr>icache := ib\<rparr>)"
  "vol_ok v \<Longrightarrow> wf_hblock h \<Longrightarrow> vol_ok (v\<lparr>hblock := h\<rparr>)"
  by (simp_all add: vol_ok_def)

section \<open>Region tables\<close>

text \<open>
  A region table is a list of starts and a list of lengths; a start of 0 ends it.  It denotes the
  list of block addresses \<open>region_blocks\<close>; \<open>reg_find\<close> is the recursion both lookup loops of the
  code follow.
\<close>

type_synonym regions = "(u32 \<times> u8) list"

definition region_addrs :: "u32 \<times> u8 \<Rightarrow> u32 list" where
  "region_addrs = (\<lambda>(s, l). map (\<lambda>k. s + word_of_nat k) [0..<unat l])"

definition used_regions :: "regions \<Rightarrow> regions" where
  "used_regions = takeWhile (\<lambda>(s, l). s \<noteq> 0)"

definition region_blocks :: "regions \<Rightarrow> u32 list" where
  "region_blocks rs = concat (map region_addrs (used_regions rs))"

fun reg_find :: "regions \<Rightarrow> nat \<Rightarrow> u32 option" where
  "reg_find [] b = None"
| "reg_find ((s, l) # rs) b =
     (if s = 0 then None
      else if b < unat l then Some (s + word_of_nat b)
      else reg_find rs (b - unat l))"

definition iregions :: "fs2_hblock \<Rightarrow> regions" where
  "iregions h = take (unat (separator h)) (zip (h_reg_start h) (h_reg_len h))"

lemma reg_find_nth:
  "reg_find rs b = (if b < length (region_blocks rs) then Some (region_blocks rs ! b) else None)"
proof (induction rs b rule: reg_find.induct)
  case (1 b)
  then show ?case by (simp add: region_blocks_def used_regions_def)
next
  case (2 s l rs b)
  show ?case
  proof (cases "s = 0 \<or> b < unat l")
    case True
    then show ?thesis
      by (auto simp: region_blocks_def used_regions_def region_addrs_def nth_append)
  next
    case False
    with 2 have "reg_find rs (b - unat l) = (if b - unat l < length (region_blocks rs)
        then Some (region_blocks rs ! (b - unat l)) else None)" by simp
    moreover have "region_blocks ((s, l) # rs) = region_addrs (s, l) @ region_blocks rs"
      using False by (simp add: region_blocks_def used_regions_def)
    moreover have "length (region_addrs (s, l)) = unat l" by (simp add: region_addrs_def)
    ultimately show ?thesis using False by (simp add: nth_append less_diff_conv2)
  qed
qed

lemma reg_find_drop:
  assumes "i < length rs" "rs ! i = (s, l)"
  shows "reg_find (drop i rs) b =
    (if s = 0 then None else if b < unat l then Some (s + word_of_nat b)
     else reg_find (drop (Suc i) rs) (b - unat l))"
  using assms by (simp add: Cons_nth_drop_Suc [symmetric])

lemma used_regions_drop:
  assumes "i < length rs" "rs ! i = (s, l)"
  shows "used_regions (drop i rs) = (if s = 0 then [] else (s, l) # used_regions (drop (Suc i) rs))"
  using assms by (simp add: used_regions_def Cons_nth_drop_Suc [symmetric])

lemma length_iregions [simp]:
  "wf_hblock h \<Longrightarrow> length (iregions h) = min (unat (separator h)) 800"
  by (simp add: iregions_def wf_hblock_def)

lemma nth_iregions:
  "\<lbrakk> wf_hblock h; i < unat (separator h); i < 800 \<rbrakk> \<Longrightarrow>
   iregions h ! i = (h_reg_start h ! i, h_reg_len h ! i)"
  by (simp add: iregions_def wf_hblock_def)

lemma region_word_arith:
  assumes "N + 255 < 2 ^ 32" "N \<le> unat (b :: u32)"
  shows "(b < word_of_nat N + ucast (l :: u8)) = (unat b - N < unat l)"
    and "word_of_nat N + ucast l = (word_of_nat (N + unat l) :: u32)"
    and "s + b - word_of_nat N = (s + word_of_nat (unat b - N) :: u32)"
proof -
  have l: "unat l < 256" by (rule unat_u8_less)
  show sum: "word_of_nat N + ucast l = (word_of_nat (N + unat l) :: u32)"
    by simp
  have "unat (word_of_nat (N + unat l) :: u32) = N + unat l"
    unfolding unat_of_nat using assms l by simp
  then show "(b < word_of_nat N + ucast l) = (unat b - N < unat l)"
    unfolding sum word_less_nat_alt using assms by (simp, linarith)
  show "s + b - word_of_nat N = (s + word_of_nat (unat b - N) :: u32)"
    using assms by (simp add: of_nat_diff)
qed

lemma find_iregion_drop:
  assumes "wf_hblock h" "unat (separator h) \<le> 800" "i \<le> unat (separator h)"
    and "N \<le> unat ib" "N \<le> 255 * i" "n = word_of_nat N"
  shows "find_iregion h ib i n =
    Some (case reg_find (drop i (iregions h)) (unat ib - N) of
            Some a \<Rightarrow> Inl a
          | None \<Rightarrow> Inr (i + length (used_regions (drop i (iregions h)))))"
  using assms
proof (induction h ib i n arbitrary: N rule: find_iregion.induct)
  case (1 h ib i n)
  note wf = 1(2) and sep = 1(3) and i = 1(4) and N = 1(5,6) and n = 1(7)
  show ?case
  proof (cases "i < unat (separator h)")
    case False
    then have "drop i (iregions h) = []" using wf sep i by simp
    with False show ?thesis
      by (subst find_iregion.simps) (simp add: used_regions_def)
  next
    case True
    then have i': "i < length (iregions h)" "\<not> 800 \<le> i" using wf sep by auto
    have nth: "iregions h ! i = (h_reg_start h ! i, h_reg_len h ! i)"
      using True i' wf by (intro nth_iregions) auto
    note find = reg_find_drop [OF i'(1) nth] and regs = used_regions_drop [OF i'(1) nth]
    have "N + 255 < 2 ^ 32" using N sep True by simp
    note arith = region_word_arith(1,2) [OF this N(1), where l = "h_reg_len h ! i"]
      region_word_arith(3) [OF this N(1)]
    show ?thesis
    proof (cases "h_reg_start h ! i = 0")
      case s0: True
      have "find_iregion h ib i n = Some (Inr i)"
        using True i' s0 by (subst find_iregion.simps) simp
      then show ?thesis using find regs s0 by simp
    next
      case s0: False
      show ?thesis
      proof (cases "unat ib - N < unat (h_reg_len h ! i)")
        case lt: True
        have "find_iregion h ib i n = Some (Inl (h_reg_start h ! i + ib - word_of_nat N))"
          using True i' s0 lt arith(1) by (subst find_iregion.simps) (simp add: n Let_def)
        then show ?thesis using find s0 lt arith(3) by simp
      next
        case ge: False
        let ?N = "N + unat (h_reg_len h ! i)"
        let ?b = "n + ucast (h_reg_len h ! i)"
        have step: "find_iregion h ib i n = find_iregion h ib (Suc i) ?b"
          using True i' s0 ge arith(1) by (subst find_iregion.simps) (simp add: n Let_def)
        have "\<not> ib < ?b" using ge arith(1) n by simp
        moreover have "?b = word_of_nat ?N" using arith(2) n by simp
        moreover have "?N \<le> unat ib" using ge N by simp
        moreover have "?N \<le> 255 * Suc i" using N unat_u8_less [of "h_reg_len h ! i"] by simp
        ultimately have "find_iregion h ib (Suc i) ?b =
          Some (case reg_find (drop (Suc i) (iregions h)) (unat ib - ?N) of
              Some a \<Rightarrow> Inl a
            | None \<Rightarrow> Inr (Suc i + length (used_regions (drop (Suc i) (iregions h)))))"
          using True i' s0 wf sep by (intro 1(1)) simp_all
        then show ?thesis
          using step find regs s0 ge by (simp add: diff_diff_left split: option.split)
      qed
    qed
  qed
qed

text \<open>
  What the loop of \<open>fs2_get_iblock\<close> computes: the address of the \<open>ibindex\<close>th block of the iregions,
  or, past their end, the first free entry of the table.
\<close>

lemma find_iregion_eq:
  assumes "wf_hblock h" "unat (separator h) \<le> 800"
  shows "find_iregion h ib 0 0 =
    Some (if unat ib < length (region_blocks (iregions h))
          then Inl (region_blocks (iregions h) ! unat ib)
          else Inr (length (used_regions (iregions h))))"
  using find_iregion_drop [of h 0 0 ib 0] assms by (simp add: reg_find_nth)

lemma find_blk_loop_drop:
  assumes "nreg = length starts" "length lens = length starts" "i \<le> nreg" "0 \<le> n" "n \<le> b"
  shows "find_blk_loop starts lens nreg b i n =
    (case reg_find (drop i (zip starts lens)) (nat (b - n)) of Some a \<Rightarrow> a | None \<Rightarrow> 0)"
  using assms
proof (induction starts lens nreg b i n rule: find_blk_loop.induct)
  case (1 starts lens nreg b i n)
  note len = 1(2,3) and i = 1(4) and n = 1(5,6)
  show ?case
  proof (cases "i < nreg")
    case False
    then show ?thesis by (subst find_blk_loop.simps) (use len i in simp)
  next
    case True
    then have i': "i < length (zip starts lens)" using len by simp
    have nth: "zip starts lens ! i = (starts ! i, lens ! i)" using True len by simp
    note find = reg_find_drop [OF i' nth, of "nat (b - n)"]
    have l: "nat (b - n) < unat (lens ! i) \<longleftrightarrow> b < n + uint (lens ! i)"
      using n by (simp add: nat_less_iff) linarith
    have IH: "\<not> b < n + uint (lens ! i) \<Longrightarrow> starts ! i \<noteq> 0 \<Longrightarrow>
      find_blk_loop starts lens nreg b (Suc i) (n + uint (lens ! i)) =
      (case reg_find (drop (Suc i) (zip starts lens)) (nat (b - (n + uint (lens ! i)))) of
         Some a \<Rightarrow> a | None \<Rightarrow> 0)"
      using True len n by (intro 1(1)) auto
    have d: "nat (b - n) - unat (lens ! i) = nat (b - (n + uint (lens ! i)))"
    proof -
      have u: "unat (lens ! i) = nat (uint (lens ! i))" by simp
      show ?thesis unfolding u using uint_ge_0 [of "lens ! i"] n by linarith
    qed
    have a: "starts ! i + word_of_int b - word_of_int n = starts ! i + word_of_nat (nat (b - n))"
    proof -
      have "word_of_nat (nat (b - n)) = (word_of_int b - word_of_int n :: u32)" using n by simp
      then show ?thesis by (simp only: add_diff_eq)
    qed
    show ?thesis
      using True find l IH d a
      by (simp add: find_blk_loop.simps [of starts lens nreg b i n] Let_def)
  qed
qed

lemma find_blk_eq:
  assumes "length starts = 23" "length lens = 23" "0 \<le> b"
  shows "find_blk starts lens 23 b =
    (let bs = region_blocks (zip starts lens) in if nat b < length bs then bs ! nat b else 0)"
  using find_blk_loop_drop [of 23 starts lens 0 0 b] assms
  by (simp add: find_blk_def reg_find_nth Let_def)

section \<open>Allocation of regions\<close>

lemma free_region_scan_eq: "free_region_scan h i = (if i < 800 then None else Some ())"
proof (induction h i rule: free_region_scan.induct)
  case (1 h i)
  then show ?case by (subst free_region_scan.simps) simp
qed

text \<open>The allocator hands out the blocks after \<open>next_block\<close>, or fails without touching the table.\<close>

lemma fs2_find_free_region_eq:
  assumes "800 \<le> unat (separator (hblock v))"
  shows "fs2_find_free_region v rsz False =
    (let h = hblock v; nnb = next_block h + ucast rsz
     in if nblocks h < nnb then Some (0, v\<lparr>outcome := FS2_DISK_FULL\<rparr>)
        else Some (next_block h, v\<lparr>hblock := h\<lparr>next_block := nnb\<rparr>, outcome := FS2_SUCCESS\<rparr>))"
  using assms by (simp add: fs2_find_free_region_def free_region_scan_eq Let_def uint_less_iff_unat)

lemma fs2_find_free_region_diverges:
  "unat (separator (hblock v)) < 800 \<Longrightarrow> fs2_find_free_region v rsz save = None"
  by (simp add: fs2_find_free_region_def free_region_scan_eq uint_less_iff_unat)

text \<open>The blocks below \<open>next_block\<close> are those given out so far.\<close>

definition alloc_ok :: "fs2_hblock \<Rightarrow> bool" where
  "alloc_ok h \<longleftrightarrow> unat (separator h) = 800 \<and> 0 < next_block h \<and> next_block h \<le> nblocks h
     \<and> unat (nblocks h) < 2 ^ 32 - 256"

lemma next_block_plus:
  assumes "alloc_ok h"
  shows "unat (next_block h + ucast (rsz :: u8)) = unat (next_block h) + unat rsz"
proof -
  have "unat (next_block h) \<le> unat (nblocks h)"
    using assms by (simp add: alloc_ok_def word_le_nat_alt)
  then have "unat (next_block h) + unat (ucast rsz :: u32) < 2 ^ 32"
    using assms unat_u8_less [of rsz] by (simp add: alloc_ok_def)
  then show ?thesis by (simp add: unat_add_no_wrap)
qed

lemma find_free_region_spec:
  assumes h: "alloc_ok (hblock v)"
  obtains (full) "fs2_find_free_region v rsz False = Some (0, v\<lparr>outcome := FS2_DISK_FULL\<rparr>)"
      "unat (nblocks (hblock v)) < unat (next_block (hblock v)) + unat rsz"
  | (given) h' where "fs2_find_free_region v rsz False
        = Some (next_block (hblock v), v\<lparr>hblock := h', outcome := FS2_SUCCESS\<rparr>)"
      "h' = (hblock v)\<lparr>next_block := next_block (hblock v) + ucast rsz\<rparr>" "alloc_ok h'"
      "unat (next_block h') = unat (next_block (hblock v)) + unat rsz"
      "unat (next_block (hblock v)) + unat rsz \<le> unat (nblocks (hblock v))"
proof (cases "nblocks (hblock v) < next_block (hblock v) + ucast rsz")
  case True
  then have "unat (nblocks (hblock v)) < unat (next_block (hblock v)) + unat rsz"
    using next_block_plus [OF h, of rsz] by (simp add: word_less_nat_alt)
  with True full show ?thesis
    using h by (simp add: fs2_find_free_region_eq alloc_ok_def Let_def)
next
  case False
  let ?h = "(hblock v)\<lparr>next_block := next_block (hblock v) + ucast rsz\<rparr>"
  have nb: "unat (next_block ?h) = unat (next_block (hblock v)) + unat rsz"
    using next_block_plus [OF h] by simp
  have le: "unat (next_block (hblock v)) + unat rsz \<le> unat (nblocks (hblock v))"
    using False next_block_plus [OF h, of rsz] by (simp add: word_less_nat_alt)
  have pos: "0 < unat (next_block (hblock v))"
    using h by (simp add: alloc_ok_def word_less_nat_alt)
  have "alloc_ok ?h"
    using h nb le pos by (simp add: alloc_ok_def word_less_nat_alt word_le_nat_alt)
  then show ?thesis
    using given [of ?h] False nb le h
    by (simp add: fs2_find_free_region_eq alloc_ok_def Let_def)
qed

section \<open>The contract of a block cache\<close>

text \<open>
  The volume keeps one directory block and one general purpose block.  For either, \<open>load\<close> brings a
  block into the cache (or only retargets it, when \<open>dry\<close>) and \<open>save\<close> writes it back.  A client
  relies on the laws below; what it gains is coherence: after a load, and after any change followed
  by a save, the cache is the decoded block on disk.
\<close>

locale block_cache =
  fixes addr :: "fs2_volume \<Rightarrow> u32"
    and content :: "fs2_volume \<Rightarrow> 'b"
    and change :: "'b \<Rightarrow> fs2_volume \<Rightarrow> fs2_volume"
    and dec :: "byte list \<Rightarrow> 'b"
    and enc :: "'b \<Rightarrow> byte list"
    and good :: "'b \<Rightarrow> bool"
    and load :: "fs2_volume \<Rightarrow> u32 \<Rightarrow> bool \<Rightarrow> fs2_volume option"
    and save :: "fs2_volume \<Rightarrow> fs2_volume option"
  assumes content_change: "content (change b v) = b"
    and change_frame: "addr (change b v) = addr v" "blk (change b v) = blk v"
      "on_disk (change b v) = on_disk v" "quiet (change b v) = quiet v"
      "vol_ok v \<Longrightarrow> good b \<Longrightarrow> vol_ok (change b v)"
    and good_content: "vol_ok v \<Longrightarrow> good (content v)"
    and enc_dec: "good b \<Longrightarrow> dec (enc b) = b" "good b \<Longrightarrow> length (enc b) = 4096"
    and load_hit: "load v (addr v) dry = Some (v\<lparr>outcome := FS2_SUCCESS\<rparr>)"
    and load_miss: "\<lbrakk> vol_ok v; quiet v; on_disk v a; a \<noteq> addr v \<rbrakk> \<Longrightarrow>
      \<exists>v'. load v a False = Some v' \<and> addr v' = a \<and> content v' = dec (blk v a)
        \<and> blk v' = blk v \<and> on_disk v' = on_disk v \<and> quiet v' \<and> vol_ok v'
        \<and> outcome v' = FS2_SUCCESS"
    and load_dry: "\<exists>v'. load v a True = Some v' \<and> addr v' = a \<and> content v' = content v
        \<and> blk v' = blk v \<and> on_disk v' = on_disk v \<and> quiet v' = quiet v
        \<and> (vol_ok v \<longrightarrow> vol_ok v') \<and> outcome v' = FS2_SUCCESS"
    and addr_outcome: "addr (v\<lparr>outcome := oc\<rparr>) = addr v" "content (v\<lparr>outcome := oc\<rparr>) = content v"
    and save_writes: "\<lbrakk> vol_ok v; quiet v; on_disk v (addr v) \<rbrakk> \<Longrightarrow>
      save v = Some ((put_blk (addr v) (enc (content v)) v)\<lparr>outcome := FS2_SUCCESS\<rparr>)"
    and addr_put: "addr (put_blk a x v) = addr v" "content (put_blk a x v) = content v"
begin

definition coherent :: "fs2_volume \<Rightarrow> bool" where
  "coherent v \<longleftrightarrow> (on_disk v (addr v) \<longrightarrow> content v = dec (blk v (addr v)))"

lemma load_coherent:
  assumes "vol_ok v" "quiet v" "on_disk v a" "coherent v"
  obtains v' where "load v a False = Some v'" "addr v' = a" "content v' = dec (blk v a)"
    "coherent v'" "blk v' = blk v" "on_disk v' = on_disk v" "quiet v'" "vol_ok v'"
    "outcome v' = FS2_SUCCESS"
proof (cases "a = addr v")
  case True
  let ?v = "v\<lparr>outcome := FS2_SUCCESS\<rparr>"
  have "load v a False = Some ?v" using load_hit True by simp
  moreover have "coherent ?v" using assms(4) by (simp add: coherent_def addr_outcome)
  moreover have "content ?v = dec (blk v a)"
    using assms(3,4) True by (simp add: coherent_def addr_outcome)
  ultimately show ?thesis using that [of ?v] assms True by (simp add: addr_outcome)
next
  case False
  with load_miss [OF assms(1-3)] obtain v' where "load v a False = Some v'" "addr v' = a"
    "content v' = dec (blk v a)" "blk v' = blk v" "on_disk v' = on_disk v" "quiet v'" "vol_ok v'"
    "outcome v' = FS2_SUCCESS" by blast
  with that show ?thesis by (simp add: coherent_def)
qed

lemma change_save_coherent:
  assumes "vol_ok v" "quiet v" "on_disk v (addr v)" "good b"
  obtains v' where "save (change b v) = Some v'" "addr v' = addr v" "content v' = b" "coherent v'"
    "\<And>a. on_disk v a \<Longrightarrow> blk v' a = (if a = addr v then enc b else blk v a)"
    "on_disk v' = on_disk v" "quiet v'" "vol_ok v'" "outcome v' = FS2_SUCCESS"
proof -
  let ?v = "(put_blk (addr v) (enc b) (change b v))\<lparr>outcome := FS2_SUCCESS\<rparr>"
  have "save (change b v) = Some ?v"
    using save_writes [of "change b v"] assms by (simp add: change_frame content_change)
  moreover have "coherent ?v"
    using assms by (simp add: coherent_def addr_outcome addr_put change_frame content_change
        blk_put_blk enc_dec)
  moreover have "blk ?v a = (if a = addr v then enc b else blk v a)" if "on_disk v a" for a
    using that by (simp add: blk_put_blk change_frame)
  moreover have "on_disk ?v = on_disk v" by (auto simp: fun_eq_iff change_frame)
  ultimately show ?thesis
    using that [of ?v] assms
    by (simp add: addr_outcome addr_put content_change change_frame enc_dec)
qed

text \<open>Writing another block of the volume keeps the cache coherent; writing the cached block behind
  its back does not, unless the same bytes are written.\<close>

lemma coherent_put_other:
  assumes "coherent v" "a \<noteq> addr v"
  shows "coherent (put_blk a x v)"
  using assms by (auto simp: coherent_def addr_put blk_put_blk)

lemma incoherent_put_same:
  assumes "on_disk v (addr v)" "dec x \<noteq> content v"
  shows "\<not> coherent (put_blk (addr v) x v)"
  using assms by (auto simp: coherent_def addr_put blk_put_blk)

end

interpretation dblk: block_cache dcaddr dcache "\<lambda>b v. v\<lparr>dcache := b\<rparr>" dblock_of_bytes dblock_bytes
  wf_dblock fs2_load_dblock_c fs2_save_dblock_c
  by unfold_locales
     (auto simp: fs2_load_dblock_c_def fs2_save_dblock_c_def set_outcome_def fs2_rblk_ok fs2_wblk_ok
       layout_simps vol_ok_wf)

interpretation gp: block_cache xcaddr xcache "\<lambda>b v. v\<lparr>xcache := b\<rparr>" "\<lambda>b. b" "\<lambda>b. b"
  "\<lambda>b. length b = 4096" fs2_load_gp_c fs2_save_gp_c
  by unfold_locales
     (auto simp: fs2_load_gp_c_def fs2_save_gp_c_def set_outcome_def fs2_rblk_ok fs2_wblk_ok
       vol_ok_wf)

section \<open>The inode cache\<close>

text \<open>The inode cache is also tagged with the index of the iblock it holds.\<close>

definition iblocks :: "fs2_volume \<Rightarrow> u32 list" where
  "iblocks v = region_blocks (iregions (hblock v))"

definition ic_coherent :: "fs2_volume \<Rightarrow> bool" where
  "ic_coherent v \<longleftrightarrow> (unat (icindex v) < length (iblocks v) \<longrightarrow>
     icaddr v = iblocks v ! unat (icindex v) \<and> icache v = iblock_of_bytes (blk v (icaddr v)))"

lemma fs2_get_iblock_c_ok:
  assumes v: "vol_ok v" "quiet v" "unat (separator (hblock v)) \<le> 800" "ic_coherent v"
    and k: "unat k < length (iblocks v)" "on_disk v (iblocks v ! unat k)"
  shows "fs2_get_iblock_c v k save_h False = Some (v\<lparr>icindex := k, icaddr := iblocks v ! unat k,
     icache := iblock_of_bytes (blk v (iblocks v ! unat k)), outcome := FS2_SUCCESS\<rparr>)"
proof (cases "k = icindex v")
  case True
  with v(4) k(1) have "icaddr v = iblocks v ! unat k"
    "icache v = iblock_of_bytes (blk v (iblocks v ! unat k))"
    by (simp_all add: ic_coherent_def)
  then have "v = v\<lparr>icindex := k, icaddr := iblocks v ! unat k,
     icache := iblock_of_bytes (blk v (iblocks v ! unat k))\<rparr>"
    using True by simp
  then show ?thesis using True by (simp add: fs2_get_iblock_c_def)
next
  case False
  have "find_iregion (hblock v) k 0 0 = Some (Inl (iblocks v ! unat k))"
    using find_iregion_eq [OF vol_ok_wf(1) [OF v(1)] v(3), of k] k(1) by (simp add: iblocks_def)
  then show ?thesis
    using False v k by (simp add: fs2_get_iblock_c_def fs2_get_iblock_def fs2_rblk_ok set_outcome_def)
qed

section \<open>The volume at power-on\<close>

text \<open>
  The global \<open>vol\<close> before anything has been loaded (the C runtime clears it), with an unformatted
  disk of 100 blocks at the other end.
\<close>

definition zero_block :: "byte list" where
  "zero_block = replicate 4096 0"

definition boot_vol :: fs2_volume where
  "boot_vol = \<lparr>blk_0 = 0, outcome = FS2_SUCCESS, hblock = hblock_of_bytes zero_block,
     icindex = 0, icaddr = 0, icache = iblock_of_bytes zero_block,
     dcaddr = 0, dcache = dblock_of_bytes zero_block, xcaddr = 0, xcache = zero_block,
     disk = \<lparr>rx = [], peer = \<lparr>block_num = 100, block_len = 4096, disk_img = replicate 100 zero_block,
       shorts = [], dead = False, line = []\<rparr>\<rparr>\<rparr>"

lemma length_zero_block [simp]: "length zero_block = 4096"
  by (simp add: zero_block_def)

lemma boot_vol_ok: "vol_ok boot_vol" "quiet boot_vol"
  by (simp_all add: vol_ok_def quiet_def boot_vol_def disk_ok_def ready_def layout_simps)

lemma boot_vol_blocks: "on_disk boot_vol a \<longleftrightarrow> unat a < 100" "on_disk boot_vol a \<Longrightarrow> blk boot_vol a = zero_block"
  by (simp_all add: on_disk_def blk_def blocks_def boot_vol_def)

lemma boot_vol_sel:
  "blk_0 boot_vol = 0" "outcome boot_vol = FS2_SUCCESS" "hblock boot_vol = hblock_of_bytes zero_block"
  "icindex boot_vol = 0" "icaddr boot_vol = 0" "icache boot_vol = iblock_of_bytes zero_block"
  "dcaddr boot_vol = 0" "dcache boot_vol = dblock_of_bytes zero_block" "xcaddr boot_vol = 0"
  "xcache boot_vol = zero_block"
  by (simp_all add: boot_vol_def)

text \<open>The structures a block of zeros decodes to.\<close>

definition zero_inode :: fs2_inode where
  "zero_inode = \<lparr>ftype = 0, fperm = 0, i_unused = replicate 3 0, reg_len = replicate 23 0, eof = 0,
     iparent = 0, reg_start = replicate 23 0\<rparr>"

definition zero_entry :: fs2_dir_entry where
  "zero_entry = \<lparr>inode_index = 0, name = replicate 28 0\<rparr>"

lemma of_le32_zeros [simp]: "of_le32 (replicate 4 0) = 0"
  by (simp add: of_le32_def numeral_eq_Suc)

lemma of_le32s_zeros: "of_le32s n (replicate (4 * n) 0) = replicate n 0"
  by (induction n) (simp_all add: replicate_add)

lemma array_of_zeros: "array_of_bytes w dec n (replicate (w * n) 0) = replicate n (dec (replicate w 0))"
  by (induction n) (simp_all add: min_def)

lemma zero_decoded:
  "iblock_of_bytes zero_block = replicate 32 zero_inode"
  "dblock_of_bytes zero_block = replicate 128 zero_entry"
  "hblock_of_bytes zero_block = \<lparr>ident = replicate 8 0, default_perm = 0, default_ireg_len = 0,
     default_freg_len = 0, default_dreg_len = 0, nblocks = 0, next_inode = 0, next_block = 0,
     h_unused = replicate 70 0, separator = 0, h_reg_start = replicate 800 0,
     h_reg_len = replicate 800 0\<rparr>"
proof -
  have i: "inode_of_bytes (replicate 128 0) = zero_inode"
    using of_le32s_zeros [of 23] by (simp add: inode_of_bytes_def zero_inode_def)
  have e: "entry_of_bytes (replicate 32 0) = zero_entry"
    by (simp add: entry_of_bytes_def zero_entry_def)
  show "iblock_of_bytes zero_block = replicate 32 zero_inode"
    using array_of_zeros [of 128 inode_of_bytes 32] i by (simp add: iblock_of_bytes_def zero_block_def)
  show "dblock_of_bytes zero_block = replicate 128 zero_entry"
    using array_of_zeros [of 32 entry_of_bytes 128] e by (simp add: dblock_of_bytes_def zero_block_def)
  have s: "of_le16 (replicate 2 0) = 0" by (simp add: of_le16_def numeral_2_eq_2)
  show "hblock_of_bytes zero_block = \<lparr>ident = replicate 8 0, default_perm = 0, default_ireg_len = 0,
     default_freg_len = 0, default_dreg_len = 0, nblocks = 0, next_inode = 0, next_block = 0,
     h_unused = replicate 70 0, separator = 0, h_reg_start = replicate 800 0,
     h_reg_len = replicate 800 0\<rparr>"
    using of_le32s_zeros [of 800] by (simp add: hblock_of_bytes_def zero_block_def s)
qed

end
