(* ===== verification/Fs2_Dir.thy ===== *)
theory Fs2_Dir
  imports Fs2_Regions
begin

text \<open>
  Directories, path lookup, and the creation of files and volumes (\<^verbatim>\<open>kernel/fs2.c\<close>, from
  \<open>fs2_find_in_dir_r\<close> to \<open>fs2_format_volume\<close>, and \<open>fs2_create\<close>).  A pointer to an inode of the
  cached iblock is its index in the cache.  The two locals of \<open>fs2_add_dir_entry\<close> that the C code
  leaves uninitialised are arguments \<open>n0\<close>, \<open>i0\<close>: whatever the stack held.
\<close>

definition upd_inode :: "nat \<Rightarrow> (fs2_inode \<Rightarrow> fs2_inode) \<Rightarrow> fs2_volume \<Rightarrow> fs2_volume" where
  "upd_inode x f v = v\<lparr>icache := (icache v)[x := f (icache v ! x)]\<rparr>"

definition upd_entry :: "nat \<Rightarrow> (fs2_dir_entry \<Rightarrow> fs2_dir_entry) \<Rightarrow> fs2_volume \<Rightarrow> fs2_volume" where
  "upd_entry x f v = v\<lparr>dcache := (dcache v)[x := f (dcache v ! x)]\<rparr>"

section \<open>Lookup\<close>

text \<open>
  The body of the \<open>(k % 128) == 0\<close> branch of \<open>fs2_find_in_dir_r\<close>: load the next dblock and step
  to the block after it.  \<open>Inl\<close> is an early return.
\<close>

definition find_next_dblock ::
    "fs2_volume \<Rightarrow> fs2_inode \<Rightarrow> nat \<Rightarrow> u32 \<Rightarrow> (fs2_volume + nat \<times> u32 \<times> fs2_volume) option" where
  "find_next_dblock vol dinode i j =
     (if 23 \<le> i then None
      else do {
        vol1 \<leftarrow> fs2_load_dblock_c vol (reg_start dinode ! i + j) False;
        if outcome vol1 \<noteq> FS2_SUCCESS then Some (Inl vol1)
        else
          let (i', j') = (if j + 1 = ucast (reg_len dinode ! i) then (i + 1, 0) else (i, j + 1))
          in if i' = 23 \<or> reg_start dinode ! i' = 0
             then Some (Inl (vol1\<lparr>outcome := FS2_NO_FILE\<rparr>))
             else Some (Inr (i', j', vol1))
      })"

function find_in_dir_loop ::
    "fs2_volume \<Rightarrow> fs2_inode \<Rightarrow> byte list \<Rightarrow> nat \<Rightarrow> u32 \<Rightarrow> nat \<Rightarrow> u32 \<Rightarrow> (u32 \<times> fs2_volume) option" where
  "find_in_dir_loop vol dinode nm nchars k i j =
     (if k < eof dinode then do {
        r \<leftarrow> (if k mod 128 = 0 then find_next_dblock vol dinode i j else Some (Inr (i, j, vol)));
        case r of
          Inl vol1 \<Rightarrow> Some (-1, vol1)
        | Inr (i1, j1, vol1) \<Rightarrow>
            let e = dcache vol1 ! unat (k mod 128)
            in if strncmp_eq nchars (name e) nm
               then Some (inode_index e, vol1\<lparr>outcome := FS2_SUCCESS\<rparr>)
               else find_in_dir_loop vol1 dinode nm nchars (k + 1) i1 j1
      }
      else Some (-1, vol\<lparr>outcome := FS2_NO_FILE\<rparr>))"
  by pat_completeness auto
termination
  by (relation "measure (\<lambda>(vol, dinode, nm, nchars, k, i, j). unat (eof dinode) - unat k)")
     (auto simp: unat_plus_one_less word_less_nat_alt)

declare find_in_dir_loop.simps [simp del]

definition fs2_find_in_dir_r ::
    "fs2_volume \<Rightarrow> u32 \<Rightarrow> byte list \<Rightarrow> nat \<Rightarrow> (u32 \<times> fs2_volume) option" where
  "fs2_find_in_dir_r vol diindex nm nchars = do {
     vol1 \<leftarrow> fs2_get_iblock_c vol (diindex div 32) False False;
     if outcome vol1 \<noteq> FS2_SUCCESS then Some (-1, vol1)
     else
       let dinode = icache vol1 ! unat (diindex mod 32)
       in if ftype dinode \<noteq> FS2_FTYPE_DIR then Some (-1, vol1\<lparr>outcome := FS2_BAD_FTYPE\<rparr>)
          else find_in_dir_loop vol1 dinode nm nchars 0 0 0
   }"

text \<open>
  \<open>cursor\<close> is the rest of the path; the result carries the inode found (or -1) and the parent, which
  is what \<open>*putparent\<close> is set to when it is set.
\<close>

definition slash :: byte where "slash = 0x2F"

function find_file_loop ::
    "fs2_volume \<Rightarrow> u32 \<Rightarrow> byte list \<Rightarrow> (u32 \<times> u32 option \<times> fs2_volume) option" where
  "find_file_loop vol parent cursor =
     (let i = length (takeWhile (\<lambda>c. c \<noteq> slash) cursor);
          rest = dropWhile (\<lambda>c. c \<noteq> slash) cursor
      in if i > 28 then Some (-1, None, vol\<lparr>outcome := FS2_INVALID_PATH\<rparr>)
         else do {
           (child, vol1) \<leftarrow> fs2_find_in_dir_r vol parent (cstr cursor) i;
           if child = -1 then Some (-1, None, vol1)
           else if rest = [] then Some (child, Some parent, vol1\<lparr>outcome := FS2_SUCCESS\<rparr>)
           else find_file_loop vol1 child (dropWhile (\<lambda>c. c = slash) rest)
         })"
  by pat_completeness auto
termination
proof (relation "measure (\<lambda>(vol, parent, cursor). length cursor)", goal_cases)
  case 1
  then show ?case by simp
next
  case (2 vol parent cursor)
  let ?rest = "dropWhile (\<lambda>c. c \<noteq> slash) cursor"
  have "?rest \<noteq> [] \<Longrightarrow> length (dropWhile (\<lambda>c. c = slash) ?rest) < length cursor"
  proof -
    assume ne: "?rest \<noteq> []"
    then obtain r rs where r: "?rest = r # rs" "r = slash"
      using hd_dropWhile [of "\<lambda>c. c \<noteq> slash" cursor] by (cases ?rest) auto
    have "length ?rest \<le> length cursor" by (rule length_dropWhile_le)
    moreover have "length (dropWhile (\<lambda>c. c = slash) rs) \<le> length rs" by (rule length_dropWhile_le)
    ultimately show ?thesis using r by simp
  qed
  with 2 show ?case by simp
qed

declare find_file_loop.simps [simp del]

definition fs2_find_file ::
    "fs2_volume \<Rightarrow> byte list \<Rightarrow> (u32 \<times> u32 option \<times> fs2_volume) option" where
  "fs2_find_file vol path =
     (if path = [] then Some (0, None, vol\<lparr>outcome := FS2_SUCCESS\<rparr>)
      else do {
        vol1 \<leftarrow> fs2_get_iblock_c vol 0 False False;
        find_file_loop vol1 0 path
      })"

section \<open>Creation\<close>

definition fs2_init_inode :: "fs2_volume \<Rightarrow> nat \<Rightarrow> u8 \<Rightarrow> u8 \<Rightarrow> fs2_volume option" where
  "fs2_init_inode vol x ft perm = (
     let vol1 = upd_inode x (\<lambda>i. i\<lparr>ftype := ft, fperm := perm, eof := 0,
                                   reg_start := replicate 23 0\<rparr>) vol
     in if ft = FS2_FTYPE_DIR then do {
          (rst, vol2) \<leftarrow> fs2_find_free_region vol1 (default_dreg_len (hblock vol1)) False;
          if rst = 0 then Some (vol2\<lparr>outcome := FS2_DISK_FULL\<rparr>)
          else
            let len = default_dreg_len (hblock vol2);
                vol3 = upd_inode x (\<lambda>i. i\<lparr>reg_start := (reg_start i)[0 := rst],
                                          reg_len := (reg_len i)[0 := len]\<rparr>) vol2
            in Some (vol3\<lparr>outcome := FS2_SUCCESS\<rparr>)
        }
        else Some (vol1\<lparr>outcome := FS2_SUCCESS\<rparr>))"

text \<open>
  The loop of \<open>fs2_add_dir_entry\<close> over the regions of the directory: \<open>Inl\<close> the address of the
  dblock with room for the entry, \<open>Inr\<close> the index at which the loop ended.
\<close>

function find_entry_dblock :: "fs2_inode \<Rightarrow> u32 \<Rightarrow> u32 \<Rightarrow> u32 + u32" where
  "find_entry_dblock dinode n i =
     (if i < 23 \<and> reg_start dinode ! unat i \<noteq> 0 then
        let b = n + ucast (reg_len dinode ! unat i)
        in if eof dinode < b * 128
           then Inl (reg_start dinode ! unat i + eof dinode div 128 - n)
           else find_entry_dblock dinode b (i + 1)
      else Inr i)"
  by pat_completeness auto
termination
proof (relation "measure (\<lambda>(dinode, n, i). 23 - unat i)", goal_cases)
  case 1
  then show ?case by simp
next
  case (2 dinode n i b)
  then have "i < 23" by simp
  from unat_plus_one_less [OF this] this show ?case by (simp add: word_less_nat_alt)
qed

declare find_entry_dblock.simps [simp del]

definition fs2_add_dir_entry ::
    "fs2_volume \<Rightarrow> byte list \<Rightarrow> nat \<Rightarrow> u32 \<Rightarrow> u32 \<Rightarrow> u32 \<Rightarrow> fs2_volume option" where
  "fs2_add_dir_entry vol nm x ciindex n0 i0 = (
     let dinode = icache vol ! x
     in case find_entry_dblock dinode n0 i0 of
          Inl dbaddr \<Rightarrow> do {
            vol1 \<leftarrow> fs2_load_dblock_c vol dbaddr False;
            if outcome vol1 \<noteq> FS2_SUCCESS then Some vol1
            else do {
              let vol2 = upd_entry (unat (eof dinode mod 128))
                           (\<lambda>e. e\<lparr>name := strncpy 28 nm, inode_index := ciindex\<rparr>) vol1;
              vol3 \<leftarrow> fs2_save_dblock_c vol2;
              if outcome vol3 \<noteq> FS2_SUCCESS then Some vol3
              else Some (upd_inode x (\<lambda>i. i\<lparr>eof := eof i + 1\<rparr>) vol3)
            }
          }
        | Inr i \<Rightarrow>
            if i = 23 then Some (vol\<lparr>outcome := FS2_FILE_FULL\<rparr>)
            else if 23 < i then None
            else do {
              (daddr, vol1) \<leftarrow> fs2_find_free_region vol (default_dreg_len (hblock vol)) False;
              if daddr = 0 then Some vol1
              else do {
                let len = default_dreg_len (hblock vol1);
                let vol2 = upd_inode x (\<lambda>d. d\<lparr>reg_start := (reg_start d)[unat i := daddr],
                                             reg_len := (reg_len d)[unat i := len],
                                             eof := eof d + 1\<rparr>) vol1;
                vol3 \<leftarrow> fs2_load_dblock_c vol2 daddr True;
                let vol4 = upd_entry 0
                             (\<lambda>e. e\<lparr>name := strncpy 28 nm, inode_index := ciindex\<rparr>) vol3;
                fs2_save_dblock_c vol4
              }
            })"

text \<open>The two entries of a new directory; \<open>strcpy\<close> leaves the rest of the name field as it was.\<close>

definition dot_entries :: "u32 \<Rightarrow> u32 \<Rightarrow> fs2_dblock \<Rightarrow> fs2_dblock option" where
  "dot_entries self parent db = do {
     n0 \<leftarrow> strcpy_over (name (db ! 0)) (chars ''.'');
     n1 \<leftarrow> strcpy_over (name (db ! 1)) (chars ''..'');
     Some (db[0 := (db ! 0)\<lparr>inode_index := self, name := n0\<rparr>,
              1 := (db ! 1)\<lparr>inode_index := parent, name := n1\<rparr>])
   }"

definition fs2_create_file ::
    "fs2_volume \<Rightarrow> byte list \<Rightarrow> u32 \<Rightarrow> u8 \<Rightarrow> u32 \<Rightarrow> u32 \<Rightarrow> fs2_volume option" where
  "fs2_create_file vol nm parent ft n0 i0 = do {
     let iindex = next_inode (hblock vol);
     vol1 \<leftarrow> fs2_get_iblock_c vol (iindex div 32) True False;
     if outcome vol1 \<noteq> FS2_SUCCESS then Some vol1
     else do {
       let x = unat (iindex mod 32);
       vol2 \<leftarrow> fs2_init_inode vol1 x ft (default_perm (hblock vol1));
       let vol3 = upd_inode x (\<lambda>i. i\<lparr>iparent := parent\<rparr>) vol2;
       if outcome vol3 \<noteq> FS2_SUCCESS then Some vol3
       else do {
         vol4 \<leftarrow> (if ft = FS2_FTYPE_DIR then do {
                    let dbaddr = reg_start (icache vol3 ! x) ! 0;
                    v1 \<leftarrow> fs2_load_dblock_c vol3 dbaddr True;
                    db \<leftarrow> dot_entries iindex parent (dcache v1);
                    let v2 = upd_inode x (\<lambda>i. i\<lparr>eof := 2\<rparr>) (v1\<lparr>dcache := db\<rparr>);
                    fs2_save_dblock_c v2
                  }
                  else Some vol3);
         (linked, vol5) \<leftarrow> (if iindex \<noteq> 0 then do {
                    v1 \<leftarrow> fs2_get_iblock_c vol4 (parent div 32) False True;
                    if outcome v1 \<noteq> FS2_SUCCESS then Some (False, v1)
                    else do {
                      v2 \<leftarrow> fs2_add_dir_entry v1 nm (unat (parent mod 32)) iindex n0 i0;
                      Some (True, v2)
                    }
                  }
                  else Some (True, vol4));
         if \<not> linked then Some vol5
         else do {
           vol6 \<leftarrow> fs2_save_iblock_c vol5;
           let vol7 = vol6\<lparr>hblock := (hblock vol6)\<lparr>next_inode := next_inode (hblock vol6) + 1\<rparr>\<rparr>;
           fs2_save_hblock vol7
         }
       }
     }
   }"

definition fs2_format_volume ::
    "fs2_volume \<Rightarrow> u32 \<Rightarrow> u8 \<Rightarrow> u8 \<Rightarrow> u8 \<Rightarrow> u8 \<Rightarrow> u32 \<Rightarrow> u32 \<Rightarrow> fs2_volume option" where
  "fs2_format_volume vol nblks default_perms def_i_sz def_f_sz def_d_sz n0 i0 =
     (if nblks < 1 + ucast def_i_sz + ucast def_d_sz \<or> def_d_sz = 0 \<or> def_f_sz = 0 \<or> def_i_sz = 0
      then Some (vol\<lparr>outcome := FS2_BAD_FORMAT_ARGS\<rparr>)
      else
        let vol1 = vol\<lparr>hblock := (hblock vol)\<lparr>
              ident := strncpy 8 cwfs_ident,
              nblocks := nblks, next_block := 1, next_inode := 0,
              default_dreg_len := def_d_sz, default_freg_len := def_f_sz,
              default_ireg_len := def_i_sz, default_perm := default_perms,
              separator := 800, h_reg_start := replicate 800 0\<rparr>\<rparr>
        in fs2_create_file vol1 [] 0 FS2_FTYPE_DIR n0 i0)"

text \<open>
  \<open>fs2_create\<close> walks a copy of the path backwards.  \<open>split_back\<close> is the first loop (the index it
  stops at), \<open>strip_slashes\<close> the second, which also cuts the string there.
\<close>

fun split_back :: "byte list \<Rightarrow> nat \<Rightarrow> nat" where
  "split_back path 0 = 0"
| "split_back path (Suc s) = (if path ! Suc s \<noteq> slash then split_back path s else Suc s)"

fun strip_slashes :: "byte list \<Rightarrow> nat \<Rightarrow> nat" where
  "strip_slashes path 0 = 0"
| "strip_slashes path (Suc s) = (if path ! Suc s = slash then strip_slashes path s else Suc s)"

definition fs2_create ::
    "fs2_volume \<Rightarrow> u8 \<Rightarrow> byte list \<Rightarrow> u32 \<Rightarrow> u32 \<Rightarrow> (bool \<times> fs2_volume) option" where
  "fs2_create vol ft path n0 i0 = do {
     (p, _, vol1) \<leftarrow> fs2_find_file vol path;
     if outcome vol1 = FS2_SUCCESS then Some (False, vol1\<lparr>outcome := FS2_UNEXPECTED_FILE\<rparr>)
     else if outcome vol1 \<noteq> FS2_NO_FILE then Some (False, vol1)
     else if last path = slash then Some (False, vol1\<lparr>outcome := FS2_INVALID_PATH\<rparr>)
     else do {
       let split = split_back path (length path - 1);
       let new = (if split = 0 then path else drop (split + 1) path);
       let split' = strip_slashes path split;
       (found, p', vol2) \<leftarrow>
         (if split' = 0 then Some (True, 0, vol1)
          else do {
            (q, _, v) \<leftarrow> fs2_find_file vol1 (take (split' + 1) path);
            Some (outcome v = FS2_SUCCESS, q, v)
          });
       if \<not> found then Some (False, vol2)
       else do {
         vol3 \<leftarrow> fs2_create_file vol2 new p' ft n0 i0;
         Some (outcome vol3 = FS2_SUCCESS, vol3)
       }
     }
   }"

section \<open>Formatting\<close>

text \<open>The header block \<open>fs2_format_volume\<close> writes, after the root directory has been given its region.\<close>

definition fresh_hblock :: "fs2_hblock \<Rightarrow> u32 \<Rightarrow> u8 \<Rightarrow> u8 \<Rightarrow> u8 \<Rightarrow> u8 \<Rightarrow> fs2_hblock" where
  "fresh_hblock h nblks perms isz fsz dsz = h\<lparr>
     ident := cwfs_ident, nblocks := nblks, next_block := 1, next_inode := 0,
     default_dreg_len := dsz, default_freg_len := fsz, default_ireg_len := isz,
     default_perm := perms, separator := 800, h_reg_start := replicate 800 0\<rparr>"

lemma strncpy_exact: "length s = n \<Longrightarrow> strncpy n s = s"
  by (simp add: strncpy_def)

lemma length_cwfs_ident: "length cwfs_ident = 8"
  by (simp add: cwfs_ident_def)

text \<open>On the volume as it is at power-on: the index 0 of the inode cache counts as a hit.\<close>

definition root_inode :: "fs2_inode" where
  "root_inode = zero_inode\<lparr>ftype := FS2_FTYPE_DIR, fperm := FS2_U_READ OR FS2_U_WRITE, eof := 2,
     reg_start := (replicate 23 0)[0 := 1], reg_len := (replicate 23 0)[0 := 2]\<rparr>"

definition root_dblock :: "fs2_dblock" where
  "root_dblock = (replicate 128 zero_entry)
     [0 := zero_entry\<lparr>name := strncpy 28 (chars ''.'')\<rparr>, 1 := zero_entry\<lparr>name := strncpy 28 (chars ''..'')\<rparr>]"

definition boot_hblock :: fs2_hblock where
  "boot_hblock = (fresh_hblock (hblock_of_bytes zero_block) 100 (FS2_U_READ OR FS2_U_WRITE) 4 1 2)
     \<lparr>next_block := 3, next_inode := 1\<rparr>"

definition formatted_vol :: fs2_volume where
  "formatted_vol = (put_blk 0 (hblock_bytes boot_hblock) (put_blk 1 (dblock_bytes root_dblock) boot_vol))
     \<lparr>outcome := FS2_SUCCESS, hblock := boot_hblock, icache := (replicate 32 zero_inode)[0 := root_inode],
      dcaddr := 1, dcache := root_dblock\<rparr>"

lemma dot_entries_zero:
  "dot_entries 0 0 (replicate 128 zero_entry) = Some root_dblock"
  by (simp add: dot_entries_def strcpy_over_def root_dblock_def zero_entry_def strncpy_def chars_def cstr_def
      nth_list_update numeral_eq_Suc)

lemma wf_zero [simp]: "wf_inode zero_inode" "wf_entry zero_entry"
  by (simp_all add: wf_inode_def wf_entry_def zero_inode_def zero_entry_def)

lemma root_inode_eq:
  "zero_inode\<lparr>ftype := 0, fperm := FS2_U_READ OR FS2_U_WRITE, reg_start := (replicate 23 0)[0 := 1],
     reg_len := (reg_len zero_inode)[0 := 2], iparent := 0, eof := 2\<rparr> = root_inode"
  by (simp add: root_inode_def zero_inode_def FS2_FTYPE_DIR_def)

lemma wf_root [simp]: "wf_dblock root_dblock" "wf_iblock ((replicate 32 zero_inode)[0 := root_inode])"
proof -
  have "wf_inode root_inode" by (simp add: root_inode_def wf_inode_def zero_inode_def)
  then show "wf_iblock ((replicate 32 zero_inode)[0 := root_inode])"
    by (auto simp: wf_iblock_def dest!: set_update_subset_insert [THEN subsetD])
  have "wf_entry (zero_entry\<lparr>name := strncpy 28 s\<rparr>)" for s by (simp add: wf_entry_def)
  then show "wf_dblock root_dblock"
    by (auto simp: wf_dblock_def root_dblock_def dest!: set_update_subset_insert [THEN subsetD])
qed

lemma format_boot_vol:
  "fs2_format_volume (boot_vol\<lparr>outcome := oc\<rparr>) 100 (FS2_U_READ OR FS2_U_WRITE) 4 1 2 n0 i0
     = Some formatted_vol"
  unfolding fs2_format_volume_def
  by (simp add: Let_def strncpy_exact length_cwfs_ident,
      simp add: fs2_create_file_def fs2_get_iblock_c_def boot_vol_sel fs2_init_inode_def zero_decoded
        upd_inode_def fs2_find_free_region_eq FS2_FTYPE_DIR_def fs2_load_dblock_c_def
        dot_entries_zero root_inode_eq,
      simp add: fs2_save_dblock_c_def fs2_save_iblock_c_def fs2_save_hblock_def fs2_wblk_ok
        boot_vol_ok wf_hblock_def length_cwfs_ident boot_vol_blocks layout_simps set_outcome_def
        boot_vol_sel,
      simp add: formatted_vol_def boot_hblock_def fresh_hblock_def put_blk_def stored_def
        zero_decoded boot_vol_sel)

lemma formatted_vol_ok:
  "vol_ok formatted_vol" "quiet formatted_vol" "on_disk formatted_vol a \<longleftrightarrow> unat a < 100"
  "blk formatted_vol 0 = hblock_bytes boot_hblock" "hblock formatted_vol = boot_hblock"
  "icaddr formatted_vol = 0" "icache formatted_vol = (replicate 32 zero_inode)[0 := root_inode]"
  "outcome formatted_vol = FS2_SUCCESS" "icindex formatted_vol = 0"
proof -
  have h: "wf_hblock boot_hblock"
    by (simp add: wf_hblock_def boot_hblock_def fresh_hblock_def zero_decoded length_cwfs_ident)
  show "vol_ok formatted_vol" "quiet formatted_vol" "on_disk formatted_vol a \<longleftrightarrow> unat a < 100"
    "blk formatted_vol 0 = hblock_bytes boot_hblock"
    using h by (simp_all add: formatted_vol_def boot_vol_ok boot_vol_blocks layout_simps blk_put_blk)
qed (simp_all add: formatted_vol_def boot_vol_sel)

lemma not_cwfs: "\<not> strncmp_eq 8 (0 # as) (cstr cwfs_ident)"
proof -
  have "cstr cwfs_ident = 0x43 # tl (cstr cwfs_ident)" by (simp add: cwfs_ident_def chars_def cstr_def)
  moreover have "\<not> strncmp_eq 8 (0 # as) (0x43 # bs)" for bs
    using strncmp_eq.simps(2) [of 7 0 as "0x43" bs] by (simp del: strncmp_eq.simps)
  ultimately show ?thesis by metis
qed

text \<open>A block that holds inodes is not taken for the header of a volume.\<close>

lemma load_volume_over_iblock:
  assumes v: "vol_ok v" "quiet v" "on_disk v 0" and ib: "wf_iblock ib" "ftype (ib ! 0) = 0"
    and b: "blk v 0 = iblock_bytes ib"
  shows "\<exists>w. fs2_load_volume v = Some w \<and> outcome w = FS2_INVALID_FS"
proof -
  obtain i is' where "ib = i # is'" using ib(1) by (cases ib) (auto simp: wf_iblock_def)
  then obtain ys where ys: "iblock_bytes ib = 0 # ys" "length ys = 4095"
    using ib length_iblock_bytes [OF ib(1)] by (auto simp: iblock_bytes_def inode_bytes_def)
  have "ident (hblock_of_bytes (0 # ys)) = 0 # take 7 ys" by (simp add: hblock_of_bytes_def take_Cons')
  then have "\<not> strncmp_eq 8 (ident (hblock_of_bytes (0 # ys))) (cstr cwfs_ident)"
    by (simp add: not_cwfs)
  then show ?thesis
    using v b ys by (simp add: fs2_load_volume_def fs2_rblk_ok)
qed

text \<open>The volume structure as the C runtime leaves it; the disk and the header are arbitrary.\<close>

definition at_power_on :: "fs2_volume \<Rightarrow> bool" where
  "at_power_on v \<longleftrightarrow> blk_0 v = 0 \<and> icindex v = 0 \<and> icaddr v = 0 \<and> icache v = iblock_of_bytes zero_block
     \<and> dcaddr v = 0 \<and> dcache v = dblock_of_bytes zero_block"

definition root_hblock :: "fs2_hblock \<Rightarrow> fs2_hblock" where
  "root_hblock h = (fresh_hblock h 100 (FS2_U_READ OR FS2_U_WRITE) 4 1 2)\<lparr>next_block := 3, next_inode := 1\<rparr>"

definition formatted :: "fs2_volume \<Rightarrow> fs2_volume" where
  "formatted v = (put_blk 0 (hblock_bytes (root_hblock (hblock v))) (put_blk 1 (dblock_bytes root_dblock) v))
     \<lparr>outcome := FS2_SUCCESS, hblock := root_hblock (hblock v), icache := (replicate 32 zero_inode)[0 := root_inode],
      dcaddr := 1, dcache := root_dblock\<rparr>"

lemma wf_root_hblock: "wf_hblock h \<Longrightarrow> wf_hblock (root_hblock h)"
  by (simp add: wf_hblock_def root_hblock_def fresh_hblock_def length_cwfs_ident)

lemma format_at_power_on:
  assumes v: "vol_ok v" "quiet v" "on_disk v 0" "on_disk v 1" "at_power_on v"
  shows "fs2_format_volume v 100 (FS2_U_READ OR FS2_U_WRITE) 4 1 2 n0 i0 = Some (formatted v)"
proof -
  have s: "blk_0 v = 0" "icindex v = 0" "icaddr v = 0" "icache v = replicate 32 zero_inode" "dcaddr v = 0"
    "dcache v = replicate 128 zero_entry"
    using v(5) by (simp_all add: at_power_on_def zero_decoded)
  have h: "length (h_unused (hblock v)) = 70" "length (h_reg_len (hblock v)) = 800"
    using v(1) by (simp_all add: vol_ok_def wf_hblock_def)
  show ?thesis
    unfolding fs2_format_volume_def
    by (simp add: Let_def strncpy_exact length_cwfs_ident,
      simp add: fs2_create_file_def fs2_get_iblock_c_def s fs2_init_inode_def
        upd_inode_def fs2_find_free_region_eq FS2_FTYPE_DIR_def fs2_load_dblock_c_def
        dot_entries_zero root_inode_eq,
      simp add: fs2_save_dblock_c_def fs2_save_iblock_c_def fs2_save_hblock_def fs2_wblk_ok
        v wf_hblock_def h length_cwfs_ident layout_simps set_outcome_def s,
      simp add: formatted_def root_hblock_def fresh_hblock_def put_blk_def stored_def s)
qed

lemma formatted_ok:
  assumes v: "vol_ok v" "quiet v" "on_disk v 0" "on_disk v 1" "at_power_on v"
  shows "vol_ok (formatted v)" "quiet (formatted v)" "on_disk (formatted v) 0"
    "blk (formatted v) 0 = hblock_bytes (hblock (formatted v))" "icaddr (formatted v) = 0"
    "ftype (icache (formatted v) ! 0) = 0" "wf_iblock (icache (formatted v))" "outcome (formatted v) = FS2_SUCCESS"
    "iblocks (formatted v) = []"
proof -
  have h: "wf_hblock (root_hblock (hblock v))" using v(1) by (intro wf_root_hblock) (simp add: vol_ok_def)
  show "vol_ok (formatted v)" "quiet (formatted v)" "on_disk (formatted v) 0"
    "blk (formatted v) 0 = hblock_bytes (hblock (formatted v))"
    using h v by (simp_all add: formatted_def layout_simps blk_put_blk)
  show "icaddr (formatted v) = 0" using v(5) by (simp add: formatted_def at_power_on_def)
  have "takeWhile (\<lambda>(s, l). s \<noteq> 0) (zip (replicate n (0 :: u32)) xs) = []" for n and xs :: "u8 list"
    by (cases n; cases xs) simp_all
  then show "iblocks (formatted v) = []"
    by (simp add: iblocks_def formatted_def root_hblock_def fresh_hblock_def iregions_def
        region_blocks_def used_regions_def)
  show "ftype (icache (formatted v) ! 0) = 0" by (simp add: formatted_def root_inode_def FS2_FTYPE_DIR_def)
qed (simp_all add: formatted_def)

text \<open>
  C39: Formatting an unformatted disk at boot, for a disk of at least two blocks without failing
  transfers whose first block does not begin with the identification of a volume.  \<open>init_fs\<close> formats
  with the inode cache as the C runtime left it, tagged with index 0 and address 0, so that the first
  inode block counts as loaded: none is ever allocated.  The call reports success, but the volume has
  no inode block, the root's inode went to block 0 and was overwritten there by the header, and the next
  save of the inode cache (at the end of every \<open>fs2_write\<close>) destroys the header: the volume is then not
  recognised any more.
\<close>

theorem format_at_boot_loses_root:
  assumes "vol_ok v0" "quiet v0" "on_disk v0 0" "on_disk v0 1" "at_power_on v0"
    and "\<not> strncmp_eq 8 (ident (hblock_of_bytes (blk v0 0))) (cstr cwfs_ident)"
  shows "\<exists>u v w x. fs2_load_volume v0 = Some u \<and> outcome u = FS2_INVALID_FS
    \<and> fs2_format_volume u 100 (FS2_U_READ OR FS2_U_WRITE) 4 1 2 n0 i0 = Some v
    \<and> outcome v = FS2_SUCCESS \<and> iblocks v = [] \<and> blk v 0 = hblock_bytes (hblock v)
    \<and> fs2_save_iblock_c v = Some w \<and> blk w 0 = iblock_bytes (icache v)
    \<and> fs2_load_volume w = Some x \<and> outcome x = FS2_INVALID_FS"
proof -
  define u where "u = v0\<lparr>hblock := hblock_of_bytes (blk v0 0), outcome := FS2_INVALID_FS\<rparr>"
  have load: "fs2_load_volume v0 = Some u"
    using assms by (simp add: fs2_load_volume_def fs2_rblk_ok u_def)
  have "length (blk v0 0) = 4096" using assms(1,3) by (rule length_blk)
  then have u: "vol_ok u" "quiet u" "on_disk u 0" "on_disk u 1" "at_power_on u"
    using assms by (simp_all add: u_def at_power_on_def layout_simps)
  let ?v = "formatted u" and ?w = "(put_blk 0 (iblock_bytes (icache (formatted u))) (formatted u))\<lparr>outcome := FS2_SUCCESS\<rparr>"
  note v = formatted_ok [OF u]
  have save: "fs2_save_iblock_c ?v = Some ?w"
    using v by (simp add: fs2_save_iblock_c_def fs2_wblk_ok layout_simps set_outcome_def)
  have w: "blk ?w 0 = iblock_bytes (icache ?v)" using v by (simp add: blk_put_blk)
  obtain x where "fs2_load_volume ?w = Some x" "outcome x = FS2_INVALID_FS"
    using load_volume_over_iblock [OF _ _ _ v(7,6) w] v by (auto simp: layout_simps)
  then show ?thesis
    using load format_at_power_on [OF u] save w v
    by (intro exI [of _ u] exI [of _ ?v] exI [of _ ?w] exI [of _ x]) (simp add: u_def)
qed

lemma format_at_boot_loses_root_witness:
  "\<exists>v w x. fs2_format_volume (boot_vol\<lparr>outcome := FS2_INVALID_FS\<rparr>) 100 (FS2_U_READ OR FS2_U_WRITE) 4 1 2 0 0 = Some v
    \<and> fs2_save_iblock_c v = Some w \<and> fs2_load_volume w = Some x \<and> outcome x = FS2_INVALID_FS"
proof -
  have b: "blk boot_vol 0 = zero_block" by (rule boot_vol_blocks(2)) (simp add: boot_vol_blocks(1))
  have "ident (hblock_of_bytes zero_block) = 0 # replicate 7 0"
    by (simp add: zero_decoded replicate_Suc [symmetric] del: replicate_Suc)
  then have n: "\<not> strncmp_eq 8 (ident (hblock_of_bytes (blk boot_vol 0))) (cstr cwfs_ident)"
    by (simp add: b not_cwfs)
  have "at_power_on boot_vol" by (simp add: at_power_on_def boot_vol_sel)
  from format_at_boot_loses_root [OF boot_vol_ok _ _ this n, of 0 0] obtain u v w x where
    u: "fs2_load_volume boot_vol = Some u" "fs2_format_volume u 100 (FS2_U_READ OR FS2_U_WRITE) 4 1 2 0 0 = Some v"
    "fs2_save_iblock_c v = Some w" "fs2_load_volume w = Some x" "outcome x = FS2_INVALID_FS"
    by (auto simp: boot_vol_blocks)
  have "u = boot_vol\<lparr>outcome := FS2_INVALID_FS\<rparr>"
    using u(1) n by (simp add: fs2_load_volume_def fs2_rblk_ok boot_vol_ok boot_vol_blocks(1) b) (simp add: boot_vol_def)
  then show ?thesis using u(2-5) by blast
qed

end
