(* ===== verification/Fs2_File.thy ===== *)
theory Fs2_File
  imports Fs2_Dir
begin

text \<open>
  The operations on existing files and directories (\<^verbatim>\<open>kernel/fs2.c\<close>: \<open>fs2_unlink\<close>, \<open>fs2_rm\<close>,
  \<open>fs2_ls\<close>, \<open>fs2_isftype\<close>, \<open>fs2_read\<close>, \<open>fs2_write\<close> and their helpers).  A C \<open>int\<close> whose value
  the code bounds is an \<open>int\<close>; the unsigned quantities stay words.  Buffers are byte lists: an
  output buffer is the list of bytes stored from its start.
\<close>

section \<open>Directories\<close>

text \<open>
  \<open>(k % 128) == 0\<close>: load the next dblock of the directory and step to the one after it.  \<open>fs2_unlink\<close>
  and \<open>fs2_ls\<close> share this code; \<open>Inl\<close> is an early return.
\<close>

definition next_dblock ::
    "fs2_volume \<Rightarrow> fs2_inode \<Rightarrow> nat \<Rightarrow> nat \<Rightarrow> (fs2_volume + nat \<times> nat \<times> fs2_volume) option" where
  "next_dblock vol inode i j =
     (if 23 \<le> i then None
      else do {
        vol1 \<leftarrow> fs2_load_dblock_c vol (reg_start inode ! i + word_of_nat j) False;
        if outcome vol1 \<noteq> FS2_SUCCESS then Some (Inl vol1)
        else if reg_len inode ! i = 0 then None
        else
          let j' = (j + 1) mod unat (reg_len inode ! i)
          in Some (Inr (if j' = 0 then i + 1 else i, j', vol1))
      })"

text \<open>\<open>x\<close> is the index of the parent's inode in the cached iblock.\<close>

definition unlink_entry :: "fs2_volume \<Rightarrow> nat \<Rightarrow> nat \<Rightarrow> fs2_volume option" where
  "unlink_entry vol x k = (
     let pinode = icache vol ! x; last = unat (eof pinode - 1)
     in do {
       (ok, vol1) \<leftarrow>
         (if k \<noteq> last then
            if k div 128 \<noteq> last div 128 then do {
              let ldbaddr = find_blk (reg_start pinode) (reg_len pinode) 23 (int (last div 128));
              v1 \<leftarrow> fs2_load_gp_c vol ldbaddr False;
              if outcome v1 \<noteq> FS2_SUCCESS then Some (False, v1)
              else
                let le = dblock_of_bytes (xcache v1) ! (last mod 128)
                in Some (True, upd_entry (k mod 128) (\<lambda>_. le) v1)
            }
            else Some (True, upd_entry (k mod 128) (\<lambda>_. dcache vol ! (last mod 128)) vol)
          else Some (True, vol));
       if \<not> ok then Some vol1
       else fs2_save_dblock_c (upd_inode x (\<lambda>i. i\<lparr>eof := eof i - 1\<rparr>) vol1)
     })"

function unlink_loop ::
    "fs2_volume \<Rightarrow> nat \<Rightarrow> fs2_inode \<Rightarrow> u32 \<Rightarrow> nat \<Rightarrow> nat \<Rightarrow> nat \<Rightarrow> fs2_volume option" where
  "unlink_loop vol x pinode xiindex k i j =
     (if k < unat (eof pinode) then do {
        r \<leftarrow> (if k mod 128 = 0 then next_dblock vol pinode i j else Some (Inr (i, j, vol)));
        case r of
          Inl vol1 \<Rightarrow> Some vol1
        | Inr (i1, j1, vol1) \<Rightarrow>
            if inode_index (dcache vol1 ! (k mod 32)) = xiindex then unlink_entry vol1 x k
            else unlink_loop vol1 x pinode xiindex (Suc k) i1 j1
      }
      else Some (vol\<lparr>outcome := FS2_NO_FILE\<rparr>))"
  by pat_completeness auto
termination
  by (relation "measure (\<lambda>(vol, x, pinode, xiindex, k, i, j). unat (eof pinode) - k)") auto

declare unlink_loop.simps [simp del]

definition fs2_unlink :: "fs2_volume \<Rightarrow> nat \<Rightarrow> u32 \<Rightarrow> fs2_volume option" where
  "fs2_unlink vol x xiindex = unlink_loop vol x (icache vol ! x) xiindex 0 0 0"

definition fs2_rm :: "fs2_volume \<Rightarrow> byte list \<Rightarrow> (bool \<times> fs2_volume) option" where
  "fs2_rm vol path = do {
     (ind, parent, vol1) \<leftarrow> fs2_find_file vol path;
     if outcome vol1 \<noteq> FS2_SUCCESS then Some (False, vol1)
     else if ind = 0 then Some (False, vol1\<lparr>outcome := FS2_BAD_PERMISSIONS\<rparr>)
     else do {
       p \<leftarrow> parent;
       vol2 \<leftarrow> fs2_get_iblock_c vol1 (ind div 32) False False;
       if outcome vol2 \<noteq> FS2_SUCCESS then Some (False, vol2)
       else
         let x = unat (ind mod 32); inode = icache vol2 ! x
         in if ftype inode = FS2_FTYPE_DIR \<and> eof inode > 2
            then Some (False, vol2\<lparr>outcome := FS2_BAD_FTYPE\<rparr>)
            else do {
              let move = ind < next_inode (hblock vol2) - 1;
              let vol3 = (if move then upd_inode x (\<lambda>i. i\<lparr>reg_start := replicate 23 0\<rparr>) vol2
                          else vol2);
              vol4 \<leftarrow> fs2_get_iblock_c vol3 (p div 32) False move;
              if outcome vol4 \<noteq> FS2_SUCCESS then Some (False, vol4)
              else do {
                vol5 \<leftarrow> fs2_unlink vol4 (unat (p mod 32)) ind;
                if outcome vol5 \<noteq> FS2_SUCCESS then Some (False, vol5)
                else do {
                  vol6 \<leftarrow> fs2_save_iblock_c vol5;
                  Some (outcome vol6 = FS2_SUCCESS, vol6)
                }
              }
            }
     }
   }"

text \<open>
  \<open>put_name\<close> copies the characters of an entry's name to the output while there is room: the flag
  is False when the function returns early.  \<open>out\<close> holds the bytes written so far.
\<close>

fun put_name :: "byte list \<Rightarrow> byte list \<Rightarrow> int \<Rightarrow> bool \<times> byte list" where
  "put_name [] out nchars = (True, out)"
| "put_name (c # cs) out nchars =
     (if c = 0 then (True, out)
      else let out1 = out @ [c]
           in if int (length out1) \<ge> nchars then (False, out1) else put_name cs out1 nchars)"

function ls_loop ::
    "fs2_volume \<Rightarrow> fs2_inode \<Rightarrow> nat \<Rightarrow> nat \<Rightarrow> nat \<Rightarrow> byte list \<Rightarrow> int
     \<Rightarrow> (bool \<times> byte list \<times> fs2_volume) option" where
  "ls_loop vol dinode k i j out nchars =
     (if k < unat (eof dinode) then do {
        r \<leftarrow> (if k mod 128 = 0 then next_dblock vol dinode i j else Some (Inr (i, j, vol)));
        case r of
          Inl vol1 \<Rightarrow> Some (False, out, vol1)
        | Inr (i1, j1, vol1) \<Rightarrow>
            let (ok, out1) = put_name (take 28 (name (dcache vol1 ! (k mod 128)))) out nchars
            in if \<not> ok then Some (False, out1, vol1)
               else if int (length out1) < nchars
               then ls_loop vol1 dinode (Suc k) i1 j1 (out1 @ [0x0A]) nchars
               else Some (False, out1, vol1)
      }
      else if int (length out) < nchars
      then Some (True, out @ [0], vol\<lparr>outcome := FS2_SUCCESS\<rparr>)
      else Some (False, out, vol))"
  by pat_completeness auto
termination
  by (relation "measure (\<lambda>(vol, dinode, k, i, j, out, nchars). unat (eof dinode) - k)") auto

declare ls_loop.simps [simp del]

definition fs2_ls :: "fs2_volume \<Rightarrow> byte list \<Rightarrow> int \<Rightarrow> (bool \<times> byte list \<times> fs2_volume) option" where
  "fs2_ls vol path nchars = do {
     (iindex, _, vol1) \<leftarrow> fs2_find_file vol path;
     if outcome vol1 \<noteq> FS2_SUCCESS then Some (False, [], vol1)
     else do {
       vol2 \<leftarrow> fs2_get_iblock_c vol1 (iindex div 32) False False;
       if outcome vol2 \<noteq> FS2_SUCCESS then Some (False, [], vol2)
       else ls_loop vol2 (icache vol2 ! unat (iindex mod 32)) 0 0 0 [] nchars
     }
   }"

definition fs2_isftype :: "fs2_volume \<Rightarrow> byte list \<Rightarrow> u8 \<Rightarrow> (bool \<times> fs2_volume) option" where
  "fs2_isftype vol path ft = do {
     (iindex, _, vol1) \<leftarrow> fs2_find_file vol path;
     if outcome vol1 \<noteq> FS2_SUCCESS then Some (False, vol1)
     else do {
       vol2 \<leftarrow> fs2_get_iblock_c vol1 (iindex div 32) False False;
       if outcome vol2 \<noteq> FS2_SUCCESS then Some (False, vol2)
       else Some (ftype (icache vol2 ! unat (iindex mod 32)) = ft, vol2)
     }
   }"

section \<open>Reading\<close>

text \<open>The loop over the full blocks; the flag is False when the function returns early.\<close>

function read_blocks ::
    "fs2_volume \<Rightarrow> fs2_inode \<Rightarrow> int \<Rightarrow> int \<Rightarrow> int \<Rightarrow> byte list
     \<Rightarrow> (bool \<times> int \<times> int \<times> byte list \<times> fs2_volume) option" where
  "read_blocks vol inode rbytes rcount blkind out =
     (if rbytes - rcount \<ge> 0x1000 then
        let blkind1 = blkind + 1;
            blk = find_blk (reg_start inode) (reg_len inode) 23 blkind1
        in if blk = 0 then Some (False, rcount, blkind1, out, vol)
           else do {
             vol1 \<leftarrow> fs2_load_gp_c vol blk False;
             if outcome vol1 \<noteq> FS2_SUCCESS then Some (False, rcount, blkind1, out, vol1)
             else read_blocks vol1 inode rbytes (rcount + 0x1000) blkind1 (out @ xcache vol1)
           }
      else Some (True, rcount, blkind, out, vol))"
  by pat_completeness auto
termination
  by (relation "measure (\<lambda>(vol, inode, rbytes, rcount, blkind, out). nat (rbytes - rcount))") auto

declare read_blocks.simps [simp del]

definition fs2_read ::
    "fs2_volume \<Rightarrow> byte list \<Rightarrow> u32 \<Rightarrow> u32 \<Rightarrow> (int \<times> byte list \<times> fs2_volume) option" where
  "fs2_read vol path nbytes cursor = do {
     (iindex, _, vol1) \<leftarrow> fs2_find_file vol path;
     if outcome vol1 \<noteq> FS2_SUCCESS then Some (-1, [], vol1)
     else do {
       vol2 \<leftarrow> fs2_get_iblock_c vol1 (iindex div 32) False False;
       if outcome vol2 \<noteq> FS2_SUCCESS then Some (-1, [], vol2)
       else
         let inode = icache vol2 ! unat (iindex mod 32)
         in if ftype inode \<noteq> FS2_FTYPE_FILE then Some (-1, [], vol2\<lparr>outcome := FS2_BAD_FTYPE\<rparr>)
            else if fperm inode AND (if FS2_U_READ = 0 then 1 else 0) \<noteq> 0
            then Some (-1, [], vol2\<lparr>outcome := FS2_BAD_PERMISSIONS\<rparr>)
            else
              let maxbytes = sint (eof inode - cursor)
              in if maxbytes \<le> 0 then Some (0, [], vol2)
                 else
                   let blkind = uint (cursor div 0x1000);
                       blk = find_blk (reg_start inode) (reg_len inode) 23 blkind
                   in if blk = 0 then Some (0, [], vol2)
                      else
                        let rbytes = (if nbytes < word_of_int maxbytes then sint nbytes else maxbytes);
                            off = unat (cursor mod 0x1000);
                            maxb1 = 0x1000 - int off;
                            read1 = (if rbytes > maxb1 then maxb1 else rbytes)
                        in do {
                          vol3 \<leftarrow> fs2_load_gp_c vol2 blk False;
                          if outcome vol3 \<noteq> FS2_SUCCESS then Some (-1, [], vol3)
                          else do {
                            let out1 = take (nat read1) (drop off (xcache vol3));
                            if read1 = rbytes then Some (read1, out1, vol3)
                            else do {
                              (go, rcount, blkind2, out2, vol4) \<leftarrow>
                                read_blocks vol3 inode rbytes read1 blkind out1;
                              if \<not> go then Some (rcount, out2, vol4)
                              else if rcount = rbytes then Some (rcount, out2, vol4)
                              else do {
                                let blk2 = find_blk (reg_start inode) (reg_len inode) 23 (blkind2 + 1);
                                vol5 \<leftarrow> fs2_load_gp_c vol4 blk2 False;
                                if outcome vol5 \<noteq> FS2_SUCCESS then Some (rcount, out2, vol5)
                                else Some (rbytes, out2 @ take (nat (rbytes - rcount)) (xcache vol5),
                                           vol5)
                              }
                            }
                          }
                        }
     }
   }"

section \<open>Writing\<close>

definition fs2_grow_file :: "fs2_volume \<Rightarrow> nat \<Rightarrow> u8 \<Rightarrow> (u32 \<times> fs2_volume) option" where
  "fs2_grow_file vol x rsz = (
     let inode = icache vol ! x;
         i = length (takeWhile (\<lambda>r. r \<noteq> 0) (take 23 (reg_start inode)))
     in if i = 23 then Some (0, vol\<lparr>outcome := FS2_FILE_FULL\<rparr>)
        else do {
          (blk0, vol1) \<leftarrow> fs2_find_free_region vol rsz True;
          if blk0 = 0 \<or> outcome vol1 \<noteq> FS2_SUCCESS then Some (0, vol1)
          else
            let vol2 = upd_inode x (\<lambda>i'. i'\<lparr>reg_start := (reg_start i')[i := blk0],
                                           reg_len := (reg_len i')[i := rsz]\<rparr>) vol1
            in Some (blk0, vol2\<lparr>outcome := FS2_SUCCESS\<rparr>)
        })"

definition finish_write :: "fs2_volume \<Rightarrow> nat \<Rightarrow> u32 \<Rightarrow> int \<Rightarrow> (int \<times> fs2_volume) option" where
  "finish_write vol x cursor wcount = do {
     let vol1 = upd_inode x (\<lambda>i. i\<lparr>eof := cursor + word_of_int wcount\<rparr>) vol;
     vol2 \<leftarrow> fs2_save_iblock_c vol1;
     Some (wcount, vol2)
   }"

text \<open>The number of blocks for \<open>n\<close> bytes, truncated to a \<open>uint8_t\<close> as in the code.\<close>

definition blocks_for :: "u32 \<Rightarrow> u8" where
  "blocks_for n = (if n mod 0x1000 \<noteq> 0 then ucast (n div 0x1000) + 1 else ucast (n div 0x1000))"

text \<open>
  The block of index \<open>blkind\<close> of the file, growing the file by a region of \<open>sz\<close> blocks when it has
  no such block; 0 when that failed.
\<close>

definition block_or_grow :: "fs2_volume \<Rightarrow> nat \<Rightarrow> int \<Rightarrow> u8 \<Rightarrow> (bool \<times> u32 \<times> fs2_volume) option" where
  "block_or_grow vol x blkind sz = (
     let inode = icache vol ! x;
         blk = find_blk (reg_start inode) (reg_len inode) 23 blkind
     in if blk = 0 then do {
          (b, vol1) \<leftarrow> fs2_grow_file vol x sz;
          Some (outcome vol1 = FS2_SUCCESS, b, vol1)
        }
        else Some (True, blk, vol))"

function write_blocks ::
    "fs2_volume \<Rightarrow> nat \<Rightarrow> byte list \<Rightarrow> int \<Rightarrow> int \<Rightarrow> int
     \<Rightarrow> (bool \<times> int \<times> int \<times> fs2_volume) option" where
  "write_blocks vol x src nbytes wcount blkind =
     (if nbytes - wcount \<ge> 0x1000 then do {
        let blkind1 = blkind + 1;
        (ok, blk, vol1) \<leftarrow> block_or_grow vol x blkind1 (blocks_for (word_of_int (nbytes - wcount)));
        if \<not> ok then Some (False, wcount, blkind1, vol1)
        else do {
          vol2 \<leftarrow> fs2_load_gp_c vol1 blk True;
          let vol3 = vol2\<lparr>xcache := take 0x1000 (drop (nat wcount) src)\<rparr>;
          vol4 \<leftarrow> fs2_save_gp_c vol3;
          if outcome vol4 \<noteq> FS2_SUCCESS then Some (False, wcount, blkind1, vol4)
          else write_blocks vol4 x src nbytes (wcount + 0x1000) blkind1
        }
      }
      else Some (True, wcount, blkind, vol))"
  by pat_completeness auto
termination
  by (relation "measure (\<lambda>(vol, x, src, nbytes, wcount, blkind). nat (nbytes - wcount))") auto

declare write_blocks.simps [simp del]

text \<open>
  \<open>src\<close> is the array \<open>in\<close>.  From the first \<open>memcpy\<close> on the code reads \<open>nbytes\<close> bytes of it and
  counts them in an \<open>int\<close>: a shorter array, or 2 GiB and more, has no defined result.
\<close>

definition fs2_write ::
    "fs2_volume \<Rightarrow> byte list \<Rightarrow> byte list \<Rightarrow> u32 \<Rightarrow> u32 \<Rightarrow> (int \<times> fs2_volume) option" where
  "fs2_write vol path src nbytes cursor =
   do {
     (iindex, _, vol1) \<leftarrow> fs2_find_file vol path;
     if outcome vol1 \<noteq> FS2_SUCCESS then Some (-1, vol1)
     else do {
       vol2 \<leftarrow> fs2_get_iblock_c vol1 (iindex div 32) False False;
       if outcome vol2 \<noteq> FS2_SUCCESS then Some (-1, vol2)
       else
         let x = unat (iindex mod 32); inode = icache vol2 ! x
         in if ftype inode \<noteq> FS2_FTYPE_FILE then Some (-1, vol2\<lparr>outcome := FS2_BAD_FTYPE\<rparr>)
            else if fperm inode AND (if FS2_U_WRITE = 0 then 1 else 0) \<noteq> 0
            then Some (-1, vol2\<lparr>outcome := FS2_BAD_PERMISSIONS\<rparr>)
            else do {
              let off = unat (cursor mod 0x1000);
              let max1 = 0x1000 - int off;
              let write1 = (if uint nbytes > max1 then max1 else uint nbytes);
              let blkind = uint (cursor div 0x1000);
              (ok, blk, vol3) \<leftarrow> block_or_grow vol2 x blkind (blocks_for nbytes);
              if \<not> ok then Some (0, vol3)
              else do {
                vol4 \<leftarrow> fs2_load_gp_c vol3 blk False;
                if outcome vol4 \<noteq> FS2_SUCCESS then Some (0, vol4)
                else if length src < unat nbytes \<or> 2 ^ 31 \<le> unat nbytes then None
                else do {
                  let old = xcache vol4;
                  let vol5 = vol4\<lparr>xcache := take off old @ take (nat write1) src
                                            @ drop (off + nat write1) old\<rparr>;
                  vol6 \<leftarrow> fs2_save_gp_c vol5;
                  if outcome vol6 \<noteq> FS2_SUCCESS then Some (0, vol6)
                  else do {
                    (go, wcount, blkind2, vol7) \<leftarrow>
                      write_blocks vol6 x src (uint nbytes) write1 blkind;
                    if \<not> go then finish_write vol7 x cursor wcount
                    else if wcount = uint nbytes then finish_write vol7 x cursor wcount
                    else do {
                      (ok2, blk2, vol8) \<leftarrow>
                        block_or_grow vol7 x (blkind2 + 1) (default_freg_len (hblock vol7));
                      if \<not> ok2 then finish_write vol8 x cursor wcount
                      else do {
                        vol9 \<leftarrow> fs2_load_gp_c vol8 blk2 True;
                        let n = nat (uint nbytes - wcount);
                        let vol10 = vol9\<lparr>xcache := take n src @ drop n (xcache vol9)\<rparr>;
                        vol11 \<leftarrow> fs2_save_gp_c vol10;
                        finish_write vol11 x cursor
                          (if outcome vol11 = FS2_SUCCESS then uint nbytes else wcount)
                      }
                    }
                  }
                }
              }
            }
     }
   }"

definition fs2_outcome_str :: "fs2_volume \<Rightarrow> string" where
  "fs2_outcome_str vol =
     (case outcome vol of
        FS2_SUCCESS \<Rightarrow> ''Operation successful''
      | FS2_BAD_FTYPE \<Rightarrow> ''A file or dir was found where the other was expected''
      | FS2_DISK_FULL \<Rightarrow> ''There is no more free space on this volume''
      | FS2_DISK_RD_ERR \<Rightarrow> ''Input/output error''
      | FS2_DISK_WR_ERR \<Rightarrow> ''Input/output error''
      | FS2_INVALID_PATH \<Rightarrow> ''The path provided is of a bad format''
      | FS2_NO_FILE \<Rightarrow> ''A file was not found where one was expected''
      | FS2_UNEXPECTED_FILE \<Rightarrow> ''A file was found where one was not expected''
      | FS2_FILE_FULL \<Rightarrow> ''The file/dir has used all of its available regions''
      | _ \<Rightarrow> ''?'')"

end
