(* ===== verification/Pipe.thy ===== *)
theory Pipe
  imports Prelude
begin

text \<open>
  Pipes, \<^verbatim>\<open>kernel/pipe.c\<close>: a ring buffer of \<open>PIPE_SIZE\<close> bytes.  The counter \<open>i\<close> of \<open>pipe_read\<close> and
  \<open>pipe_write\<close> is declared without an initial value; the model takes the value the stack happens to
  hold as an argument \<open>i0\<close>, and a negative index into the caller's buffer is undefined.
\<close>

definition PIPE_SIZE :: nat where "PIPE_SIZE = 0x1000"

record pipe =
  buffer :: "byte list"
  reader :: nat
  writer :: nat
  full :: bool
  reader_pid :: int
  writer_pid :: int

definition pipe_reset :: "pipe \<Rightarrow> pipe" where
  "pipe_reset p = p\<lparr>reader := 0, writer := 0, full := False, reader_pid := -1, writer_pid := -1\<rparr>"

definition can_read :: "pipe \<Rightarrow> bool" where
  "can_read p \<longleftrightarrow> full p \<or> writer p \<noteq> reader p"

text \<open>
  The loops.  \<open>pipe_read\<close> returns the final \<open>i\<close> and the list of stores \<open>out[i] = c\<close> it made, in
  order; \<open>pipe_write\<close> reads its bytes from the array \<open>src\<close>.
\<close>

function pipe_read :: "pipe \<Rightarrow> int \<Rightarrow> int \<Rightarrow> (int \<times> (int \<times> byte) list \<times> pipe) option" where
  "pipe_read p nchars i =
     (if i < nchars \<and> can_read p then
        if i < 0 then None
        else do {
          let c = buffer p ! reader p;
          (r, stores, p') \<leftarrow>
            pipe_read (p\<lparr>reader := (reader p + 1) mod PIPE_SIZE, full := False\<rparr>) nchars (i + 1);
          Some (r, (i, c) # stores, p')
        }
      else Some (i, [], p))"
  by pat_completeness auto
termination
  by (relation "measure (\<lambda>(p, nchars, i). nat (nchars - i))") auto

function pipe_write :: "pipe \<Rightarrow> byte list \<Rightarrow> int \<Rightarrow> int \<Rightarrow> (int \<times> pipe) option" where
  "pipe_write p src nchars i =
     (if i < nchars \<and> \<not> full p then
        if i < 0 \<or> int (length src) \<le> i then None
        else
          let w = (writer p + 1) mod PIPE_SIZE
          in pipe_write (p\<lparr>buffer := (buffer p)[writer p := src ! nat i],
                          writer := w, full := (w = reader p)\<rparr>) src nchars (i + 1)
      else Some (i, p))"
  by pat_completeness auto
termination
  by (relation "measure (\<lambda>(p, src, nchars, i). nat (nchars - i))") auto

declare pipe_read.simps [simp del] pipe_write.simps [simp del]

section \<open>The queue a pipe stands for\<close>

definition pipe_ok :: "pipe \<Rightarrow> bool" where
  "pipe_ok p \<longleftrightarrow> length (buffer p) = PIPE_SIZE \<and> reader p < PIPE_SIZE \<and> writer p < PIPE_SIZE
     \<and> (full p \<longrightarrow> reader p = writer p)"

definition pipe_count :: "pipe \<Rightarrow> nat" where
  "pipe_count p = (if full p then PIPE_SIZE
     else if reader p \<le> writer p then writer p - reader p
     else PIPE_SIZE + writer p - reader p)"

definition contents :: "pipe \<Rightarrow> byte list" where
  "contents p = map (\<lambda>k. buffer p ! ((reader p + k) mod PIPE_SIZE)) [0..<pipe_count p]"

definition read1 :: "pipe \<Rightarrow> pipe" where
  "read1 p = p\<lparr>reader := (reader p + 1) mod PIPE_SIZE, full := False\<rparr>"

definition write1 :: "byte \<Rightarrow> pipe \<Rightarrow> pipe" where
  "write1 c p = (let w = (writer p + 1) mod PIPE_SIZE
     in p\<lparr>buffer := (buffer p)[writer p := c], writer := w, full := (w = reader p)\<rparr>)"

lemma PIPE_SIZE_bounds: "0 < PIPE_SIZE" "Suc 0 < PIPE_SIZE"
  by (simp_all add: PIPE_SIZE_def)

lemma length_contents [simp]: "length (contents p) = pipe_count p"
  by (simp add: contents_def)

lemma pipe_count_not_full:
  assumes "pipe_ok p" "\<not> full p"
  shows "pipe_count p < PIPE_SIZE" "pipe_count p = 0 \<longleftrightarrow> writer p = reader p"
  using assms unfolding pipe_ok_def pipe_count_def by auto

lemma can_read_contents: "pipe_ok p \<Longrightarrow> can_read p \<longleftrightarrow> contents p \<noteq> []"
  using pipe_count_not_full [of p] PIPE_SIZE_bounds
  by (cases "full p") (auto simp: can_read_def contents_def pipe_count_def [of p])

lemma full_contents: "pipe_ok p \<Longrightarrow> full p \<longleftrightarrow> pipe_count p = PIPE_SIZE"
  using pipe_count_not_full [of p] by (cases "full p") (auto simp: pipe_count_def [of p])

lemma contents_bound: "pipe_ok p \<Longrightarrow> pipe_count p \<le> PIPE_SIZE"
  using pipe_count_not_full [of p] by (cases "full p") (auto simp: pipe_count_def [of p])

text \<open>Stepping the ring: the counter wraps at \<open>PIPE_SIZE\<close>.\<close>

lemma wrap_Suc: "x < PIPE_SIZE \<Longrightarrow> Suc x mod PIPE_SIZE = (if Suc x = PIPE_SIZE then 0 else Suc x)"
  by simp

lemma wrap_add: "\<lbrakk> x < PIPE_SIZE; k \<le> PIPE_SIZE \<rbrakk> \<Longrightarrow>
    (x + k) mod PIPE_SIZE = (if x + k < PIPE_SIZE then x + k else x + k - PIPE_SIZE)"
  by (simp add: mod_if)

lemma pipe_count_read1:
  "\<lbrakk> pipe_ok p; can_read p \<rbrakk> \<Longrightarrow> pipe_count p = Suc (pipe_count (read1 p))"
  using PIPE_SIZE_bounds
  by (auto simp: pipe_ok_def read1_def pipe_count_def can_read_def wrap_Suc split: if_splits)

lemma pipe_count_write1:
  "\<lbrakk> pipe_ok p; \<not> full p \<rbrakk> \<Longrightarrow> pipe_count (write1 c p) = Suc (pipe_count p)"
  by (auto simp: pipe_ok_def write1_def pipe_count_def wrap_Suc Let_def split: if_splits)

lemma pipe_ok_read1: "pipe_ok p \<Longrightarrow> pipe_ok (read1 p)"
  by (auto simp: pipe_ok_def read1_def PIPE_SIZE_def)

lemma pipe_ok_write1: "pipe_ok p \<Longrightarrow> pipe_ok (write1 c p)"
  by (auto simp: pipe_ok_def write1_def PIPE_SIZE_def Let_def)

lemma contents_read1:
  assumes p: "pipe_ok p" "can_read p"
  shows "contents p = (buffer p ! reader p) # contents (read1 p)"
proof -
  have r: "reader p mod PIPE_SIZE = reader p" using p by (simp add: pipe_ok_def)
  have "contents p = (buffer p ! reader p)
      # map (\<lambda>k. buffer p ! ((reader p + Suc k) mod PIPE_SIZE)) [0..<pipe_count (read1 p)]"
    unfolding contents_def pipe_count_read1 [OF p]
    by (subst upt_conv_Cons) (simp_all add: r map_Suc_upt [symmetric] del: upt_Suc)
  moreover have "(reader p + Suc k) mod PIPE_SIZE = ((reader p + 1) mod PIPE_SIZE + k) mod PIPE_SIZE"
    for k by (simp add: mod_simps)
  ultimately show ?thesis by (simp add: contents_def read1_def)
qed

text \<open>The slot written is none of those still to be read.\<close>

lemma slot_free:
  assumes "pipe_ok p" "\<not> full p" "k < pipe_count p"
  shows "(reader p + k) mod PIPE_SIZE \<noteq> writer p"
proof -
  have "k \<le> PIPE_SIZE" using assms contents_bound by fastforce
  then show ?thesis
    using assms by (auto simp: wrap_add pipe_ok_def pipe_count_def split: if_splits)
qed

lemma slot_next:
  assumes "pipe_ok p" "\<not> full p"
  shows "(reader p + pipe_count p) mod PIPE_SIZE = writer p"
proof -
  have "pipe_count p \<le> PIPE_SIZE" using assms contents_bound by fastforce
  then show ?thesis
    using assms by (auto simp: wrap_add pipe_ok_def pipe_count_def split: if_splits)
qed

lemma contents_write1:
  assumes p: "pipe_ok p" "\<not> full p"
  shows "contents (write1 c p) = contents p @ [c]"
proof -
  have b: "buffer (write1 c p) = (buffer p)[writer p := c]" "reader (write1 c p) = reader p"
    by (simp_all add: write1_def Let_def)
  have w: "writer p < length (buffer p)" using p by (simp add: pipe_ok_def)
  have "map (\<lambda>k. (buffer p)[writer p := c] ! ((reader p + k) mod PIPE_SIZE)) [0..<pipe_count p]
      = contents p"
    unfolding contents_def
    by (rule map_cong) (use slot_free [OF p] in \<open>auto simp: nth_list_update_neq [OF not_sym]\<close>)
  then show ?thesis
    unfolding contents_def [of "write1 c p"] b pipe_count_write1 [OF p]
    using w slot_next [OF p] by simp
qed

section \<open>Bounded queues\<close>

text \<open>
  What a user of a pipe relies on: a queue of at most \<open>cap\<close> elements.  \<open>fill\<close> and \<open>drain\<close> are the two
  loops of the pipe operations in terms of it.
\<close>

locale bounded_queue =
  fixes ok :: "'q \<Rightarrow> bool"
    and elems :: "'q \<Rightarrow> 'a list"
    and cap :: nat
    and is_full :: "'q \<Rightarrow> bool"
    and has_next :: "'q \<Rightarrow> bool"
    and enq :: "'a \<Rightarrow> 'q \<Rightarrow> 'q"
    and front :: "'q \<Rightarrow> 'a"
    and deq :: "'q \<Rightarrow> 'q"
  assumes within: "ok q \<Longrightarrow> length (elems q) \<le> cap"
    and full_iff: "ok q \<Longrightarrow> is_full q \<longleftrightarrow> length (elems q) = cap"
    and next_iff: "ok q \<Longrightarrow> has_next q \<longleftrightarrow> elems q \<noteq> []"
    and enq_ok: "\<lbrakk> ok q; \<not> is_full q \<rbrakk> \<Longrightarrow> ok (enq x q) \<and> elems (enq x q) = elems q @ [x]"
    and deq_ok: "\<lbrakk> ok q; has_next q \<rbrakk> \<Longrightarrow> ok (deq q) \<and> elems q = front q # elems (deq q)"
begin

primrec fill :: "'a list \<Rightarrow> 'q \<Rightarrow> 'q" where
  "fill [] q = q"
| "fill (x # xs) q = (if is_full q then q else fill xs (enq x q))"

primrec drain :: "nat \<Rightarrow> 'q \<Rightarrow> 'a list \<times> 'q" where
  "drain 0 q = ([], q)"
| "drain (Suc n) q =
     (if has_next q then let (xs, q') = drain n (deq q) in (front q # xs, q') else ([], q))"

lemma fill_elems:
  "ok q \<Longrightarrow> ok (fill xs q) \<and> elems (fill xs q) = elems q @ take (cap - length (elems q)) xs"
proof (induction xs arbitrary: q)
  case Nil
  then show ?case by simp
next
  case (Cons x xs)
  show ?case
  proof (cases "is_full q")
    case True
    then show ?thesis using Cons.prems by (simp add: full_iff)
  next
    case False
    then have "length (elems q) < cap"
      using Cons.prems within [of q] full_iff [of q] by fastforce
    then have "cap - length (elems q) = Suc (cap - Suc (length (elems q)))" by simp
    then show ?thesis using False Cons enq_ok [of q x] by simp
  qed
qed

lemma drain_elems:
  "ok q \<Longrightarrow> ok (snd (drain n q)) \<and> fst (drain n q) = take n (elems q)
     \<and> elems (snd (drain n q)) = drop n (elems q)"
proof (induction n arbitrary: q)
  case 0
  then show ?case by simp
next
  case (Suc n)
  show ?case
  proof (cases "has_next q")
    case True
    then have "ok (deq q)" "elems q = front q # elems (deq q)" using Suc.prems deq_ok by auto
    then show ?thesis using True Suc.IH [of "deq q"] by (simp add: case_prod_beta Let_def)
  next
    case False
    then show ?thesis using Suc.prems by (simp add: next_iff)
  qed
qed

end

interpretation ring: bounded_queue pipe_ok contents PIPE_SIZE full can_read write1
  "\<lambda>p. buffer p ! reader p" read1
  by unfold_locales
     (simp_all add: contents_bound full_contents can_read_contents pipe_ok_read1 pipe_ok_write1
       contents_write1 contents_read1 [symmetric])

text \<open>The loops of the code are the loops of the queue, from an index that is not negative.\<close>

lemma pipe_write_fill:
  assumes "0 \<le> i" "i \<le> nchars" "nchars \<le> int (length src)" "pipe_ok p"
  shows "pipe_write p src nchars i =
    (let xs = take (nat (nchars - i)) (drop (nat i) src); q = ring.fill xs p
     in Some (i + int (length (contents q)) - int (length (contents p)), q))"
  using assms
proof (induction p src nchars i rule: pipe_write.induct)
  case (1 p src nchars i)
  show ?case
  proof (cases "i < nchars \<and> \<not> full p")
    case False
    then have "pipe_write p src nchars i = Some (i, p)" by (subst pipe_write.simps) (simp only: if_False)
    then show ?thesis using False 1(2-5)
      by (cases "take (nat (nchars - i)) (drop (nat i) src)") (auto simp: Let_def)
  next
    case True
    let ?p = "write1 (src ! nat i) p"
    have lt: "nat i < length src" using True 1 by linarith
    have step: "pipe_write p src nchars i = pipe_write ?p src nchars (i + 1)"
      using True 1(2,4) by (subst pipe_write.simps) (simp add: write1_def Let_def)
    have xs: "take (nat (nchars - i)) (drop (nat i) src)
        = src ! nat i # take (nat (nchars - (i + 1))) (drop (nat (i + 1)) src)"
    proof -
      have "nat (nchars - i) = Suc (nat (nchars - (i + 1)))" "nat (i + 1) = Suc (nat i)"
        using True 1(2) by auto
      then show ?thesis by (simp add: Cons_nth_drop_Suc [OF lt, symmetric])
    qed
    have ok: "pipe_ok ?p" using 1(5) by (rule pipe_ok_write1)
    have p: "p\<lparr>buffer := (buffer p)[writer p := src ! nat i],
        writer := (writer p + 1) mod PIPE_SIZE, full := ((writer p + 1) mod PIPE_SIZE = reader p)\<rparr> = ?p"
      by (simp add: write1_def Let_def)
    have "\<not> (i < 0 \<or> int (length src) \<le> i)" using True 1(2,4) by linarith
    note IH = 1(1) [OF True this refl, unfolded p]
    have IH: "pipe_write ?p src nchars (i + 1) =
      (let xs = take (nat (nchars - (i + 1))) (drop (nat (i + 1)) src); q = ring.fill xs ?p
       in Some (i + 1 + int (length (contents q)) - int (length (contents ?p)), q))"
      using True 1(2,4) ok by (intro IH) simp_all
    have "length (contents ?p) = Suc (length (contents p))"
      using contents_write1 [OF 1(5)] True by simp
    then show ?thesis using True by (simp add: step IH xs Let_def)
  qed
qed

lemma pipe_read_drain:
  assumes "0 \<le> i" "i \<le> nchars"
  shows "pipe_read p nchars i =
    (let (xs, q) = ring.drain (nat (nchars - i)) p
     in Some (i + int (length xs), zip (map (\<lambda>k. i + int k) [0..<length xs]) xs, q))"
  using assms
proof (induction p nchars i rule: pipe_read.induct)
  case (1 p nchars i)
  show ?case
  proof (cases "i < nchars \<and> can_read p")
    case False
    then have "pipe_read p nchars i = Some (i, [], p)" by (subst pipe_read.simps) (simp only: if_False)
    then show ?thesis using False 1(2,3) by (cases "nat (nchars - i)") auto
  next
    case True
    obtain xs q where d: "ring.drain (nat (nchars - (i + 1))) (read1 p) = (xs, q)" by fastforce
    have IH: "pipe_read (read1 p) nchars (i + 1) =
        Some (i + 1 + int (length xs), zip (map (\<lambda>k. i + 1 + int k) [0..<length xs]) xs, q)"
    proof -
      have "\<not> i < 0" using 1(2) by simp
      note IH = 1(1) [OF True this refl, folded read1_def]
      show ?thesis using True 1(2) d by (subst IH) simp_all
    qed
    have n: "nat (nchars - i) = Suc (nat (nchars - (i + 1)))" using True by linarith
    have idx: "map (\<lambda>k. i + int k) [0..<Suc (length xs)]
        = i # map (\<lambda>k. i + 1 + int k) [0..<length xs]"
      by (simp add: upt_conv_Cons map_Suc_upt [symmetric] algebra_simps del: upt_Suc)
    have "pipe_read p nchars i = Some (i + 1 + int (length xs),
        (i, buffer p ! reader p) # zip (map (\<lambda>k. i + 1 + int k) [0..<length xs]) xs, q)"
      using True 1(2) IH by (subst pipe_read.simps) (simp add: read1_def)
    then show ?thesis using True d by (simp add: n idx del: upt_Suc)
  qed
qed

section \<open>Properties\<close>

text \<open>An empty pipe over a zeroed buffer, its ends about to wrap, for examples.\<close>

definition sample_pipe :: pipe where
  "sample_pipe = \<lparr>buffer = replicate PIPE_SIZE 0, reader = 4095, writer = 4095, full = False,
     reader_pid = 0, writer_pid = 0\<rparr>"

lemma sample_pipe_ok: "pipe_ok sample_pipe" "contents sample_pipe = []"
  by (simp_all add: pipe_ok_def sample_pipe_def contents_def pipe_count_def PIPE_SIZE_def)

lemma pipe_reset_empty:
  "length (buffer p) = PIPE_SIZE \<Longrightarrow> pipe_ok (pipe_reset p) \<and> contents (pipe_reset p) = []"
  by (simp add: pipe_ok_def pipe_reset_def contents_def pipe_count_def PIPE_SIZE_def)

text \<open>
  C21: Writing to a pipe.  The loop counter is not initialised in the code and starts at whatever \<open>i0\<close>
  the stack holds.  From 0, \<open>pipe_write\<close> appends to the queue the pipe stands for as many of the
  \<open>nchars\<close> bytes as there is room for, wherever the two ends of the ring stand, and returns their
  number.  From another counter it appends as many of the bytes from position \<open>i0\<close> on as there is room
  for and returns \<open>i0\<close> plus their number; a negative counter makes it read outside the array unless
  there is nothing to do.  The ring stays well formed.
\<close>

theorem pipe_write_appends:
  assumes "pipe_ok p" "nchars \<le> int (length src)"
  shows "if i0 < 0 \<and> i0 < nchars \<and> \<not> full p then pipe_write p src nchars i0 = None
    else let moved = min (nat (nchars - i0)) (PIPE_SIZE - length (contents p))
      in \<exists>q. pipe_write p src nchars i0 = Some (i0 + int moved, q)
        \<and> pipe_ok q \<and> contents q = contents p @ take moved (drop (nat i0) src)"
proof (cases "i0 < nchars \<and> \<not> full p")
  case False
  then have "pipe_write p src nchars i0 = Some (i0, p)" by (subst pipe_write.simps) (simp only: if_False)
  moreover have "min (nat (nchars - i0)) (PIPE_SIZE - length (contents p)) = 0"
    using False full_contents [OF assms(1)] by auto
  ultimately show ?thesis using False assms(1) by (auto simp: Let_def)
next
  case True
  show ?thesis
  proof (cases "i0 < 0")
    case neg: True
    then show ?thesis using True by (subst pipe_write.simps) simp
  next
    case False
    let ?xs = "take (nat (nchars - i0)) (drop (nat i0) src)"
    let ?q = "ring.fill ?xs p"
    define moved where "moved = min (nat (nchars - i0)) (PIPE_SIZE - length (contents p))"
    have q: "pipe_ok ?q" "contents ?q = contents p @ take moved (drop (nat i0) src)"
      using ring.fill_elems [OF assms(1), of ?xs] by (simp_all add: moved_def min.commute)
    have "moved \<le> length (drop (nat i0) src)" using assms(2) False by (simp add: moved_def)
    then have "length (contents ?q) = length (contents p) + moved" unfolding q(2) by simp
    then have "pipe_write p src nchars i0 = Some (i0 + int moved, ?q)"
      using pipe_write_fill [of i0 nchars src p] assms True False by (simp add: Let_def)
    then show ?thesis using q False by (simp add: moved_def [symmetric] Let_def del: length_contents)
  qed
qed

lemma pipe_write_appends_witness:
  "(\<exists>q. pipe_write sample_pipe [7, 8, 9] 2 0 = Some (2, q) \<and> contents q = [7, 8])
    \<and> (\<exists>q. pipe_write sample_pipe [7, 8, 9] 2 1 = Some (2, q) \<and> contents q = [8])"
  using pipe_write_appends [OF sample_pipe_ok(1), of 2 "[7, 8, 9]" 0]
    pipe_write_appends [OF sample_pipe_ok(1), of 2 "[7, 8, 9]" 1]
  by (simp only: sample_pipe_ok(2)) (auto simp: PIPE_SIZE_def Let_def)

text \<open>
  C22: Reading from a pipe.  The loop counter starts at whatever \<open>i0\<close> the stack holds.  From 0,
  \<open>pipe_read\<close> takes the first \<open>nchars\<close> bytes of the queue, or all there are, stores them in the caller's
  buffer from its start in the order in which they were written, and returns their number; the others
  stay.  From another counter it takes at most \<open>nchars - i0\<close> bytes, stores them from position \<open>i0\<close> on
  and returns \<open>i0\<close> plus their number; a negative counter makes it write outside the buffer unless there
  is nothing to do.
\<close>

theorem pipe_read_takes:
  assumes "pipe_ok p"
  shows "if i0 < 0 \<and> i0 < nchars \<and> contents p \<noteq> [] then pipe_read p nchars i0 = None
    else let moved = min (nat (nchars - i0)) (length (contents p))
      in \<exists>q. pipe_read p nchars i0 =
          Some (i0 + int moved, zip (map (\<lambda>k. i0 + int k) [0..<moved]) (take moved (contents p)), q)
        \<and> pipe_ok q \<and> contents q = drop moved (contents p)"
proof (cases "i0 < nchars \<and> can_read p")
  case False
  then have "pipe_read p nchars i0 = Some (i0, [], p)" by (subst pipe_read.simps) (simp only: if_False)
  moreover have "min (nat (nchars - i0)) (length (contents p)) = 0"
    using False can_read_contents [OF assms] by (auto simp del: length_contents)
  ultimately show ?thesis using False assms can_read_contents [OF assms] by (auto simp: Let_def simp del: length_contents)
next
  case True
  show ?thesis
  proof (cases "i0 < 0")
    case neg: True
    then show ?thesis using True can_read_contents [OF assms] by (subst pipe_read.simps) simp
  next
    case False
    define moved where "moved = min (nat (nchars - i0)) (length (contents p))"
    obtain xs q where d: "ring.drain (nat (nchars - i0)) p = (xs, q)" by fastforce
    then have q: "pipe_ok q" "xs = take moved (contents p)" "contents q = drop moved (contents p)"
      using ring.drain_elems [OF assms, of "nat (nchars - i0)"]
      by (simp_all add: moved_def min_def)
    then have "length xs = moved" by (simp add: moved_def)
    then have "pipe_read p nchars i0 = Some (i0 + int moved, zip (map (\<lambda>k. i0 + int k) [0..<moved]) xs, q)"
      using pipe_read_drain [of i0 nchars p] True False d by simp
    then show ?thesis using q False by (simp add: moved_def [symmetric] Let_def del: length_contents)
  qed
qed

lemma pipe_read_takes_witness:
  "\<exists>q. pipe_read (write1 8 (write1 7 sample_pipe)) 1 0 = Some (1, [(0, 7)], q) \<and> contents q = [8]"
proof -
  let ?p = "write1 8 (write1 7 sample_pipe)"
  have 1: "\<not> full sample_pipe" "\<not> full (write1 7 sample_pipe)"
    by (simp_all add: sample_pipe_def write1_def PIPE_SIZE_def)
  have c: "contents ?p = [7, 8]"
    using contents_write1 [OF sample_pipe_ok(1) 1(1), of 7]
      contents_write1 [OF pipe_ok_write1 [OF sample_pipe_ok(1)] 1(2), of 8] sample_pipe_ok(2) by simp
  show ?thesis
    using pipe_read_takes [OF pipe_ok_write1 [OF pipe_ok_write1 [OF sample_pipe_ok(1)]], of 0 1 8 7]
    unfolding c by (auto simp: Let_def)
qed

text \<open>
  The loop counter is not initialised in the code.  When the stack happens to hold a value \<open>i0\<close> of
  at least \<open>nchars\<close>, both operations move nothing and yet return \<open>i0\<close>, more than was asked for; when
  it holds a negative value the first access is outside the caller's buffer.
\<close>

lemma pipe_counter_uninitialised:
  assumes "pipe_ok p" "can_read p" "\<not> full p"
  shows "(nchars \<le> i0 \<longrightarrow> pipe_read p nchars i0 = Some (i0, [], p) \<and> pipe_write p src nchars i0 = Some (i0, p))
    \<and> (i0 < 0 \<and> i0 < nchars \<longrightarrow> pipe_read p nchars i0 = None \<and> pipe_write p src nchars i0 = None)"
  using assms by (simp add: pipe_read.simps [of p] pipe_write.simps [of p])

lemma pipe_counter_uninitialised_witness:
  "pipe_read (write1 7 sample_pipe) 1 0x20000000 = Some (0x20000000, [], write1 7 sample_pipe)
   \<and> pipe_write (write1 7 sample_pipe) [1, 2] 2 (-1) = None"
proof -
  have "pipe_ok (write1 7 sample_pipe)" "can_read (write1 7 sample_pipe)" "\<not> full (write1 7 sample_pipe)"
    using pipe_ok_write1 [OF sample_pipe_ok(1)]
    by (simp_all add: sample_pipe_def write1_def PIPE_SIZE_def can_read_def)
  from pipe_counter_uninitialised [OF this, of 1 "0x20000000" "[]"]
    pipe_counter_uninitialised [OF this, of 2 "-1" "[1, 2]"]
  show ?thesis by simp
qed

end
