(* ===== verification/Kernel_State.thy ===== *)
theory Kernel_State
  imports Fs2_File Pipe
begin

text \<open>
  The state of the kernel (\<^verbatim>\<open>kernel/hilevel.c\<close>, \<^verbatim>\<open>kernel/hilevel.h\<close>, \<^verbatim>\<open>kernel/file.h\<close>) and its
  general helpers.  Objects the kernel gets from \<open>malloc\<close> live in \<open>heap\<close>, by address; using an
  address that is not allocated is undefined (\<open>None\<close>).  User memory, including the stacks, is the
  flat byte array \<open>mem\<close>.  Some fields have no counterpart in the C globals: \<open>heap\<close> and \<open>mem\<close>, the
  line \<open>uart0\<close> and the flag \<open>halted\<close>, which is set when \<open>halt()\<close> has entered its endless loop.
\<close>

definition PCB_SIZE :: nat where "PCB_SIZE = 0x20"

definition STACK_BYTES :: nat where "STACK_BYTES = 4 * 0x400"

datatype status = STATUS_CREATED | STATUS_READY | STATUS_EXECUTING | STATUS_WAITING | STATUS_TERMINATED

record ctx =
  cpsr :: u32
  pc :: u32
  gpr :: "u32 list"
  sp :: u32
  lr :: u32

record semwait =
  sw_id :: u32
  sw_x :: u32

datatype file_type = FT_UART | FT_KERN | FT_PIPE | FT_FILE

datatype fmode = FM_NULL | FM_R | FM_W | FM_RW

record fdte =
  open_count :: int
  fd_type :: file_type
  fd_mode :: fmode
  fd_id :: u32
  fd_cursor :: u32

text \<open>\<open>age\<close> exists only when the kernel is configured with \<open>SCHEDULE_AGES\<close>.\<close>

record pcb =
  pid :: int
  status :: status
  base_priority :: int
  age :: int
  waiting :: u32
  stack :: u32
  fdt :: "int list"
  wd :: "byte list"
  pctx :: ctx

text \<open>What an allocated block holds; \<open>Raw n\<close> is memory of \<open>n\<close> bytes not yet written.\<close>

datatype obj = Raw nat | Fdte fdte | Pipe pipe | Semwait semwait | Str "byte list"

record kstate =
  pcbs :: "pcb list"
  pcballoc :: u32
  current :: int
  current_runtime :: int
  sems :: "u32 list"
  pipes :: "u32 list"
  openft :: "u32 list"
  vol :: fs2_volume
  heap :: "u32 \<rightharpoonup> obj"
  mem :: "u32 \<Rightarrow> byte"
  uart0 :: "byte list uart"
  halted :: bool

text \<open>
  The surroundings of the kernel.  \<open>malloc_at\<close> is the allocator of the C library: the address it
  chooses, 0 when there is no memory; \<open>malloc_room n\<close> is the number of bytes a block of \<open>malloc(n)\<close>
  really has.  The other fields are what uninitialised variables hold: \<open>n\<close> and \<open>i\<close> of
  \<open>fs2_add_dir_entry\<close>, \<open>i\<close> of the pipe loops, fresh memory read as a counter or as a pipe, and the
  local iblock of \<open>fs2_block_dump\<close>.
\<close>

record env =
  malloc_at :: "(u32 \<rightharpoonup> obj) \<Rightarrow> nat \<Rightarrow> u32"
  malloc_room :: "nat \<Rightarrow> nat"
  junk_n :: u32
  junk_i :: u32
  junk_pipe_i :: int
  junk_count :: int
  junk_pipe :: pipe
  junk_iblock :: fs2_iblock

text \<open>What the kernel relies on: a block handed out is not in use, and is as long as asked.\<close>

definition malloc_ok :: "env \<Rightarrow> bool" where
  "malloc_ok E \<longleftrightarrow> (\<forall>h n. malloc_at E h n = 0 \<or> h (malloc_at E h n) = None)
     \<and> (\<forall>n. n \<le> malloc_room E n)"

definition malloc :: "env \<Rightarrow> kstate \<Rightarrow> nat \<Rightarrow> u32 \<times> kstate" where
  "malloc E k n =
     (let a = malloc_at E (heap k) n
      in (a, if a = 0 then k else k\<lparr>heap := (heap k)(a \<mapsto> Raw n)\<rparr>))"

definition free :: "kstate \<Rightarrow> u32 \<Rightarrow> kstate option" where
  "free k a =
     (if a = 0 then Some k
      else case heap k a of None \<Rightarrow> None | Some _ \<Rightarrow> Some (k\<lparr>heap := (heap k)(a := None)\<rparr>))"

definition store :: "u32 \<Rightarrow> obj \<Rightarrow> kstate \<Rightarrow> kstate" where
  "store a x k = k\<lparr>heap := (heap k)(a \<mapsto> x)\<rparr>"

definition load_fdte :: "kstate \<Rightarrow> u32 \<Rightarrow> fdte option" where
  "load_fdte k a = (case heap k a of Some (Fdte f) \<Rightarrow> Some f | _ \<Rightarrow> None)"

definition load_pipe :: "kstate \<Rightarrow> u32 \<Rightarrow> pipe option" where
  "load_pipe k a = (case heap k a of Some (Pipe p) \<Rightarrow> Some p | _ \<Rightarrow> None)"

definition load_semwait :: "kstate \<Rightarrow> u32 \<Rightarrow> semwait option" where
  "load_semwait k a = (case heap k a of Some (Semwait s) \<Rightarrow> Some s | _ \<Rightarrow> None)"

definition load_str :: "kstate \<Rightarrow> u32 \<Rightarrow> byte list option" where
  "load_str k a = (case heap k a of Some (Str s) \<Rightarrow> Some s | _ \<Rightarrow> None)"

section \<open>The current process\<close>

abbreviation cur :: "kstate \<Rightarrow> nat" where
  "cur k \<equiv> nat (current k)"

abbreviation cpcb :: "kstate \<Rightarrow> pcb" where
  "cpcb k \<equiv> pcbs k ! cur k"

definition upd_pcb :: "nat \<Rightarrow> (pcb \<Rightarrow> pcb) \<Rightarrow> kstate \<Rightarrow> kstate" where
  "upd_pcb i f k = k\<lparr>pcbs := (pcbs k)[i := f (pcbs k ! i)]\<rparr>"

definition set_fdt :: "nat \<Rightarrow> int \<Rightarrow> kstate \<Rightarrow> kstate" where
  "set_fdt fd v k = upd_pcb (cur k) (\<lambda>p. p\<lparr>fdt := (fdt p)[fd := v]\<rparr>) k"

definition set_reg :: "nat \<Rightarrow> u32 \<Rightarrow> ctx \<Rightarrow> ctx" where
  "set_reg r v c = c\<lparr>gpr := (gpr c)[r := v]\<rparr>"

section \<open>User memory\<close>

definition mem_bytes :: "(u32 \<Rightarrow> byte) \<Rightarrow> u32 \<Rightarrow> nat \<Rightarrow> byte list" where
  "mem_bytes m a n = map (\<lambda>k. m (a + word_of_nat k)) [0..<n]"

primrec mem_put :: "u32 \<Rightarrow> byte list \<Rightarrow> (u32 \<Rightarrow> byte) \<Rightarrow> u32 \<Rightarrow> byte" where
  "mem_put a [] m = m"
| "mem_put a (b # bs) m = mem_put (a + 1) bs (m(a := b))"

text \<open>The C string at an address; a walk that never meets a NUL has no result.\<close>

partial_function (option) cstr_at :: "(u32 \<Rightarrow> byte) \<Rightarrow> u32 \<Rightarrow> byte list option" where
  "cstr_at m a = (if m a = 0 then Some [] else do { s \<leftarrow> cstr_at m (a + 1); Some (m a # s) })"

definition bool_reg :: "bool \<Rightarrow> u32" where
  "bool_reg b = (if b then 1 else 0)"

section \<open>Memory and console helpers\<close>

text \<open>\<open>_sbrk\<close> moves the end of the heap, \<open>brk\<close>, unless it would pass \<open>heap_end\<close>.\<close>

definition sbrk :: "u32 \<Rightarrow> u32 \<Rightarrow> int \<Rightarrow> u32 \<times> u32" where
  "sbrk heap_end brk incr =
     (let prev = brk; new = brk + word_of_int incr
      in if new > heap_end then (-1, brk) else (prev, brk + word_of_int incr))"

text \<open>The console: what is sent is logged, nothing answers by itself.\<close>

definition console :: "byte list \<Rightarrow> byte \<Rightarrow> byte list \<times> byte list" where
  "console log x = (log @ [x], [])"

definition k_putc :: "byte \<Rightarrow> kstate \<Rightarrow> kstate" where
  "k_putc c k = k\<lparr>uart0 := PL011_putc console (uart0 k) c\<rparr>"

definition k_print :: "byte list \<Rightarrow> kstate \<Rightarrow> kstate" where
  "k_print s k = fold k_putc s k"

definition k_printn :: "byte list \<Rightarrow> kstate \<Rightarrow> kstate" where
  "k_printn s k = k_putc 0x0A (k_print s k)"

definition k_puth :: "byte \<Rightarrow> kstate \<Rightarrow> kstate" where
  "k_puth x k = k\<lparr>uart0 := PL011_puth console (uart0 k) x\<rparr>"

text \<open>The loop over \<open>i = 24, 16, 8, 0\<close> prints no leading zero bytes.\<close>

fun print_int_bytes :: "u32 \<Rightarrow> nat list \<Rightarrow> bool \<Rightarrow> kstate \<Rightarrow> kstate" where
  "print_int_bytes x [] a k = k"
| "print_int_bytes x (i # js) a k =
     (let b = ucast (drop_bit i x); a' = (a \<or> b \<noteq> 0 \<or> i = 0)
      in print_int_bytes x js a' (if a' then k_puth b k else k))"

definition k_print_int :: "u32 \<Rightarrow> kstate \<Rightarrow> kstate" where
  "k_print_int x k = print_int_bytes x [24, 16, 8, 0] False (k_print (chars ''0x'') k)"

definition top_of :: "u32 \<Rightarrow> u32" where
  "top_of stk = stk + word_of_nat STACK_BYTES"

section \<open>Paths\<close>

text \<open>\<open>scratchpath\<close> and \<open>wd\<close> are arrays of 256 characters.\<close>

definition abs_path_r :: "byte list \<Rightarrow> byte list \<Rightarrow> byte list option" where
  "abs_path_r path w =
     (if path = [] then Some w
      else if hd path = slash then Some (tl path)
      else if w \<noteq> [] then
        let joined = w @ [slash] @ path
        in if length joined < 256 then Some joined else None
      else Some path)"

definition abs_path :: "kstate \<Rightarrow> u32 \<Rightarrow> byte list option" where
  "abs_path k a = do {
     path \<leftarrow> (if a = 0 then Some [] else cstr_at (mem k) a);
     abs_path_r path (wd (cpcb k))
   }"

definition fmode_from_flags :: "u8 \<Rightarrow> fmode" where
  "fmode_from_flags flags =
     (let f = flags AND 3
      in if f = 3 then FM_RW else if f = 2 then FM_W else if f = 1 then FM_R else FM_NULL)"

end
