(* ===== verification/Sched.thy ===== *)
theory Sched
  imports Kernel_State
begin

text \<open>
  Process management of \<^verbatim>\<open>kernel/hilevel.c\<close>: the allocation bitmap \<open>pcballoc\<close>, context switches, the
  two schedulers (weighted round robin, and priority ageing when \<open>SCHEDULE_AGES\<close> is set) and the
  creation of processes.  \<open>ctx\<close>, the interrupted context which the C handlers update through a
  pointer, is an argument and a result.
\<close>

fun status_num :: "status \<Rightarrow> nat" where
  "status_num STATUS_CREATED = 0"
| "status_num STATUS_READY = 1"
| "status_num STATUS_EXECUTING = 2"
| "status_num STATUS_WAITING = 3"
| "status_num STATUS_TERMINATED = 4"

text \<open>
  A shift by 32, which \<open>new_pcb_entry\<close> makes when the table is full, gives 0: what the
  register-controlled shift of the ARM does, and what \<open>drop_bit\<close> does.
\<close>

definition process_exists :: "kstate \<Rightarrow> nat \<Rightarrow> bool" where
  "process_exists k p \<longleftrightarrow> drop_bit p (pcballoc k) AND 1 \<noteq> 0"

definition process_can_run :: "kstate \<Rightarrow> nat \<Rightarrow> bool" where
  "process_can_run k p \<longleftrightarrow>
     process_exists k p \<and> status_num (status (pcbs k ! p)) < status_num STATUS_EXECUTING"

definition context_switch ::
    "nat option \<Rightarrow> nat \<Rightarrow> ctx \<Rightarrow> status \<Rightarrow> kstate \<Rightarrow> ctx \<times> kstate" where
  "context_switch from new c from_stat k =
     (let k1 = (case from of None \<Rightarrow> k
                | Some f \<Rightarrow> upd_pcb f (\<lambda>p. p\<lparr>pctx := c, status := from_stat\<rparr>) k);
          c' = pctx (pcbs k1 ! new);
          k2 = upd_pcb new (\<lambda>p. p\<lparr>status := STATUS_EXECUTING\<rparr>) k1
      in (c', k2\<lparr>current := pid (pcbs k2 ! new)\<rparr>))"

section \<open>Round robin\<close>

text \<open>
  The walk round the process table from \<open>i\<close> until an entry satisfies \<open>P\<close> or the walk is back at
  \<open>c\<close>.  \<open>next\<close> and \<open>do_sem_post\<close> share it.  The guards on the range only serve termination:
  \<open>i\<close> is reduced modulo \<open>PCB_SIZE\<close> and \<open>c\<close> is the index of the running process.
\<close>

function scan :: "(nat \<Rightarrow> bool) \<Rightarrow> nat \<Rightarrow> nat \<Rightarrow> nat" where
  "scan P c i =
     (if c < PCB_SIZE \<and> i < PCB_SIZE \<and> \<not> P i \<and> i \<noteq> c then scan P c ((i + 1) mod PCB_SIZE) else i)"
  by pat_completeness auto
termination
  by (relation "measure (\<lambda>(P, c, i). (c + PCB_SIZE - i) mod PCB_SIZE)")
     (auto simp: PCB_SIZE_def mod_if split: if_splits)

declare scan.simps [simp del]

text \<open>\<open>current_runtime\<close> is kept, and reset here, only without \<open>SCHEDULE_AGES\<close>.\<close>

definition next_ready :: "kstate \<Rightarrow> nat" where
  "next_ready k = scan (process_can_run k) (cur k) ((cur k + 1) mod PCB_SIZE)"

definition next_proc :: "ctx \<Rightarrow> status \<Rightarrow> kstate \<Rightarrow> ctx \<times> kstate" where
  "next_proc c cur_stat k =
     (let k1 = k\<lparr>current_runtime := 0\<rparr>; i = next_ready k1
      in if i \<noteq> cur k1 then context_switch (Some (cur k1)) i c cur_stat k1 else (c, k1))"

definition schedule :: "ctx \<Rightarrow> kstate \<Rightarrow> ctx \<times> kstate" where
  "schedule c k =
     (let (c1, k1) = (if current_runtime k \<ge> base_priority (cpcb k)
                      then next_proc c STATUS_READY k else (c, k))
      in (c1, k1\<lparr>current_runtime := current_runtime k1 + 1\<rparr>))"

section \<open>Priority ageing\<close>

definition aged_priority :: "pcb \<Rightarrow> int" where
  "aged_priority p = base_priority p + age p"

function age_loop :: "nat \<Rightarrow> nat \<Rightarrow> nat \<Rightarrow> kstate \<Rightarrow> nat \<times> kstate" where
  "age_loop c i new k =
     (if c < PCB_SIZE \<and> i < PCB_SIZE \<and> i \<noteq> c then
        let (new', k') =
          (if process_can_run k i then
             let k1 = upd_pcb i (\<lambda>p. p\<lparr>age := age p + 1\<rparr>) k
             in (if aged_priority (pcbs k1 ! i) > aged_priority (pcbs k1 ! new) then i else new, k1)
           else (new, k))
        in age_loop c ((i + 1) mod PCB_SIZE) new' k'
      else (new, k))"
  by pat_completeness auto
termination
  by (relation "measure (\<lambda>(c, i, new, k). (c + PCB_SIZE - i) mod PCB_SIZE)")
     (auto simp: PCB_SIZE_def mod_if split: if_splits)

declare age_loop.simps [simp del]

definition schedule_ages :: "ctx \<Rightarrow> kstate \<Rightarrow> ctx \<times> kstate" where
  "schedule_ages c k =
     (let (new, k1) = age_loop (cur k) ((cur k + 1) mod PCB_SIZE) (cur k) k
      in if new \<noteq> cur k
         then context_switch (Some (cur k)) new c STATUS_READY (upd_pcb new (\<lambda>p. p\<lparr>age := 0\<rparr>) k1)
         else (c, k1))"

section \<open>New processes\<close>

function first_unallocated :: "kstate \<Rightarrow> nat \<Rightarrow> nat" where
  "first_unallocated k i =
     (if process_exists k i \<and> i < PCB_SIZE then first_unallocated k (i + 1) else i)"
  by pat_completeness auto
termination
  by (relation "measure (\<lambda>(k, i). PCB_SIZE - i)") auto

declare first_unallocated.simps [simp del]

definition new_pcb_entry :: "kstate \<Rightarrow> nat \<times> kstate" where
  "new_pcb_entry k =
     (let i = first_unallocated k 0
      in (i, if i \<noteq> PCB_SIZE then k\<lparr>pcballoc := pcballoc k OR push_bit i 1\<rparr> else k))"

definition zero_ctx :: ctx where
  "zero_ctx = \<lparr>cpsr = 0, pc = 0, gpr = replicate 13 0, sp = 0, lr = 0\<rparr>"

text \<open>The result is the index of the entry, or \<open>None\<close> for \<open>NULL\<close>.\<close>

definition new_user_proc :: "env \<Rightarrow> u32 \<Rightarrow> int \<Rightarrow> kstate \<Rightarrow> nat option \<times> kstate" where
  "new_user_proc E entry priority k =
     (let (i, k1) = new_pcb_entry k
      in if i = PCB_SIZE then (None, k1)
         else
           let (stk, k2) = malloc E k1 STACK_BYTES;
               p = \<lparr>pid = int i, status = STATUS_CREATED, base_priority = priority, age = 0,
                    waiting = 0, stack = stk, fdt = [0, 1, 2] @ replicate 29 (-1), wd = [],
                    pctx = zero_ctx\<lparr>cpsr := 0x50, pc := entry, sp := top_of stk\<rparr>\<rparr>
           in (Some i, upd_pcb i (\<lambda>_. p) k2))"

section \<open>The process table\<close>

lemma process_exists_bit: "process_exists k p \<longleftrightarrow> bit (pcballoc k) p"
  by (simp add: process_exists_def and_one_eq bit_iff_odd_drop_bit [of "pcballoc k"] odd_iff_mod_2_eq_one)

lemma process_exists_less: "process_exists k p \<Longrightarrow> p < PCB_SIZE"
  unfolding process_exists_bit using bit_imp_le_length [of "pcballoc k" p] by (simp add: PCB_SIZE_def)

text \<open>Every entry in use carries its own index.\<close>

definition procs_ok :: "kstate \<Rightarrow> bool" where
  "procs_ok k \<longleftrightarrow> length (pcbs k) = PCB_SIZE \<and> 0 \<le> current k \<and> current k < int PCB_SIZE
     \<and> (\<forall>i < PCB_SIZE. process_exists k i \<longrightarrow> pid (pcbs k ! i) = int i)"

text \<open>The state in which user code runs: the current process is the only one marked as executing.\<close>

definition running_ok :: "kstate \<Rightarrow> bool" where
  "running_ok k \<longleftrightarrow> procs_ok k \<and> process_exists k (cur k)
     \<and> (\<forall>i < PCB_SIZE. process_exists k i \<longrightarrow>
          (status (pcbs k ! i) = STATUS_EXECUTING \<longleftrightarrow> i = cur k))"

lemma process_can_run_iff:
  "process_can_run k p \<longleftrightarrow>
     process_exists k p \<and> status (pcbs k ! p) \<in> {STATUS_CREATED, STATUS_READY}"
  by (cases "status (pcbs k ! p)") (simp_all add: process_can_run_def)

lemma upd_pcb_sel [ker_simps, simp]:
  "pcballoc (upd_pcb i f k) = pcballoc k" "current (upd_pcb i f k) = current k"
  "current_runtime (upd_pcb i f k) = current_runtime k" "sems (upd_pcb i f k) = sems k"
  "pipes (upd_pcb i f k) = pipes k" "openft (upd_pcb i f k) = openft k"
  "vol (upd_pcb i f k) = vol k" "heap (upd_pcb i f k) = heap k" "mem (upd_pcb i f k) = mem k"
  "uart0 (upd_pcb i f k) = uart0 k" "halted (upd_pcb i f k) = halted k"
  "pcbs (upd_pcb i f k) = (pcbs k)[i := f (pcbs k ! i)]"
  by (simp_all add: upd_pcb_def)

lemma procs_ok_less: "procs_ok k \<Longrightarrow> cur k < PCB_SIZE" "procs_ok k \<Longrightarrow> length (pcbs k) = PCB_SIZE"
  by (auto simp: procs_ok_def)

section \<open>The walk round the table\<close>

text \<open>The entries after \<open>c\<close>, in the order in which they are visited.\<close>

definition after :: "nat \<Rightarrow> nat list" where
  "after c = map (\<lambda>d. (c + 1 + d) mod PCB_SIZE) [0..<PCB_SIZE - 1]"

lemma scan_after:
  assumes "c < PCB_SIZE" "d < PCB_SIZE"
  shows "scan P c ((c + 1 + d) mod PCB_SIZE) =
    (case find P (map (\<lambda>e. (c + 1 + e) mod PCB_SIZE) [d..<PCB_SIZE - 1]) of Some j \<Rightarrow> j | None \<Rightarrow> c)"
  using assms(2)
proof (induction "PCB_SIZE - 1 - d" arbitrary: d)
  case 0
  then have "d = PCB_SIZE - 1" using 0 by simp
  then have "(c + 1 + d) mod PCB_SIZE = c" using assms by (simp add: PCB_SIZE_def)
  then show ?case using \<open>d = PCB_SIZE - 1\<close> by (subst scan.simps) simp
next
  case (Suc n)
  then have d: "d < PCB_SIZE - 1" by simp
  have ne: "(c + 1 + d) mod PCB_SIZE \<noteq> c" using d assms by (auto simp: PCB_SIZE_def mod_if)
  have lt: "(c + 1 + d) mod PCB_SIZE < PCB_SIZE" by (simp add: PCB_SIZE_def)
  have up: "[d..<PCB_SIZE - 1] = d # [Suc d..<PCB_SIZE - 1]" using d by (simp add: upt_conv_Cons)
  have nxt: "((c + 1 + d) mod PCB_SIZE + 1) mod PCB_SIZE = (c + 1 + Suc d) mod PCB_SIZE"
    by (simp add: mod_simps)
  have IH: "scan P c ((c + 1 + Suc d) mod PCB_SIZE) =
    (case find P (map (\<lambda>e. (c + 1 + e) mod PCB_SIZE) [Suc d..<PCB_SIZE - 1]) of Some j \<Rightarrow> j | None \<Rightarrow> c)"
    using Suc d by (intro Suc.hyps(1)) auto
  show ?case
  proof (cases "P ((c + 1 + d) mod PCB_SIZE)")
    case True
    then have "find P (map (\<lambda>e. (c + 1 + e) mod PCB_SIZE) [d..<PCB_SIZE - 1]) = Some ((c + 1 + d) mod PCB_SIZE)"
      unfolding up by simp
    then show ?thesis using True by (subst scan.simps) simp
  next
    case False
    then have "scan P c ((c + 1 + d) mod PCB_SIZE) = scan P c ((c + 1 + Suc d) mod PCB_SIZE)"
      using ne lt assms(1) nxt by (subst scan.simps) simp
    moreover have "find P (map (\<lambda>e. (c + 1 + e) mod PCB_SIZE) [d..<PCB_SIZE - 1])
        = find P (map (\<lambda>e. (c + 1 + e) mod PCB_SIZE) [Suc d..<PCB_SIZE - 1])"
      unfolding up using False by simp
    ultimately show ?thesis using IH by simp
  qed
qed

lemma scan_find:
  "c < PCB_SIZE \<Longrightarrow> scan P c ((c + 1) mod PCB_SIZE) = (case find P (after c) of Some j \<Rightarrow> j | None \<Rightarrow> c)"
  using scan_after [of c 0 P] by (simp add: after_def PCB_SIZE_def)

lemma set_after: "c < PCB_SIZE \<Longrightarrow> set (after c) = {i. i < PCB_SIZE \<and> i \<noteq> c}"
proof (intro equalityI subsetI)
  fix i assume c: "c < PCB_SIZE" and i: "i \<in> {i. i < PCB_SIZE \<and> i \<noteq> c}"
  let ?d = "(i + PCB_SIZE - c - 1) mod PCB_SIZE"
  have "?d < PCB_SIZE - 1" "i = (c + 1 + ?d) mod PCB_SIZE"
    using i c by (auto simp: PCB_SIZE_def mod_if)
  then show "i \<in> set (after c)" unfolding after_def by auto
next
  fix i assume "c < PCB_SIZE" "i \<in> set (after c)"
  then show "i \<in> {i. i < PCB_SIZE \<and> i \<noteq> c}" by (auto simp: after_def PCB_SIZE_def mod_if split: if_splits)
qed

lemma next_ready_find:
  "procs_ok k \<Longrightarrow>
   next_ready k = (case find (process_can_run k) (after (cur k)) of Some j \<Rightarrow> j | None \<Rightarrow> cur k)"
  unfolding next_ready_def by (rule scan_find) (rule procs_ok_less)

lemma next_ready_cases:
  assumes "procs_ok k"
  obtains (none) "next_ready k = cur k" "\<And>i. i < PCB_SIZE \<Longrightarrow> i \<noteq> cur k \<Longrightarrow> \<not> process_can_run k i"
  | (some) "next_ready k \<noteq> cur k" "next_ready k < PCB_SIZE" "process_can_run k (next_ready k)"
proof (cases "find (process_can_run k) (after (cur k))")
  case None
  moreover have "\<not> process_can_run k i" if "i < PCB_SIZE" "i \<noteq> cur k" for i
    using None that set_after [OF procs_ok_less(1) [OF assms]] by (auto simp: find_None_iff)
  ultimately show ?thesis using none assms by (simp add: next_ready_find)
next
  case (Some j)
  then have "j \<in> set (after (cur k))" "process_can_run k j"
    by (auto simp: find_Some_iff)
  then show ?thesis
    using some assms set_after [OF procs_ok_less(1) [OF assms]] Some by (simp add: next_ready_find)
qed

section \<open>The contract of a scheduler\<close>

text \<open>No process but the current one is marked as executing.\<close>

definition others_idle :: "kstate \<Rightarrow> bool" where
  "others_idle k \<longleftrightarrow> procs_ok k
     \<and> (\<forall>i < PCB_SIZE. process_exists k i \<longrightarrow> i \<noteq> cur k \<longrightarrow> status (pcbs k ! i) \<noteq> STATUS_EXECUTING)"

lemma running_others_idle: "running_ok k \<Longrightarrow> others_idle k"
  by (simp add: running_ok_def others_idle_def)

text \<open>The part of a process table the scheduler's bookkeeping must leave alone.\<close>

definition same_procs :: "kstate \<Rightarrow> kstate \<Rightarrow> bool" where
  "same_procs k k' \<longleftrightarrow> pcballoc k' = pcballoc k \<and> current k' = current k
     \<and> length (pcbs k') = length (pcbs k)
     \<and> (\<forall>i. pid (pcbs k' ! i) = pid (pcbs k ! i) \<and> status (pcbs k' ! i) = status (pcbs k ! i)
          \<and> pctx (pcbs k' ! i) = pctx (pcbs k ! i))"

lemma same_procs_refl [simp]: "same_procs k k"
  by (simp add: same_procs_def)

lemma same_procs_exists: "same_procs k k' \<Longrightarrow> process_exists k' = process_exists k"
  by (simp add: same_procs_def process_exists_def fun_eq_iff)

lemma same_procs_can_run: "same_procs k k' \<Longrightarrow> process_can_run k' = process_can_run k"
  by (simp add: same_procs_def process_exists_def process_can_run_def fun_eq_iff)

lemma same_procs_ok: "same_procs k k' \<Longrightarrow> procs_ok k' = procs_ok k"
  by (simp add: same_procs_def process_exists_def procs_ok_def)

text \<open>
  A scheduler chooses a process that can run, or the current one, and does some bookkeeping of its
  own; what it gains is that a switch leaves exactly the chosen process executing and keeps the
  interrupted context where the next switch to that process finds it.
\<close>

locale scheduler =
  fixes pick :: "kstate \<Rightarrow> nat"
    and prep :: "kstate \<Rightarrow> kstate"
  assumes pick_runs: "\<lbrakk> procs_ok k; pick k \<noteq> cur k \<rbrakk> \<Longrightarrow> process_can_run k (pick k)"
    and prep_frame: "same_procs k (prep k)"
begin

definition switch :: "ctx \<Rightarrow> status \<Rightarrow> kstate \<Rightarrow> ctx \<times> kstate" where
  "switch c st k =
     (if pick k \<noteq> cur k then context_switch (Some (cur k)) (pick k) c st (prep k) else (c, prep k))"

lemma switch_stay: "pick k = cur k \<Longrightarrow> switch c st k = (c, prep k)"
  by (simp add: switch_def)

lemma switch_to:
  assumes k: "procs_ok k" and i: "pick k = i" "i \<noteq> cur k" and s: "switch c st k = (c', k')"
  shows "c' = pctx (pcbs k ! i)" "current k' = int i" "pcballoc k' = pcballoc k" "procs_ok k'"
    "pctx (pcbs k' ! cur k) = c" "status (pcbs k' ! cur k) = st"
    "status (pcbs k' ! i) = STATUS_EXECUTING"
    "\<And>j. j \<noteq> i \<Longrightarrow> j \<noteq> cur k \<Longrightarrow> status (pcbs k' ! j) = status (pcbs k ! j)
       \<and> pctx (pcbs k' ! j) = pctx (pcbs k ! j)"
proof -
  have lt: "cur k < length (pcbs k)" "i < length (pcbs k)" "process_exists k i" "i < PCB_SIZE"
    using procs_ok_less [OF k] pick_runs [OF k] i process_exists_less
    by (auto simp: process_can_run_iff)
  note f = prep_frame [of k, unfolded same_procs_def]
  have p: "pid (pcbs k ! i) = int i" using k lt by (simp add: procs_ok_def)
  have ctx: "c' = pctx (pcbs k ! i)"
    and k': "k' = (upd_pcb i (\<lambda>p. p\<lparr>status := STATUS_EXECUTING\<rparr>)
      (upd_pcb (cur k) (\<lambda>p. p\<lparr>pctx := c, status := st\<rparr>) (prep k)))\<lparr>current := int i\<rparr>"
    using s i lt f p by (auto simp: switch_def context_switch_def Let_def nth_list_update)
  show "c' = pctx (pcbs k ! i)" "current k' = int i" "pcballoc k' = pcballoc k"
    "pctx (pcbs k' ! cur k) = c" "status (pcbs k' ! cur k) = st"
    "status (pcbs k' ! i) = STATUS_EXECUTING"
    using ctx k' f i lt by (simp_all add: nth_list_update)
  show "status (pcbs k' ! j) = status (pcbs k ! j) \<and> pctx (pcbs k' ! j) = pctx (pcbs k ! j)"
    if "j \<noteq> i" "j \<noteq> cur k" for j
    using k' f that by (simp add: nth_list_update)
  have "pid (pcbs k' ! j) = pid (pcbs k ! j)" for j
    using k' f lt by (cases "j = i"; cases "j = cur k") (simp_all add: nth_list_update)
  then show "procs_ok k'"
    using k k' f lt by (simp add: procs_ok_def process_exists_def)
qed

lemma switch_running:
  assumes "others_idle k" "pick k \<noteq> cur k" "st \<noteq> STATUS_EXECUTING"
  shows "running_ok (snd (switch c st k))"
proof -
  obtain c' k' where s: "switch c st k = (c', k')" by fastforce
  have k: "procs_ok k" using assms(1) by (simp add: others_idle_def)
  note sw = switch_to [OF k refl assms(2) s]
  have e: "process_exists k' = process_exists k"
    using sw(3) by (simp add: process_exists_def fun_eq_iff)
  have r: "process_exists k (pick k)"
    using pick_runs [OF k assms(2)] by (simp add: process_can_run_iff)
  have "(status (pcbs k' ! i) = STATUS_EXECUTING) = (i = pick k)"
    if "i < PCB_SIZE" "process_exists k i" for i
    using assms that sw(6,7) sw(8) [of i]
    by (cases "i = pick k"; cases "i = cur k") (auto simp: others_idle_def)
  then show ?thesis using s sw(2,4) e r by (simp add: running_ok_def)
qed

lemma switch_stays_running:
  "running_ok k \<Longrightarrow> st \<noteq> STATUS_EXECUTING \<Longrightarrow> running_ok (snd (switch c st k))"
proof (cases "pick k = cur k")
  case True
  assume "running_ok k"
  then show ?thesis
    using prep_frame [of k] True
    by (simp add: switch_stay running_ok_def same_procs_ok same_procs_exists)
       (simp add: same_procs_def)
qed (simp add: switch_running running_others_idle)

end

interpretation rr: scheduler next_ready "\<lambda>k. k\<lparr>current_runtime := 0\<rparr>"
proof
  show "process_can_run k (next_ready k)" if "procs_ok k" "next_ready k \<noteq> cur k" for k
    using that by (rule_tac next_ready_cases [of k]) auto
qed (simp add: same_procs_def)

lemma next_ready_runtime [simp]: "next_ready (k\<lparr>current_runtime := t\<rparr>) = next_ready k"
  by (simp add: next_ready_def process_can_run_def [abs_def] process_exists_def)

lemma next_proc_switch: "next_proc = rr.switch"
  by (simp add: fun_eq_iff next_proc_def rr.switch_def Let_def)

section \<open>Ageing\<close>

lemma age_loop_frame:
  "\<lbrakk> length (pcbs k) = PCB_SIZE; age_loop c i new k = (new', k') \<rbrakk> \<Longrightarrow>
   same_procs k k' \<and> (new' = new \<or> process_can_run k new')"
proof (induction c i new k rule: age_loop.induct)
  case (1 c i new k)
  show ?case
  proof (cases "c < PCB_SIZE \<and> i < PCB_SIZE \<and> i \<noteq> c")
    case False
    then show ?thesis using 1(3) by (subst (asm) age_loop.simps) auto
  next
    case True
    define k1 where "k1 = (if process_can_run k i then upd_pcb i (\<lambda>p. p\<lparr>age := age p + 1\<rparr>) k else k)"
    define n1 where "n1 = (if process_can_run k i \<and> aged_priority (pcbs k1 ! i) > aged_priority (pcbs k1 ! new)
      then i else new)"
    have s: "same_procs k k1"
      using True 1(2) by (auto simp: k1_def same_procs_def nth_list_update)
    have step: "age_loop c i new k = age_loop c ((i + 1) mod PCB_SIZE) n1 k1"
      using True by (subst age_loop.simps) (simp add: k1_def n1_def Let_def)
    have "same_procs k1 k' \<and> (new' = n1 \<or> process_can_run k1 new')"
    proof (rule 1(1) [OF True refl])
      show "(n1, k1) = (if process_can_run k i
          then let k1 = upd_pcb i (\<lambda>p. p\<lparr>age := age p + 1\<rparr>) k
               in (if aged_priority (pcbs k1 ! new) < aged_priority (pcbs k1 ! i) then i else new, k1)
          else (new, k))"
        by (simp add: k1_def n1_def Let_def)
      show "length (pcbs k1) = PCB_SIZE" using 1(2) by (simp add: k1_def)
      show "age_loop c ((i + 1) mod PCB_SIZE) n1 k1 = (new', k')" using 1(3) step by simp
    qed
    then show ?thesis using s same_procs_can_run [OF s]
      by (auto simp: same_procs_def n1_def split: if_splits)
  qed
qed

definition age_choice :: "kstate \<Rightarrow> nat" where
  "age_choice k = fst (age_loop (cur k) ((cur k + 1) mod PCB_SIZE) (cur k) k)"

definition age_prep :: "kstate \<Rightarrow> kstate" where
  "age_prep k = (if length (pcbs k) = PCB_SIZE
     then let k1 = snd (age_loop (cur k) ((cur k + 1) mod PCB_SIZE) (cur k) k)
          in if age_choice k \<noteq> cur k then upd_pcb (age_choice k) (\<lambda>p. p\<lparr>age := 0\<rparr>) k1 else k1
     else k)"

interpretation ageing: scheduler age_choice age_prep
proof
  fix k
  obtain n k1 where l: "age_loop (cur k) ((cur k + 1) mod PCB_SIZE) (cur k) k = (n, k1)" by fastforce
  show "process_can_run k (age_choice k)" if "procs_ok k" "age_choice k \<noteq> cur k"
    using age_loop_frame [OF procs_ok_less(2) [OF that(1)] l] that(2) l by (auto simp: age_choice_def)
  show "same_procs k (age_prep k)"
  proof (cases "length (pcbs k) = PCB_SIZE")
    case True
    have a: "same_procs k1 (upd_pcb n (\<lambda>p. p\<lparr>age := 0\<rparr>) k1)"
      by (cases "n < length (pcbs k1)") (auto simp: same_procs_def nth_list_update not_less list_update_beyond)
    show ?thesis
      using age_loop_frame [OF True l] a l True
      by (auto simp: age_prep_def age_choice_def Let_def same_procs_def)
  qed (simp add: age_prep_def)
qed

lemma schedule_ages_switch:
  assumes "procs_ok k"
  shows "schedule_ages c k = ageing.switch c STATUS_READY k"
  using procs_ok_less(2) [OF assms]
  by (simp add: schedule_ages_def ageing.switch_def age_prep_def age_choice_def Let_def split_beta)

section \<open>Fairness of the round robin\<close>

definition dist_to :: "nat \<Rightarrow> kstate \<Rightarrow> nat" where
  "dist_to j k = (j + PCB_SIZE - cur k) mod PCB_SIZE"

lemma mod_dist:
  "\<lbrakk> c < PCB_SIZE; e < PCB_SIZE - 1 \<rbrakk> \<Longrightarrow> ((c + 1 + e) mod PCB_SIZE + PCB_SIZE - c) mod PCB_SIZE = e + 1"
  by (auto simp: PCB_SIZE_def mod_if)

lemma mod_dist_step:
  "\<lbrakk> c < PCB_SIZE; e \<le> f; f < PCB_SIZE - 1 \<rbrakk> \<Longrightarrow>
   ((c + 1 + f) mod PCB_SIZE + PCB_SIZE - (c + 1 + e) mod PCB_SIZE) mod PCB_SIZE = f - e"
  by (auto simp: PCB_SIZE_def mod_if)

lemma can_run_less: "process_can_run k j \<Longrightarrow> j < PCB_SIZE"
  using process_exists_less [of k j] by (auto simp: process_can_run_iff)

lemma current_cannot_run: "running_ok k \<Longrightarrow> process_can_run k j \<Longrightarrow> j \<noteq> cur k"
  using procs_ok_less(1) [of k] by (auto simp: running_ok_def process_can_run_iff)

text \<open>A switch comes strictly nearer to every process that can run.\<close>

lemma next_nearer:
  assumes k: "procs_ok k" and j: "process_can_run k j" "j \<noteq> cur k"
  shows "next_ready k \<noteq> cur k"
    and "(j + PCB_SIZE - next_ready k) mod PCB_SIZE < dist_to j k"
proof -
  let ?P = "process_can_run k"
  note c = procs_ok_less(1) [OF k]
  have "j \<in> set (after (cur k))" using set_after [OF c] j can_run_less by simp
  then obtain f where f: "f < PCB_SIZE - 1" "j = (cur k + 1 + f) mod PCB_SIZE"
    by (auto simp: after_def)
  have "find ?P (after (cur k)) \<noteq> None"
    using \<open>j \<in> _\<close> j(1) by (auto simp: find_None_iff)
  then obtain i where i: "find ?P (after (cur k)) = Some i" by blast
  then obtain e where e: "e < length (after (cur k))" "i = after (cur k) ! e" "\<forall>m<e. \<not> ?P (after (cur k) ! m)"
    by (auto simp: find_Some_iff)
  have e': "e < PCB_SIZE - 1" "i = (cur k + 1 + e) mod PCB_SIZE"
    using e(1,2) by (simp_all add: after_def)
  have "\<not> f < e"
    using e(3) f j(1) by (auto simp: after_def)
  then have ef: "e \<le> f" by simp
  have n: "next_ready k = i" using next_ready_find [OF k] i by simp
  have "i \<in> set (after (cur k))" using e(1,2) by simp
  then show "next_ready k \<noteq> cur k" using set_after [OF c] n by auto
  have "dist_to j k = f + 1"
    using mod_dist [OF c f(1)] f(2) by (simp add: dist_to_def)
  then show "(j + PCB_SIZE - next_ready k) mod PCB_SIZE < dist_to j k"
    using mod_dist_step [OF c ef f(1)] n e'(2) f(2) by simp
qed

lemma next_proc_nearer:
  assumes k: "running_ok k" and j: "process_can_run k j" and s: "next_proc c STATUS_READY k = (c', k')"
  shows "running_ok k'" and "current k' = int j \<or> process_can_run k' j \<and> dist_to j k' < dist_to j k"
proof -
  have p: "procs_ok k" using k by (simp add: running_ok_def)
  show "running_ok k'"
    using rr.switch_stays_running [OF k, of STATUS_READY c] s by (simp add: next_proc_switch)
  have "j \<noteq> cur k"
    using k j by (rule current_cannot_run)
  note nearer = next_nearer [OF p j this]
  note sw = rr.switch_to [OF p refl nearer(1) s [unfolded next_proc_switch]]
  have e: "process_exists k' = process_exists k" using sw(3) by (simp add: process_exists_def fun_eq_iff)
  show "current k' = int j \<or> process_can_run k' j \<and> dist_to j k' < dist_to j k"
  proof (cases "j = next_ready k")
    case False
    then have "process_can_run k' j"
      using j e sw(8) [OF False \<open>j \<noteq> cur k\<close>] by (simp add: process_can_run_iff)
    then show ?thesis using nearer(2) sw(2) by (simp add: dist_to_def)
  qed (use sw(2) in simp)
qed

lemma reached_within_dist:
  assumes "running_ok (ks 0)" "process_can_run (ks 0) j"
    and "\<forall>n. ks (Suc n) = snd (next_proc (cs n) STATUS_READY (ks n))"
  shows "\<exists>n. 0 < n \<and> n \<le> dist_to j (ks 0) \<and> current (ks n) = int j"
  using assms
proof (induction "dist_to j (ks 0)" arbitrary: ks cs rule: less_induct)
  case less
  obtain c' where s: "next_proc (cs 0) STATUS_READY (ks 0) = (c', ks 1)"
    using less.prems(3) by (metis One_nat_def prod.collapse)
  note step = next_proc_nearer [OF less.prems(1,2) s]
  show ?case
  proof (cases "current (ks 1) = int j")
    case True
    have "j \<noteq> cur (ks 0)"
      using less.prems(1,2) by (rule current_cannot_run)
    moreover have "procs_ok (ks 0)" using less.prems(1) by (simp add: running_ok_def)
    ultimately have "0 < dist_to j (ks 0)" using next_nearer(2) [OF _ less.prems(2)] by force
    then show ?thesis using True by (intro exI [of _ 1]) auto
  next
    case False
    then have d: "process_can_run (ks 1) j" "dist_to j (ks 1) < dist_to j (ks 0)" using step(2) by auto
    have "\<exists>n. 0 < n \<and> n \<le> dist_to j (ks 1) \<and> current (ks (Suc n)) = int j"
    proof (rule less.hyps [of "\<lambda>n. ks (Suc n)" "\<lambda>n. cs (Suc n)", folded One_nat_def])
      show "dist_to j (ks 1) < dist_to j (ks 0)" "running_ok (ks 1)" "process_can_run (ks 1) j"
        using d step(1) by simp_all
      show "\<forall>n. ks (Suc (Suc n)) = snd (next_proc (cs (Suc n)) STATUS_READY (ks (Suc n)))"
        using less.prems(3) by blast
    qed
    then show ?thesis using d(2) by (metis Suc_leI le_less_trans less_eq_Suc_le zero_less_Suc)
  qed
qed

section \<open>Time slices\<close>

lemma schedule_waits:
  "current_runtime k < base_priority (cpcb k) \<Longrightarrow>
   schedule c k = (c, k\<lparr>current_runtime := current_runtime k + 1\<rparr>)"
  by (simp add: schedule_def)

lemma next_proc_runtime [simp]: "current_runtime (snd (next_proc c st k)) = 0"
  by (simp add: next_proc_def context_switch_def Let_def)

lemma schedule_switches:
  "base_priority (cpcb k) \<le> current_runtime k \<Longrightarrow>
   schedule c k = (let (c', k') = next_proc c STATUS_READY k in (c', k'\<lparr>current_runtime := 1\<rparr>))"
  using next_proc_runtime [of c STATUS_READY k]
  by (simp add: schedule_def split_beta Let_def del: next_proc_runtime)

lemma next_proc_ignores_runtime: "next_proc c st (k\<lparr>current_runtime := t\<rparr>) = next_proc c st k"
  by (simp add: next_proc_def)

section \<open>The state at power-on, and a sample\<close>

definition zero_pcb :: pcb where
  "zero_pcb = \<lparr>pid = 0, status = STATUS_CREATED, base_priority = 0, age = 0, waiting = 0, stack = 0,
     fdt = replicate 32 0, wd = [], pctx = zero_ctx\<rparr>"

definition boot_kernel :: kstate where
  "boot_kernel = \<lparr>pcbs = replicate 32 zero_pcb, pcballoc = 0, current = -1, current_runtime = 0,
     sems = replicate 32 0, pipes = replicate 32 0, openft = replicate 64 0, vol = boot_vol,
     heap = Map.empty, mem = (\<lambda>_. 0), uart0 = \<lparr>rx = [], peer = []\<rparr>, halted = False\<rparr>"

text \<open>Processes 0 (running, of priority 2), 1 and 5.\<close>

definition sample_kernel :: kstate where
  "sample_kernel = boot_kernel\<lparr>current := 0, pcballoc := 0x23,
     pcbs := (replicate 32 zero_pcb)
       [0 := zero_pcb\<lparr>status := STATUS_EXECUTING, base_priority := 2, fdt := replicate 32 (-1)\<rparr>,
        1 := zero_pcb\<lparr>pid := 1, status := STATUS_READY, pctx := zero_ctx\<lparr>pc := 0x100\<rparr>\<rparr>,
        5 := zero_pcb\<lparr>pid := 5, base_priority := 7\<rparr>]\<rparr>"

lemma sample_kernel_exists: "process_exists sample_kernel i \<longleftrightarrow> i \<in> {0, 1, 5}"
proof -
  have "bit (35 :: int) i \<longleftrightarrow> i \<in> {0, 1, 5}"
    by (auto simp: bit_numeral_rec bit_1_iff split: nat.splits)
  then have "bit (35 :: u32) i \<longleftrightarrow> i \<in> {0, 1, 5}"
    using bit_word_of_int_iff [of 35 i, where 'a = 32] by auto
  then show ?thesis by (simp add: process_exists_bit sample_kernel_def)
qed

lemma sample_kernel_sel:
  "current sample_kernel = 0" "current_runtime sample_kernel = 0" "length (pcbs sample_kernel) = 32"
  "pcbs sample_kernel ! 0 = zero_pcb\<lparr>status := STATUS_EXECUTING, base_priority := 2, fdt := replicate 32 (-1)\<rparr>"
  "pcbs sample_kernel ! 1 = zero_pcb\<lparr>pid := 1, status := STATUS_READY, pctx := zero_ctx\<lparr>pc := 0x100\<rparr>\<rparr>"
  "pcbs sample_kernel ! 5 = zero_pcb\<lparr>pid := 5, base_priority := 7\<rparr>"
  by (simp_all add: sample_kernel_def boot_kernel_def)

lemma sample_kernel_running: "running_ok sample_kernel"
proof -
  have "pid (pcbs sample_kernel ! i) = int i \<and> (status (pcbs sample_kernel ! i) = STATUS_EXECUTING) = (i = 0)"
    if "i \<in> {0, 1, 5}" for i
    using that sample_kernel_sel(4-6) by (auto simp: zero_pcb_def)
  then show ?thesis
    by (auto simp: running_ok_def procs_ok_def sample_kernel_exists sample_kernel_sel PCB_SIZE_def)
qed

lemma sample_kernel_can_run: "process_can_run sample_kernel i \<longleftrightarrow> i \<in> {1, 5}"
  using sample_kernel_sel(4-6) by (auto simp: process_can_run_iff sample_kernel_exists zero_pcb_def)

section \<open>Properties\<close>

text \<open>
  C3: Round robin.  When no other process is marked as executing, \<open>next\<close> looks at the processes after
  the current one in cyclic order.  If one of them can run, the first of these becomes the current
  process and the only one executing, its saved context is the one returned to, and the interrupted
  context and the given status are recorded for the old process; every other process keeps its status
  and context.  If none can run, nothing changes at all: the current process goes on, whatever status
  it was to get.
\<close>

theorem next_switches:
  assumes "others_idle k" "st \<noteq> STATUS_EXECUTING" "next_proc c st k = (c', k')"
  shows "case find (process_can_run k) (after (cur k)) of
      None \<Rightarrow> c' = c \<and> k' = k\<lparr>current_runtime := 0\<rparr>
    | Some i \<Rightarrow> current k' = int i \<and> running_ok k' \<and> c' = pctx (pcbs k ! i)
        \<and> pctx (pcbs k' ! cur k) = c \<and> status (pcbs k' ! cur k) = st
        \<and> (\<forall>j. j \<noteq> i \<and> j \<noteq> cur k \<longrightarrow>
              status (pcbs k' ! j) = status (pcbs k ! j) \<and> pctx (pcbs k' ! j) = pctx (pcbs k ! j))"
proof -
  have k: "procs_ok k" using assms(1) by (simp add: others_idle_def)
  note s = assms(3) [unfolded next_proc_switch]
  show ?thesis
  proof (cases "find (process_can_run k) (after (cur k))")
    case None
    then have "next_ready k = cur k" by (simp add: next_ready_find [OF k])
    then show ?thesis using None s by (simp add: rr.switch_stay)
  next
    case (Some i)
    then have i: "next_ready k = i" by (simp add: next_ready_find [OF k])
    have "i \<in> set (after (cur k))" using Some by (auto simp: find_Some_iff)
    then have "i \<noteq> cur k" using set_after [OF procs_ok_less(1) [OF k]] by auto
    then show ?thesis
      using Some rr.switch_to [OF k i _ s] rr.switch_running [OF assms(1), of st c] assms(2) s i by auto
  qed
qed

lemma next_switches_witness:
  "current (snd (next_proc zero_ctx STATUS_READY sample_kernel)) = 1
   \<and> pc (fst (next_proc zero_ctx STATUS_READY sample_kernel)) = 0x100"
proof -
  have "find (process_can_run sample_kernel) (after 0) = Some 1"
    by (simp add: after_def PCB_SIZE_def upt_conv_Cons sample_kernel_can_run)
  then show ?thesis
    using next_switches [OF running_others_idle [OF sample_kernel_running], of STATUS_READY zero_ctx
        "fst (next_proc zero_ctx STATUS_READY sample_kernel)" "snd (next_proc zero_ctx STATUS_READY sample_kernel)"]
      sample_kernel_sel
    by simp
qed

text \<open>
  C4: Fairness.  However the running processes leave their registers, a process that can run is current
  after at most 31 switches.
\<close>

theorem round_robin_fair:
  assumes "running_ok (ks 0)" "process_can_run (ks 0) j"
    and "\<forall>n. ks (Suc n) = snd (next_proc (cs n) STATUS_READY (ks n))"
  shows "\<exists>n. 0 < n \<and> n \<le> 31 \<and> current (ks n) = int j"
proof -
  have "dist_to j (ks 0) < PCB_SIZE" by (simp add: dist_to_def PCB_SIZE_def)
  then show ?thesis using reached_within_dist [OF assms] by (auto simp: PCB_SIZE_def)
qed

lemma round_robin_fair_witness:
  "\<exists>n. 0 < n \<and> n \<le> 31 \<and> current (((\<lambda>k. snd (next_proc zero_ctx STATUS_READY k)) ^^ n) sample_kernel) = 5"
  using round_robin_fair [of "\<lambda>n. ((\<lambda>k. snd (next_proc zero_ctx STATUS_READY k)) ^^ n) sample_kernel" 5 "\<lambda>_. zero_ctx"]
  by (simp add: sample_kernel_running sample_kernel_can_run)

text \<open>
  C5: Time slices.  A process that has run for \<open>r\<close> ticks and has priority \<open>p\<close> keeps the processor for
  \<open>p - r\<close> more timer interrupts; the one after that performs \<open>next\<close>, and the process switched to
  starts with a count of 1.
\<close>

theorem schedule_slice:
  assumes "\<forall>n. ks (Suc n) = snd (schedule (cs n) (ks n))"
    and "current_runtime (ks 0) = r" "base_priority (cpcb (ks 0)) = p" "r \<le> p"
  shows "(\<forall>n. int n \<le> p - r \<longrightarrow> ks n = (ks 0)\<lparr>current_runtime := r + int n\<rparr>)
    \<and> ks (Suc (nat (p - r))) =
        (snd (next_proc (cs (nat (p - r))) STATUS_READY (ks 0)))\<lparr>current_runtime := 1\<rparr>"
proof -
  have slice: "int n \<le> p - r \<Longrightarrow> ks n = (ks 0)\<lparr>current_runtime := r + int n\<rparr>" for n
  proof (induction n)
    case 0
    then show ?case using assms(2) by simp
  next
    case (Suc n)
    then have "ks n = (ks 0)\<lparr>current_runtime := r + int n\<rparr>" "r + int n < p" by simp_all
    then show ?case using assms(1,3) by (simp add: schedule_waits)
  qed
  have "ks (nat (p - r)) = (ks 0)\<lparr>current_runtime := p\<rparr>" using slice [of "nat (p - r)"] assms(4) by simp
  then have "ks (Suc (nat (p - r))) =
      (snd (next_proc (cs (nat (p - r))) STATUS_READY (ks 0)))\<lparr>current_runtime := 1\<rparr>"
    using assms(1,3) by (simp add: schedule_switches split_beta Let_def next_proc_ignores_runtime)
  then show ?thesis using slice by blast
qed

lemma schedule_slice_witness:
  "let ks = \<lambda>n. ((\<lambda>k. snd (schedule zero_ctx k)) ^^ n) sample_kernel
   in current (ks 2) = 0 \<and> current_runtime (ks 3) = 1"
  using schedule_slice [of "\<lambda>n. ((\<lambda>k. snd (schedule zero_ctx k)) ^^ n) sample_kernel" "\<lambda>_. zero_ctx" 0 2]
  by (auto simp: sample_kernel_sel zero_pcb_def Let_def numeral_3_eq_3 dest!: spec [of _ 2])

end
