(* ===== verification/Fdtable.thy ===== *)
theory Fdtable
  imports Sched
begin

text \<open>
  Open files, \<^verbatim>\<open>kernel/hilevel.c\<close> from \<open>do_pipe\<close> to \<open>do_cd\<close>.  A process has a table \<open>fdt\<close> of 32
  indices into the global table \<open>openft\<close> of 64 pointers; -1 and \<open>NULL\<close> (0) mark free entries.  The
  pointers lead to \<open>Fdte\<close> objects on the heap.  Following a pointer that is null, freed or of another
  kind has no result.
\<close>

definition UART0_ADDR :: u32 where "UART0_ADDR = 0x10009000"

text \<open>\<open>while (i < length xs && !free(xs[i])) ++i\<close>, from \<open>s\<close>; \<open>s\<close> itself when it is past the end.\<close>

definition first_free :: "('a \<Rightarrow> bool) \<Rightarrow> 'a list \<Rightarrow> nat \<Rightarrow> nat" where
  "first_free isfree xs s = s + length (takeWhile (\<lambda>x. \<not> isfree x) (drop s xs))"

definition put_words :: "u32 \<Rightarrow> u32 list \<Rightarrow> kstate \<Rightarrow> kstate" where
  "put_words a ws k = k\<lparr>mem := mem_put a (le32s ws) (mem k)\<rparr>"

definition do_pipe :: "env \<Rightarrow> u32 \<Rightarrow> kstate \<Rightarrow> bool \<times> kstate" where
  "do_pipe E pipefds k = (
     let rind_p = first_free (\<lambda>x. x = -1) (fdt (cpcb k)) 0;
         wind_p = first_free (\<lambda>x. x = -1) (fdt (cpcb k)) (rind_p + 1)
     in if wind_p \<ge> 32 then (False, k)
        else
          let pindex = first_free (\<lambda>x. x = 0) (pipes k) 0
          in if pindex = PCB_SIZE then (False, k)
             else
               let rind_g = first_free (\<lambda>x. x = 0) (openft k) 0;
                   wind_g = first_free (\<lambda>x. x = 0) (openft k) (rind_g + 1)
               in if rind_g = 64 \<or> wind_g = 64 then (False, k)
                  else
                    let (pp, k1) = malloc E k 0x1018;
                        k2 = k1\<lparr>pipes := (pipes k1)[pindex := pp]\<rparr>
                    in if pp = 0 then (False, k2)
                       else
                         let (rend, k3) = malloc E k2 20
                         in if rend = 0 then (False, k3)
                            else
                              let (wend, k4) = malloc E k3 20
                              in if wend = 0 then (False, k4)
                                 else
                                   let k5 = store pp (Pipe (pipe_reset (junk_pipe E))) k4;
                                       k6 = store rend (Fdte \<lparr>open_count = 1, fd_type = FT_PIPE,
                                              fd_mode = FM_R, fd_id = word_of_nat pindex,
                                              fd_cursor = word_of_nat wind_g\<rparr>) k5;
                                       k7 = store wend (Fdte \<lparr>open_count = 1, fd_type = FT_PIPE,
                                              fd_mode = FM_W, fd_id = word_of_nat pindex,
                                              fd_cursor = word_of_nat rind_g\<rparr>) k6;
                                       k8 = k7\<lparr>openft := (openft k7)[rind_g := rend, wind_g := wend]\<rparr>;
                                       k9 = set_fdt wind_p (int wind_g) (set_fdt rind_p (int rind_g) k8)
                                   in (True, put_words pipefds
                                               [word_of_nat rind_p, word_of_nat wind_p] k9))"

text \<open>
  \<open>malloc(strlen(apath))\<close> has no room for the terminating NUL which \<open>strcpy\<close> then stores: unless the
  allocator rounds the size up, that store is outside the block.
\<close>

definition do_open :: "env \<Rightarrow> u32 \<Rightarrow> u8 \<Rightarrow> kstate \<Rightarrow> (int \<times> kstate) option" where
  "do_open E path flags k = (
     if flags = 0 then Some (-1, k)
     else
       let i = first_free (\<lambda>x. x = 0) (openft k) 0
       in if i = 64 then Some (-1, k)
          else
            let (a, k1) = malloc E k 20;
                k2 = k1\<lparr>openft := (openft k1)[i := a]\<rparr>
            in if a = 0 then Some (-1, k2)
               else do {
                 apath \<leftarrow> abs_path k2 path;
                 (isf, v1) \<leftarrow> fs2_isftype (vol k2) apath FS2_FTYPE_FILE;
                 (success, v2) \<leftarrow>
                   (if \<not> isf \<and> flags \<ge> 4 then fs2_create v1 FS2_FTYPE_FILE apath (junk_n E) (junk_i E)
                    else Some (isf, v1));
                 let k3 = k2\<lparr>vol := v2\<rparr>;
                 if \<not> success then Some (-1, k3)
                 else
                   let (fdpath, k4) = malloc E k3 (length apath)
                   in if fdpath = 0 then Some (-1, k4)
                      else if malloc_room E (length apath) \<le> length apath then None
                      else Some (int i,
                             store a (Fdte \<lparr>open_count = 1, fd_type = FT_FILE,
                                       fd_mode = fmode_from_flags flags, fd_id = fdpath,
                                       fd_cursor = 0\<rparr>) (store fdpath (Str apath) k4))
               })"

definition openft_at :: "kstate \<Rightarrow> int \<Rightarrow> u32 option" where
  "openft_at k i = (if 0 \<le> i \<and> i < 64 then Some (openft k ! nat i) else None)"

definition do_close :: "int \<Rightarrow> kstate \<Rightarrow> (bool \<times> kstate) option" where
  "do_close fd k =
     (if fd < 0 \<or> fd \<ge> 32 then Some (False, k)
      else
        let i = fdt (cpcb k) ! nat fd
        in if i = -1 then Some (False, k)
           else do {
             let k1 = set_fdt (nat fd) (-1) k;
             a \<leftarrow> openft_at k1 i;
             fde \<leftarrow> load_fdte k1 a;
             let fde1 = fde\<lparr>open_count := open_count fde - 1\<rparr>;
             let k2 = store a (Fdte fde1) k1;
             if open_count fde1 > 0 then Some (True, k2)
             else case fd_type fde1 of
                 FT_PIPE \<Rightarrow> do {
                   b \<leftarrow> openft_at k2 (uint (fd_cursor fde1));
                   k3 \<leftarrow> free k2 b;
                   Some (True, k3)
                 }
               | FT_UART \<Rightarrow> Some (True, k2)
               | FT_FILE \<Rightarrow> do {
                   k3 \<leftarrow> free k2 (fd_id fde1);
                   k4 \<leftarrow> free k3 a;
                   let k5 = k4\<lparr>openft := (openft k4)[nat i := 0]\<rparr>;
                   Some (True, set_fdt (nat fd) (-1) k5)
                 }
               | FT_KERN \<Rightarrow> Some (False, k2)
           })"

text \<open>\<open>pcb[current].fdt[fd]\<close> with a descriptor that nobody checks.\<close>

definition fdt_at :: "kstate \<Rightarrow> int \<Rightarrow> int option" where
  "fdt_at k fd = (if 0 \<le> fd \<and> fd < 32 then Some (fdt (cpcb k) ! nat fd) else None)"

definition pipe_at :: "kstate \<Rightarrow> u32 \<Rightarrow> (u32 \<times> pipe) option" where
  "pipe_at k x = (if unat x < PCB_SIZE then
     do { let a = pipes k ! unat x; p \<leftarrow> load_pipe k a; Some (a, p) } else None)"

text \<open>\<open>src\<close> is the address of the bytes; a file is written \<open>nchars\<close> taken as unsigned.\<close>

definition do_write :: "env \<Rightarrow> int \<Rightarrow> u32 \<Rightarrow> int \<Rightarrow> kstate \<Rightarrow> (int \<times> kstate) option" where
  "do_write E fd src nchars k = do {
     i \<leftarrow> fdt_at k fd;
     if i = -1 then Some (-1, k)
     else do {
       a \<leftarrow> openft_at k i;
       if a = 0 then Some (-1, k)
       else do {
         fde \<leftarrow> load_fdte k a;
         if \<not> (fd_mode fde = FM_W \<or> fd_mode fde = FM_RW) then Some (0, k)
         else case fd_type fde of
             FT_UART \<Rightarrow>
               if fd_id fde \<noteq> UART0_ADDR then None
               else Some (nchars, k_print (mem_bytes (mem k) src (nat nchars)) k)
           | FT_PIPE \<Rightarrow> do {
               (b, p) \<leftarrow> pipe_at k (fd_id fde);
               (n, p') \<leftarrow> pipe_write p (mem_bytes (mem k) src (nat nchars)) nchars (junk_pipe_i E);
               Some (n, store b (Pipe p') k)
             }
           | FT_FILE \<Rightarrow> do {
               path \<leftarrow> load_str k (fd_id fde);
               let nbytes = word_of_int nchars;
               (n, v) \<leftarrow> fs2_write (vol k) path (mem_bytes (mem k) src (unat nbytes)) nbytes (fd_cursor fde);
               let k1 = k\<lparr>vol := v\<rparr>;
               Some (n, if n \<ge> 0
                        then store a (Fdte (fde\<lparr>fd_cursor := fd_cursor fde + word_of_int n\<rparr>)) k1
                        else k1)
             }
           | FT_KERN \<Rightarrow> None
       }
     }
   }"

text \<open>
  The readline loop of \<open>do_read\<close>.  Its condition \<open>out[j] = '\x0A'\<close> is an assignment, so that every
  character received is replaced by a line feed and the branch is taken if that is not zero.
\<close>

function read_line :: "u32 \<Rightarrow> int \<Rightarrow> int \<Rightarrow> kstate \<Rightarrow> (int \<times> kstate) option" where
  "read_line out j nchars k =
     (if j < nchars then do {
        (c, u) \<leftarrow> PL011_getc (uart0 k);
        let a = out + word_of_int j;
        let k1 = k\<lparr>uart0 := u, mem := (mem k)(a := c)\<rparr>;
        let k2 = k1\<lparr>mem := (mem k1)(a := 0x0A)\<rparr>;
        if mem k2 a \<noteq> 0 then Some (j, k2\<lparr>mem := (mem k2)(a := 0)\<rparr>)
        else read_line out (j + 1) nchars k2
      }
      else Some (j, k))"
  by pat_completeness auto
termination
  by (relation "measure (\<lambda>(out, j, nchars, k). nat (nchars - j))") auto

declare read_line.simps [simp del]

fun put_stores :: "u32 \<Rightarrow> (int \<times> byte) list \<Rightarrow> (u32 \<Rightarrow> byte) \<Rightarrow> u32 \<Rightarrow> byte" where
  "put_stores out [] m = m"
| "put_stores out ((i, c) # ss) m = put_stores out ss (m(out + word_of_int i := c))"

definition do_read :: "env \<Rightarrow> int \<Rightarrow> u32 \<Rightarrow> int \<Rightarrow> kstate \<Rightarrow> (int \<times> kstate) option" where
  "do_read E fd out nchars k = do {
     i \<leftarrow> fdt_at k fd;
     if i = -1 then Some (-1, k)
     else do {
       a \<leftarrow> openft_at k i;
       if a = 0 then Some (-1, k)
       else do {
         fde \<leftarrow> load_fdte k a;
         if \<not> (fd_mode fde = FM_R \<or> fd_mode fde = FM_RW) then Some (0, k)
         else case fd_type fde of
             FT_UART \<Rightarrow> if fd_id fde \<noteq> UART0_ADDR then None else read_line out 0 nchars k
           | FT_PIPE \<Rightarrow> do {
               (b, p) \<leftarrow> pipe_at k (fd_id fde);
               (n, stores, p') \<leftarrow> pipe_read p nchars (junk_pipe_i E);
               Some (n, store b (Pipe p') (k\<lparr>mem := put_stores out stores (mem k)\<rparr>))
             }
           | FT_FILE \<Rightarrow> do {
               path \<leftarrow> load_str k (fd_id fde);
               (n, bs, v) \<leftarrow> fs2_read (vol k) path (word_of_int nchars) (fd_cursor fde);
               let k1 = k\<lparr>vol := v, mem := mem_put out bs (mem k)\<rparr>;
               Some (n, if n \<ge> 0
                        then store a (Fdte (fde\<lparr>fd_cursor := fd_cursor fde + word_of_int n\<rparr>)) k1
                        else k1)
             }
           | FT_KERN \<Rightarrow> None
       }
     }
   }"

definition do_cd :: "u32 \<Rightarrow> kstate \<Rightarrow> (bool \<times> kstate) option" where
  "do_cd cd k = do {
     apath \<leftarrow> abs_path k cd;
     (isd, v) \<leftarrow> fs2_isftype (vol k) apath FS2_FTYPE_DIR;
     let k1 = k\<lparr>vol := v\<rparr>;
     if \<not> isd then Some (False, k1)
     else if length apath < 256 then Some (True, upd_pcb (cur k1) (\<lambda>p. p\<lparr>wd := apath\<rparr>) k1)
     else None
   }"

section \<open>What an operation leaves alone\<close>

text \<open>
  \<open>frame k k'\<close>: \<open>k'\<close> has the same process table as \<open>k\<close> up to descriptors, working directories and
  priorities, and tables of the same sizes.  Everything but process management satisfies it.
\<close>

definition pcb_frame :: "pcb \<Rightarrow> pcb \<Rightarrow> bool" where
  "pcb_frame p q \<longleftrightarrow> pid q = pid p \<and> status q = status p \<and> pctx q = pctx p \<and> stack q = stack p
     \<and> waiting q = waiting p \<and> length (fdt q) = length (fdt p)"

definition frame :: "kstate \<Rightarrow> kstate \<Rightarrow> bool" where
  "frame k k' \<longleftrightarrow> pcballoc k' = pcballoc k \<and> current k' = current k \<and> halted k' = halted k
     \<and> length (pcbs k') = length (pcbs k) \<and> length (sems k') = length (sems k)
     \<and> length (pipes k') = length (pipes k) \<and> length (openft k') = length (openft k)
     \<and> (\<forall>i. pcb_frame (pcbs k ! i) (pcbs k' ! i))"

lemma pcb_frame_refl [simp]: "pcb_frame p p"
  by (simp add: pcb_frame_def)

lemma frame_refl [simp]: "frame k k"
  by (simp add: frame_def)

lemma frame_trans: "frame k k1 \<Longrightarrow> frame k1 k2 \<Longrightarrow> frame k k2"
  by (auto simp: frame_def pcb_frame_def)

lemma frame_upd [simp]:
  "frame k (k1\<lparr>vol := v\<rparr>) = frame k k1" "frame k (k1\<lparr>mem := m\<rparr>) = frame k k1"
  "frame k (k1\<lparr>heap := h\<rparr>) = frame k k1" "frame k (k1\<lparr>uart0 := u\<rparr>) = frame k k1"
  "length ss = length (sems k1) \<Longrightarrow> frame k (k1\<lparr>sems := ss\<rparr>) = frame k k1"
  "length as = length (pipes k1) \<Longrightarrow> frame k (k1\<lparr>pipes := as\<rparr>) = frame k k1"
  "length as = length (openft k1) \<Longrightarrow> frame k (k1\<lparr>openft := as\<rparr>) = frame k k1"
  by (simp_all add: frame_def)

lemma frame_store [simp]: "frame k (store a x k1) = frame k k1"
  by (simp add: store_def)

lemma frame_upd_pcb:
  "(\<And>p. pcb_frame p (f p)) \<Longrightarrow> frame k k1 \<Longrightarrow> frame k (upd_pcb i f k1)"
proof (rule frame_trans [of k k1])
  assume "\<And>p. pcb_frame p (f p)"
  then show "frame k1 (upd_pcb i f k1)"
    by (cases "i < length (pcbs k1)") (auto simp: frame_def nth_list_update not_less list_update_beyond)
qed

lemma frame_set_fdt [simp]: "frame k k1 \<Longrightarrow> frame k (set_fdt i v k1)"
  unfolding set_fdt_def by (rule frame_upd_pcb) (simp_all add: pcb_frame_def)

lemma malloc_sel:
  "malloc E k n = (a, k') \<Longrightarrow> a = malloc_at E (heap k) n \<and> k' = (if a = 0 then k else k\<lparr>heap := (heap k)(a \<mapsto> Raw n)\<rparr>)"
  by (auto simp: malloc_def Let_def)

lemma frame_malloc: "malloc E k1 n = (a, k') \<Longrightarrow> frame k k' = frame k k1"
  by (auto dest!: malloc_sel split: if_splits)

lemma frame_free: "free k1 a = Some k' \<Longrightarrow> frame k k' = frame k k1"
  by (auto simp: free_def split: if_splits option.splits)

lemma frame_putc [simp]: "frame k (k_putc c k1) = frame k k1"
  by (simp add: k_putc_def)

lemma frame_print [simp]: "frame k (k_print s k1) = frame k k1"
  unfolding k_print_def by (induction s arbitrary: k1) simp_all

lemma frame_puth [simp]: "frame k (k_puth c k1) = frame k k1"
  by (simp add: k_puth_def)

lemma frame_put_words [simp]: "frame k (put_words a ws k1) = frame k k1"
  by (simp add: put_words_def)

lemma frame_read_line: "read_line out j n k = Some (r, k') \<Longrightarrow> frame k k'"
proof (induction out j n k rule: read_line.induct)
  case (1 out j n k)
  from 1(2) show ?case
    by (subst (asm) read_line.simps) (auto split: if_splits Option.bind_splits)
qed

lemma frame_do_write: "do_write E fd a n k = Some (r, k') \<Longrightarrow> frame k k'"
  by (auto simp: do_write_def Let_def split: Option.bind_splits if_splits file_type.splits)

lemma frame_do_read: "do_read E fd a n k = Some (r, k') \<Longrightarrow> frame k k'"
  by (auto simp: do_read_def Let_def dest: frame_read_line
      split: Option.bind_splits if_splits file_type.splits)

lemma frame_do_close: "do_close fd k = Some (r, k') \<Longrightarrow> frame k k'"
  by (auto simp: do_close_def Let_def frame_free
      split: Option.bind_splits if_splits file_type.splits)

lemma frame_do_open: "do_open E p f k = Some (r, k') \<Longrightarrow> frame k k'"
  by (auto simp: do_open_def Let_def frame_malloc
      split: Option.bind_splits if_splits prod.splits)

lemma frame_do_pipe: "do_pipe E p k = (r, k') \<Longrightarrow> frame k k'"
  by (auto simp: do_pipe_def Let_def frame_malloc split: if_splits prod.splits)

lemma frame_do_cd: "do_cd p k = Some (r, k') \<Longrightarrow> frame k k'"
  by (auto simp: do_cd_def Let_def pcb_frame_def intro!: frame_upd_pcb
      split: Option.bind_splits if_splits)

end
