(* ===== verification/Proc.thy ===== *)
theory Proc
  imports Fdtable
begin

text \<open>
  Process life cycle and semaphores, \<^verbatim>\<open>kernel/hilevel.c\<close> from \<open>halt\<close> to \<open>do_sem_wait\<close>.  \<open>halt\<close> ends in
  an endless loop with interrupts off; the model sets \<open>halted\<close>, and every caller then does nothing
  more.
\<close>

definition halt :: "kstate \<Rightarrow> kstate" where
  "halt k = (k_print (chars [CHR 0x0A] @ chars ''HALT'' @ chars [CHR 0x0A]) k)\<lparr>halted := True\<rparr>"

text \<open>\<open>if (!pcballoc) halt();\<close>\<close>

definition halt_if_none :: "kstate \<Rightarrow> kstate" where
  "halt_if_none k = (if pcballoc k = 0 then halt k else k)"

text \<open>The loop of \<open>do_exit\<close> over the descriptors, from \<open>i\<close>.\<close>

function close_from :: "nat \<Rightarrow> kstate \<Rightarrow> kstate option" where
  "close_from i k =
     (if i < 32 then do {
        k1 \<leftarrow> (if fdt (cpcb k) ! i \<noteq> -1 then map_option snd (do_close (int i) k) else Some k);
        close_from (i + 1) k1
      }
      else Some k)"
  by pat_completeness auto
termination
  by (relation "measure (\<lambda>(i, k). 32 - i)") auto

declare close_from.simps [simp del]

definition do_exit :: "kstate \<Rightarrow> kstate option" where
  "do_exit k = do {
     let k1 = upd_pcb (cur k) (\<lambda>p. p\<lparr>status := STATUS_TERMINATED, base_priority := -1\<rparr>) k;
     k2 \<leftarrow> free k1 (stack (cpcb k1));
     k3 \<leftarrow> close_from 0 k2;
     Some (halt_if_none (k3\<lparr>pcballoc := pcballoc k3 - push_bit (cur k3) 1\<rparr>))
   }"

text \<open>\<open>openft[fdt[i]]->open_count++\<close> for every open descriptor.\<close>

fun count_fds :: "int list \<Rightarrow> kstate \<Rightarrow> kstate option" where
  "count_fds [] k = Some k"
| "count_fds (i # fds) k =
     (if i \<noteq> -1 then do {
        a \<leftarrow> openft_at k i;
        fde \<leftarrow> load_fdte k a;
        count_fds fds (store a (Fdte (fde\<lparr>open_count := open_count fde + 1\<rparr>)) k)
      }
      else count_fds fds k)"

definition do_fork :: "env \<Rightarrow> ctx \<Rightarrow> kstate \<Rightarrow> (ctx \<times> kstate) option" where
  "do_fork E c k = (
     let k1 = upd_pcb (cur k) (\<lambda>p. p\<lparr>pctx := c\<rparr>) k;
         (child, k2) = new_pcb_entry k1
     in if child = PCB_SIZE then Some (set_reg 0 (-1) c, k_putc 0x21 k2)
        else
          let k3 = upd_pcb child (\<lambda>_. cpcb k2) k2;
              (stk, k4) = malloc E k3 STACK_BYTES
          in if stk = 0 then Some (set_reg 0 (-2) c, k_putc 0x4D k4)
             else
               let s_cur = stack (cpcb k4);
                   k5 = k4\<lparr>mem := mem_put stk (mem_bytes (mem k4) s_cur STACK_BYTES) (mem k4)\<rparr>;
                   k6 = upd_pcb child (\<lambda>p. p\<lparr>pid := int child, status := STATUS_CREATED,
                          stack := stk,
                          pctx := set_reg 0 0 ((pctx p)\<lparr>sp := sp (pctx p) + (stk - s_cur)\<rparr>)\<rparr>) k5
               in do {
                    k7 \<leftarrow> count_fds (fdt (cpcb k6)) k6;
                    Some (set_reg 0 (word_of_nat child) c, k7)
                  })"

definition do_exec :: "ctx \<Rightarrow> kstate \<Rightarrow> ctx" where
  "do_exec c k = c\<lparr>pc := gpr c ! 0, sp := top_of (stack (cpcb k)), cpsr := 0x50\<rparr>"

definition do_kill :: "int \<Rightarrow> kstate \<Rightarrow> kstate option" where
  "do_kill p k =
     (if p < 0 \<or> p \<ge> int PCB_SIZE then Some k
      else do {
        k1 \<leftarrow> (if process_exists k (nat p)
               then free (k\<lparr>pcballoc := pcballoc k - push_bit (nat p) 1\<rparr>) (stack (pcbs k ! nat p))
               else Some k);
        Some (halt_if_none k1)
      })"

section \<open>Semaphores\<close>

text \<open>Process \<open>i\<close> waits for at most \<open>x\<close> units of the semaphore.\<close>

definition eligible :: "kstate \<Rightarrow> u32 \<Rightarrow> u32 \<Rightarrow> nat \<Rightarrow> bool" where
  "eligible k sem_id x i \<longleftrightarrow>
     process_exists k i \<and> status (pcbs k ! i) = STATUS_WAITING \<and>
     (case load_semwait k (waiting (pcbs k ! i)) of
        None \<Rightarrow> False
      | Some w \<Rightarrow> sw_id w = sem_id \<and> sw_x w \<le> x)"

text \<open>
  Every process marked as waiting must have a live wait record, or reading it is undefined;
  \<open>dangling\<close> says that process \<open>i\<close> has none.
\<close>

definition dangling :: "kstate \<Rightarrow> nat \<Rightarrow> bool" where
  "dangling k i \<longleftrightarrow> process_exists k i \<and> status (pcbs k ! i) = STATUS_WAITING
     \<and> load_semwait k (waiting (pcbs k ! i)) = None"

definition do_sem_post :: "u32 \<Rightarrow> u32 \<Rightarrow> kstate \<Rightarrow> kstate option" where
  "do_sem_post sem_id x k = (
     if unat sem_id \<ge> PCB_SIZE \<or> x = 0 then Some k
     else
       let i = scan (\<lambda>i. dangling k i \<or> eligible k sem_id x i) (cur k) ((cur k + 1) mod PCB_SIZE);
           s = unat sem_id
       in if i \<noteq> cur k then
            case load_semwait k (waiting (pcbs k ! i)) of
              None \<Rightarrow> None
            | Some w \<Rightarrow>
                let k1 = k\<lparr>sems := (sems k)[s := sems k ! s + (x - sw_x w)]\<rparr>;
                    k2 = upd_pcb i (\<lambda>p. p\<lparr>status := STATUS_READY\<rparr>) k1
                in free k2 (waiting (pcbs k2 ! i))
          else Some (k\<lparr>sems := (sems k)[s := sems k ! s + x]\<rparr>))"

definition invalid_sem_msg :: "int \<Rightarrow> kstate \<Rightarrow> kstate" where
  "invalid_sem_msg c k =
     (let k1 = k_print (chars [CHR 0x0A] @ chars ''Process 0x'') k;
          k2 = (if c > 15 then k_putc 0x31 k1 else k1);
          k3 = k_puth (word_of_int c) k2
      in k_print (chars '' attempted to wait for invalid semaphore - terminating.''
                  @ chars [CHR 0x0A]) k3)"

text \<open>
  After \<open>do_exit\<close> the function goes on with \<open>sem[sem_id]\<close>, an index outside the array (unless the
  kernel has halted).
\<close>

definition do_sem_wait :: "env \<Rightarrow> u32 \<Rightarrow> u32 \<Rightarrow> kstate \<Rightarrow> (bool \<times> kstate) option" where
  "do_sem_wait E sem_id x k = (
     let s = unat sem_id
     in if s \<ge> PCB_SIZE then do {
          k1 \<leftarrow> do_exit (invalid_sem_msg (current k) k);
          if halted k1 then Some (False, k1) else None
        }
        else if sems k ! s \<ge> x then Some (True, k\<lparr>sems := (sems k)[s := sems k ! s - x]\<rparr>)
        else
          let k1 = upd_pcb (cur k) (\<lambda>p. p\<lparr>status := STATUS_WAITING\<rparr>) k;
              (a, k2) = malloc E k1 8;
              k3 = upd_pcb (cur k2) (\<lambda>p. p\<lparr>waiting := a\<rparr>) k2
          in if a = 0 then None
             else Some (False, store a (Semwait \<lparr>sw_id = sem_id, sw_x = x\<rparr>) k3))"

end
