(* ===== verification/Svc.thy ===== *)
theory Svc
  imports Proc
begin

text \<open>
  Booting and the interrupt handlers, \<^verbatim>\<open>kernel/hilevel.c\<close> from \<open>init_fs\<close> on, with the block dump of
  \<^verbatim>\<open>kernel/fs2.c\<close>.  The registers of the timer and of the interrupt controller (\<open>init_timer\<close>, the
  acknowledgements of \<open>hilevel_handler_irq\<close>) are not part of the state.
\<close>

section \<open>The block dump\<close>

text \<open>
  \<open>x\<close> is the whole array; the code has advanced its pointer by one and decremented \<open>nchars\<close>, so that
  the character of block \<open>a\<close> is entry \<open>a + 1\<close>.  The comparison is unsigned.
\<close>

definition dump_put :: "int \<Rightarrow> u32 \<Rightarrow> byte \<Rightarrow> byte list \<Rightarrow> byte list" where
  "dump_put nchars a c x = (if word_of_int nchars > a then x[unat a + 1 := c] else x)"

definition dump_region :: "int \<Rightarrow> byte \<Rightarrow> u32 \<times> u8 \<Rightarrow> byte list \<Rightarrow> byte list" where
  "dump_region nchars c r x =
     fold (\<lambda>k. dump_put nchars (fst r + word_of_nat k) c) [0..<unat (snd r)] x"

definition dump_inode :: "int \<Rightarrow> fs2_inode \<Rightarrow> byte list \<Rightarrow> byte list" where
  "dump_inode nchars inode x =
     fold (dump_region nchars (if ftype inode = FS2_FTYPE_DIR then 0x44 else 0x46))
       (takeWhile (\<lambda>r. fst r \<noteq> 0) (zip (take 23 (reg_start inode)) (reg_len inode))) x"

function dump_inodes ::
    "fs2_volume \<Rightarrow> fs2_iblock \<Rightarrow> int \<Rightarrow> nat \<Rightarrow> nat \<Rightarrow> byte list \<Rightarrow> (byte list \<times> fs2_volume) option" where
  "dump_inodes w iblock nchars i n x =
     (if i < n then do {
        (ib1, vol1, x1) \<leftarrow>
          (if i mod 32 = 0 then do {
             (bi, ib, v) \<leftarrow> fs2_get_iblock w iblock (word_of_nat (i div 32)) False;
             if nchars > sint bi
             then if sint bi < 0 then None else Some (ib, v, x[nat (sint bi) + 1 := 0x69])
             else Some (ib, v, x)
           }
           else Some (iblock, w, x));
        dump_inodes vol1 ib1 nchars (i + 1) n (dump_inode nchars (ib1 ! (i mod 32)) x1)
      }
      else Some (x, w))"
  by pat_completeness auto
termination
  by (relation "measure (\<lambda>(w, iblock, nchars, i, n, x). n - i)") auto

declare dump_inodes.simps [simp del]

text \<open>Called with \<open>nchars\<close> at least 2.\<close>

definition fs2_block_dump ::
    "fs2_iblock \<Rightarrow> fs2_volume \<Rightarrow> nat \<Rightarrow> (byte list \<times> fs2_volume) option" where
  "fs2_block_dump ib0 w nchars = do {
     let full = (word_of_nat nchars \<ge> nblocks (hblock w) + 2);
     let x = (replicate nchars 0x7E)[0 := 0x5B, 1 := 0x48];
     let n = int nchars - 1;
     (x1, vol1) \<leftarrow> dump_inodes w ib0 n 0 (unat (next_inode (hblock w))) x;
     let h = hblock vol1;
     let regs = takeWhile (\<lambda>r. fst r \<noteq> 0) (take (unat (separator h)) (zip (h_reg_start h) (h_reg_len h)));
     let x2 = fold (dump_region n 0x69) regs x1;
     Some (if full then x2[nchars - 1 := 0x5D] else x2, vol1)
   }"

section \<open>Booting\<close>

text \<open>The three bytes of the ellipsis in UTF-8, and a line feed.\<close>

definition ellipsis :: "byte list" where "ellipsis = [0xE2, 0x80, 0xA6]"

definition nl :: "byte list" where "nl = [0x0A]"

text \<open>One of the three streams; the entry's \<open>open_count\<close> and \<open>cursor\<close> are not set by the code.\<close>

definition init_stream :: "env \<Rightarrow> nat \<Rightarrow> fmode \<Rightarrow> kstate \<Rightarrow> kstate option" where
  "init_stream E i m k =
     (let (a, k1) = malloc E k 20
      in if a = 0 then None
         else
           let k2 = store a (Fdte \<lparr>open_count = junk_count E, fd_type = FT_UART, fd_mode = m,
                                    fd_id = UART0_ADDR, fd_cursor = 0\<rparr>) k1
           in Some (k2\<lparr>openft := (openft k2)[i := a]\<rparr>))"

definition init_fs :: "env \<Rightarrow> kstate \<Rightarrow> kstate option" where
  "init_fs E k = do {
     let k1 = k_print (chars ''Boot: Loading file system'' @ ellipsis @ chars '' '') k;
     v \<leftarrow> fs2_load_volume ((vol k1)\<lparr>blk_0 := 0, outcome := FS2_SUCCESS\<rparr>);
     let k2 = k1\<lparr>vol := v\<rparr>;
     k3 \<leftarrow>
       (if outcome v = FS2_SUCCESS then do {
          let a = k_print (chars ''success!'' @ nl @ chars ''Loaded CWFS2 volume at block 0:''
                           @ nl @ chars ''  '') k2;
          let b = k_print (chars '' blocks.'' @ nl @ chars ''  '') (k_print_int (nblocks (hblock v)) a);
          let c = k_print (chars '' blocks used'' @ nl) (k_print_int (next_block (hblock v)) b);
          let d = k_print (chars '' files.'' @ nl @ chars ''  Block dump:'' @ nl @ chars ''    '')
                    (k_print_int (next_inode (hblock v)) c);
          (x, v1) \<leftarrow> fs2_block_dump (junk_iblock E) (vol d) 64;
          Some (k_printn x (d\<lparr>vol := v1\<rparr>))
        }
        else do {
          let a = k_print (chars ''fail.'' @ nl @ chars ''Formatting volume'' @ ellipsis @ chars '' '') k2;
          v1 \<leftarrow> fs2_format_volume (vol a) 100 (FS2_U_READ OR FS2_U_WRITE) 4 1 2 (junk_n E) (junk_i E);
          Some (k_print (if outcome v1 = FS2_SUCCESS then chars ''success!'' @ nl
                         else chars ''fail.'' @ nl) (a\<lparr>vol := v1\<rparr>))
        });
     k4 \<leftarrow> init_stream E 0 FM_R k3;
     k5 \<leftarrow> init_stream E 1 FM_W k4;
     init_stream E 2 FM_W k5
   }"

text \<open>\<open>init_program\<close> is the address of \<open>sh_main\<close>.\<close>

definition hilevel_handler_rst :: "env \<Rightarrow> u32 \<Rightarrow> ctx \<Rightarrow> kstate \<Rightarrow> (ctx \<times> kstate) option" where
  "hilevel_handler_rst E init_program c k = do {
     k1 \<leftarrow> init_fs E k;
     let k2 = k_print (chars ''Boot: Loading boot programs'' @ nl) k1;
     let (p, k3) = new_user_proc E init_program 5 k2;
     p1 \<leftarrow> p;
     let k4 = k_print (chars ''Boot: Launching shell'' @ nl
                       @ chars ''-------- Boot Complete --------'' @ nl) k3;
     Some (context_switch None p1 c STATUS_CREATED k4)
   }"

definition GIC_SOURCE_TIMER0 :: u32 where "GIC_SOURCE_TIMER0 = 36"

definition hilevel_handler_irq :: "u32 \<Rightarrow> ctx \<Rightarrow> kstate \<Rightarrow> ctx \<times> kstate" where
  "hilevel_handler_irq call c k = (if call = GIC_SOURCE_TIMER0 then schedule c k else (c, k))"

section \<open>System calls\<close>

abbreviation arg :: "ctx \<Rightarrow> nat \<Rightarrow> u32" where
  "arg c r \<equiv> gpr c ! r"

text \<open>A result goes to register 0 of the context.\<close>

definition ret :: "u32 \<Rightarrow> ctx \<times> kstate \<Rightarrow> ctx \<times> kstate" where
  "ret v = apfst (set_reg 0 v)"

definition ret_int :: "ctx \<Rightarrow> (int \<times> kstate) option \<Rightarrow> (ctx \<times> kstate) option" where
  "ret_int c = map_option (\<lambda>(v, k). ret (word_of_int v) (c, k))"

definition ret_bool :: "ctx \<Rightarrow> (bool \<times> kstate) option \<Rightarrow> (ctx \<times> kstate) option" where
  "ret_bool c = map_option (\<lambda>(v, k). ret (bool_reg v) (c, k))"

text \<open>A call on the path in register 0 that works on the volume.\<close>

definition on_path :: "ctx \<Rightarrow> kstate \<Rightarrow> (fs2_volume \<Rightarrow> byte list \<Rightarrow> (bool \<times> fs2_volume) option)
    \<Rightarrow> (ctx \<times> kstate) option" where
  "on_path c k f = do {
     p \<leftarrow> abs_path k (arg c 0);
     (b, v) \<leftarrow> f (vol k) p;
     Some (ret (bool_reg b) (c, k\<lparr>vol := v\<rparr>))
   }"

definition svc_exit :: "ctx \<Rightarrow> kstate \<Rightarrow> (ctx \<times> kstate) option" where
  "svc_exit c k = do {
     k1 \<leftarrow> do_exit k;
     Some (if halted k1 then (c, k1) else next_proc c STATUS_TERMINATED k1)
   }"

definition svc_nice :: "ctx \<Rightarrow> kstate \<Rightarrow> kstate" where
  "svc_nice c k =
     (let p = sint (arg c 0); newp = sint (arg c 1)
      in if p < 0 \<or> p \<ge> int PCB_SIZE \<or> newp < 0 then k
         else upd_pcb (nat p) (\<lambda>q. q\<lparr>base_priority := newp\<rparr>) k)"

definition svc_sem_init :: "ctx \<Rightarrow> kstate \<Rightarrow> (ctx \<times> kstate) option" where
  "svc_sem_init c k =
     (let s = arg c 0; init = arg c 1
      in if init \<ge> word_of_nat PCB_SIZE then Some (ret 0 (c, k))
         else if unat s \<ge> PCB_SIZE then None
         else do {
           k1 \<leftarrow> do_sem_post s (init - sems k ! unat s) k;
           Some (ret 1 (c, k1))
         })"

definition svc_sem_wait :: "env \<Rightarrow> ctx \<Rightarrow> kstate \<Rightarrow> (ctx \<times> kstate) option" where
  "svc_sem_wait E c k = do {
     (ok, k1) \<leftarrow> do_sem_wait E (arg c 0) (arg c 1) k;
     Some (if ok \<or> halted k1 then (c, k1) else next_proc c STATUS_WAITING k1)
   }"

definition svc_open :: "env \<Rightarrow> ctx \<Rightarrow> kstate \<Rightarrow> (ctx \<times> kstate) option" where
  "svc_open E c k =
     (let i = first_free (\<lambda>x. x = -1) (fdt (cpcb k)) 0
      in if i = 32 then Some (ret (-1) (c, k))
         else do {
           (f, k1) \<leftarrow> do_open E (arg c 0) (ucast (arg c 1)) k;
           Some (if f \<noteq> -1 then ret (word_of_nat i) (c, set_fdt i f k1) else ret (-1) (c, k1))
         })"

definition svc_fd_swap :: "ctx \<Rightarrow> kstate \<Rightarrow> ctx \<times> kstate" where
  "svc_fd_swap c k =
     (let fd1 = sint (arg c 0); fd2 = sint (arg c 1)
      in if fd1 < 0 \<or> fd2 < 0 \<or> fd1 \<ge> 32 \<or> fd2 \<ge> 32 then ret 0 (c, k)
         else
           let t = fdt (cpcb k) ! nat fd1;
               k1 = set_fdt (nat fd1) (fdt (cpcb k) ! nat fd2) k;
               k2 = set_fdt (nat fd2) t k1
           in ret 1 (c, k2))"

definition svc_ls :: "ctx \<Rightarrow> kstate \<Rightarrow> (ctx \<times> kstate) option" where
  "svc_ls c k = do {
     p \<leftarrow> abs_path k (arg c 0);
     (b, out, v) \<leftarrow> fs2_ls (vol k) p (sint (arg c 2));
     Some (ret (bool_reg b) (c, k\<lparr>vol := v, mem := mem_put (arg c 1) out (mem k)\<rparr>))
   }"

definition svc_getwd :: "ctx \<Rightarrow> kstate \<Rightarrow> ctx \<times> kstate" where
  "svc_getwd c k =
     ret 1 (c, k\<lparr>mem := mem_put (arg c 0) (strncpy (unat (arg c 1)) (wd (cpcb k))) (mem k)\<rparr>)"

definition hilevel_handler_svc :: "env \<Rightarrow> u32 \<Rightarrow> ctx \<Rightarrow> kstate \<Rightarrow> (ctx \<times> kstate) option" where
  "hilevel_handler_svc E call c k =
     (if call = 0 then Some (next_proc c STATUS_READY k)
      else if call = 1 then ret_int c (do_write E (sint (arg c 0)) (arg c 1) (sint (arg c 2)) k)
      else if call = 2 then ret_int c (do_read E (sint (arg c 0)) (arg c 1) (sint (arg c 2)) k)
      else if call = 3 then do_fork E c k
      else if call = 4 then svc_exit c k
      else if call = 5 then Some (do_exec c k, k)
      else if call = 6 then map_option (Pair c) (do_kill (sint (arg c 0)) k)
      else if call = 7 then Some (c, svc_nice c k)
      else if call = 8 then svc_sem_init c k
      else if call = 9 then map_option (Pair c) (do_sem_post (arg c 0) (arg c 1) k)
      else if call = 0xA then svc_sem_wait E c k
      else if call = 0xB then svc_open E c k
      else if call = 0xC then ret_bool c (do_close (sint (arg c 0)) k)
      else if call = 0xD then Some (svc_fd_swap c k)
      else if call = 0xE then Some (c, snd (do_pipe E (arg c 0) k))
      else if call = 0xF then Some (let c1 = do_exec c k in set_reg 0 (gpr c1 ! 1) c1, k)
      else if call = 0x10 then on_path c k (\<lambda>v p. fs2_isftype v p FS2_FTYPE_FILE)
      else if call = 0x11 then on_path c k (\<lambda>v p. fs2_isftype v p FS2_FTYPE_DIR)
      else if call = 0x12 then ret_bool c (do_cd (arg c 0) k)
      else if call = 0x13 then svc_ls c k
      else if call = 0x14 then on_path c k fs2_rm
      else if call = 0x15
      then on_path c k (\<lambda>v p. fs2_create v FS2_FTYPE_FILE p (junk_n E) (junk_i E))
      else if call = 0x16
      then on_path c k (\<lambda>v p. fs2_create v FS2_FTYPE_DIR p (junk_n E) (junk_i E))
      else if call = 0x18 then Some (svc_getwd c k)
      else Some (c, k))"

end
