(* ===== verification/Kernel_Inv.thy ===== *)
theory Kernel_Inv
  imports Svc
begin

text \<open>
  The kernel as a state machine: the invariant of its tables, its preservation by every handler, and
  the states reachable from power-on.
\<close>

section \<open>The invariant of the kernel\<close>

definition ctx_ok :: "ctx \<Rightarrow> bool" where
  "ctx_ok c \<longleftrightarrow> length (gpr c) = 13"

definition pcb_ok :: "pcb \<Rightarrow> bool" where
  "pcb_ok p \<longleftrightarrow> 0 \<le> pid p \<and> pid p < int PCB_SIZE \<and> length (fdt p) = 32 \<and> ctx_ok (pctx p)"

text \<open>
  The tables can be indexed as the code does.  \<open>kernel_inv\<close> adds what ties the process table to the
  allocation bitmap and to the current process.
\<close>

definition tables_ok :: "kstate \<Rightarrow> bool" where
  "tables_ok k \<longleftrightarrow> length (pcbs k) = PCB_SIZE \<and> 0 \<le> current k \<and> current k < int PCB_SIZE
     \<and> (\<forall>i < PCB_SIZE. pcb_ok (pcbs k ! i))
     \<and> length (sems k) = PCB_SIZE \<and> length (pipes k) = PCB_SIZE \<and> length (openft k) = 64"

definition kernel_inv :: "kstate \<Rightarrow> bool" where
  "kernel_inv k \<longleftrightarrow> others_idle k \<and> (\<forall>i < PCB_SIZE. pcb_ok (pcbs k ! i))
     \<and> length (sems k) = PCB_SIZE \<and> length (pipes k) = PCB_SIZE \<and> length (openft k) = 64"

lemma kernel_inv_tables: "kernel_inv k \<longleftrightarrow> others_idle k \<and> tables_ok k"
  by (auto simp: kernel_inv_def tables_ok_def others_idle_def procs_ok_def)

lemma tables_less: "tables_ok k \<Longrightarrow> cur k < PCB_SIZE"
  by (auto simp: tables_ok_def)

lemma tables_frame: "frame k k' \<Longrightarrow> tables_ok k \<Longrightarrow> tables_ok k'"
  by (simp add: tables_ok_def frame_def pcb_frame_def pcb_ok_def)

lemma tables_upd [simp]:
  "tables_ok (k\<lparr>pcballoc := b\<rparr>) = tables_ok k" "tables_ok (k\<lparr>halted := h\<rparr>) = tables_ok k"
  "tables_ok (k\<lparr>current_runtime := n\<rparr>) = tables_ok k"
  "length ss = length (sems k) \<Longrightarrow> tables_ok (k\<lparr>sems := ss\<rparr>) = tables_ok k"
  by (simp_all add: tables_ok_def)

lemma tables_upd_pcb:
  assumes "tables_ok k" "i < PCB_SIZE \<Longrightarrow> pcb_ok (pcbs k ! i) \<Longrightarrow> pcb_ok (f (pcbs k ! i))"
  shows "tables_ok (upd_pcb i f k)"
  using assms by (cases "i < PCB_SIZE") (auto simp: tables_ok_def nth_list_update)

lemma tables_halt: "tables_ok k \<Longrightarrow> tables_ok (halt_if_none k)"
  by (simp add: halt_if_none_def halt_def tables_frame [of k])

lemma kernel_inv_frame:
  assumes f: "frame k k'" and k: "kernel_inv k"
  shows "kernel_inv k'"
proof -
  have e: "process_exists k' = process_exists k"
    using f by (simp add: frame_def process_exists_def fun_eq_iff)
  show ?thesis
    using f k by (simp add: kernel_inv_def others_idle_def procs_ok_def frame_def e pcb_frame_def pcb_ok_def)
qed

lemma kernel_inv_upd_pcb:
  assumes k: "kernel_inv k" and p: "p = pcbs k ! i"
    and f: "pid (f p) = pid p" "length (fdt (f p)) = length (fdt p)"
      "length (gpr (pctx (f p))) = length (gpr (pctx p)) \<or> ctx_ok (pctx (f p))"
    and s: "i = cur k \<or> status (f p) \<noteq> STATUS_EXECUTING \<or> status (f p) = status p"
  shows "kernel_inv (upd_pcb i f k)"
proof -
  have e: "process_exists (upd_pcb i f k) = process_exists k"
    by (simp add: process_exists_def fun_eq_iff)
  show ?thesis
  proof (cases "i < length (pcbs k)")
    case True
    then show ?thesis
      using k f s p
      by (auto simp: kernel_inv_def others_idle_def procs_ok_def e pcb_ok_def ctx_ok_def nth_list_update)
  next
    case False
    then show ?thesis using k
      by (simp add: kernel_inv_def others_idle_def procs_ok_def e not_less list_update_beyond)
  qed
qed

lemma kernel_inv_dealloc:
  assumes k: "kernel_inv k" and b: "\<And>i. bit b i \<Longrightarrow> bit (pcballoc k) i"
  shows "kernel_inv (k\<lparr>pcballoc := b\<rparr>)"
  using k b by (auto simp: kernel_inv_def others_idle_def procs_ok_def process_exists_bit)

lemma kernel_inv_halt: "kernel_inv k \<Longrightarrow> kernel_inv (halt_if_none k)"
proof -
  assume k: "kernel_inv k"
  have "kernel_inv (k1\<lparr>halted := h\<rparr>) = kernel_inv k1" for k1 h
    by (simp add: kernel_inv_def others_idle_def procs_ok_def process_exists_def)
  then show ?thesis
    using k by (simp add: halt_if_none_def halt_def kernel_inv_frame [of k])
qed

text \<open>The arithmetic of the allocation bitmap.\<close>

lemma minus_exp_bit:
  assumes "bit w p"
  shows "(w :: u32) - push_bit p 1 = unset_bit p w"
proof -
  have "unset_bit p w + push_bit p 1 = unset_bit p w OR push_bit p 1"
    by (rule disjunctive_add) (auto simp: bit_simps)
  also have "\<dots> = w"
  proof (rule bit_word_eqI)
    fix n assume "n < LENGTH(32)"
    then show "bit (unset_bit p w OR push_bit p 1) n = bit w n"
      using assms by (cases "n = p") (auto simp: bit_simps)
  qed
  finally show ?thesis by (simp add: algebra_simps)
qed

lemma exists_after_dealloc:
  "process_exists k p \<Longrightarrow> bit (pcballoc k - push_bit p 1) i \<longleftrightarrow> process_exists k i \<and> i \<noteq> p"
proof -
  assume "process_exists k p"
  then have "pcballoc k - push_bit p 1 = unset_bit p (pcballoc k)"
    by (intro minus_exp_bit) (simp add: process_exists_bit)
  then show ?thesis
    by (simp only:) (auto simp: process_exists_bit bit_simps dest: bit_imp_le_length)
qed

section \<open>Switches\<close>

lemma kernel_inv_switch_to:
  assumes k: "kernel_inv k" and c: "ctx_ok c" and i: "i < PCB_SIZE" "process_exists k i" "i \<noteq> cur k"
    and st: "st \<noteq> STATUS_EXECUTING" and s: "context_switch (Some (cur k)) i c st k = (c', k')"
  shows "kernel_inv k' \<and> ctx_ok c'"
proof -
  have len: "length (pcbs k) = PCB_SIZE" "cur k < PCB_SIZE" "pid (pcbs k ! i) = int i"
    using k i by (auto simp: kernel_inv_def others_idle_def procs_ok_def)
  have k': "k' = (upd_pcb i (\<lambda>p. p\<lparr>status := STATUS_EXECUTING\<rparr>)
      (upd_pcb (cur k) (\<lambda>p. p\<lparr>pctx := c, status := st\<rparr>) k))\<lparr>current := int i\<rparr>"
    and c': "c' = pctx (pcbs k ! i)"
    using s i len by (auto simp: context_switch_def Let_def nth_list_update)
  have e: "process_exists k' = process_exists k"
    by (simp add: k' process_exists_def fun_eq_iff)
  show ?thesis
    using k c i st len
    by (auto simp: kernel_inv_def others_idle_def procs_ok_def e pcb_ok_def)
       (auto simp: k' c' nth_list_update split: if_splits)
qed

lemma kernel_inv_runtime [simp]: "kernel_inv (k\<lparr>current_runtime := t\<rparr>) = kernel_inv k"
  by (simp add: kernel_inv_def others_idle_def procs_ok_def process_exists_def)

lemma kernel_inv_next:
  assumes k: "kernel_inv k" and c: "ctx_ok c" and st: "st \<noteq> STATUS_EXECUTING"
    and s: "next_proc c st k = (c', k')"
  shows "kernel_inv k' \<and> ctx_ok c'"
proof -
  let ?k = "k\<lparr>current_runtime := 0\<rparr>"
  have p: "procs_ok k" using k by (simp add: kernel_inv_def others_idle_def)
  show ?thesis
  proof (rule next_ready_cases [OF p])
    assume "next_ready k = cur k"
    then show ?thesis using s k c by (auto simp: next_proc_def Let_def)
  next
    assume r: "next_ready k \<noteq> cur k" "next_ready k < PCB_SIZE" "process_can_run k (next_ready k)"
    have x: "process_exists ?k (next_ready k)"
      using r(3) by (simp add: process_can_run_iff process_exists_def)
    have "context_switch (Some (cur ?k)) (next_ready k) c st ?k = (c', k')"
      using s r(1) by (simp add: next_proc_def Let_def)
    then show ?thesis
      using kernel_inv_switch_to [of ?k c "next_ready k" st c' k'] k c st r(1,2) x by simp
  qed
qed

lemma kernel_inv_schedule:
  assumes k: "kernel_inv k" and c: "ctx_ok c" and s: "schedule c k = (c', k')"
  shows "kernel_inv k' \<and> ctx_ok c'"
proof (cases "base_priority (cpcb k) \<le> current_runtime k")
  case True
  obtain c1 k1 where n: "next_proc c STATUS_READY k = (c1, k1)" by fastforce
  then show ?thesis
    using kernel_inv_next [OF k c _ n] s True by (auto simp: schedule_def)
next
  case False
  then show ?thesis using s k c by (auto simp: schedule_waits)
qed

section \<open>Every handler preserves the invariant\<close>

lemma frame_close_from: "close_from i k = Some k' \<Longrightarrow> frame k k'"
proof (induction i k rule: close_from.induct)
  case (1 i k)
  show ?case
  proof (cases "i < 32")
    case False
    then show ?thesis using 1(2) by (subst (asm) close_from.simps) simp
  next
    case True
    then obtain k1 where k1: "(if fdt (cpcb k) ! i \<noteq> -1 then map_option snd (do_close (int i) k) else Some k) = Some k1"
      and k': "close_from (i + 1) k1 = Some k'"
      using 1(2) by (subst (asm) close_from.simps) (auto split: Option.bind_splits)
    have "frame k k1" using k1 by (auto dest: frame_do_close split: if_splits)
    then show ?thesis using 1(1) [OF True k1 k'] frame_trans by blast
  qed
qed

lemma frame_store_left [simp]: "frame (store a x k) k' = frame k k'"
  by (simp add: frame_def store_def)

lemma frame_count_fds: "count_fds fds k = Some k' \<Longrightarrow> frame k k'"
  by (induction fds k rule: count_fds.induct)
     (auto split: if_splits Option.bind_splits)

lemma kernel_inv_do_exit:
  assumes k: "kernel_inv k" and x: "process_exists k (cur k)" and s: "do_exit k = Some k'"
  shows "kernel_inv k'" "current k' = current k"
    "process_exists k' i \<longleftrightarrow> process_exists k i \<and> i \<noteq> cur k"
proof -
  let ?k1 = "upd_pcb (cur k) (\<lambda>p. p\<lparr>status := STATUS_TERMINATED, base_priority := -1\<rparr>) k"
  obtain k2 k3 where k2: "free ?k1 (stack (cpcb ?k1)) = Some k2" and k3: "close_from 0 k2 = Some k3"
    and k': "k' = halt_if_none (k3\<lparr>pcballoc := pcballoc k3 - push_bit (cur k3) 1\<rparr>)"
    using s by (auto simp: do_exit_def Let_def split: Option.bind_splits)
  have f: "frame ?k1 k3"
    using frame_free [OF k2, of ?k1] frame_close_from [OF k3] by (auto intro: frame_trans)
  have "kernel_inv ?k1" by (rule kernel_inv_upd_pcb [OF k refl]) simp_all
  then have k3: "kernel_inv k3" "pcballoc k3 = pcballoc k" "current k3 = current k"
    using kernel_inv_frame [OF f] f by (simp_all add: frame_def)
  have x3: "process_exists k3 (cur k3)" using x k3 by (simp add: process_exists_def)
  have e: "process_exists k3 i = process_exists k i" for i using k3 by (simp add: process_exists_def)
  show "kernel_inv k'"
    unfolding k' using k3(1) exists_after_dealloc [OF x3]
    by (intro kernel_inv_halt kernel_inv_dealloc) (auto simp: process_exists_bit)
  have h: "pcballoc (halt_if_none k4) = pcballoc k4" "current (halt_if_none k4) = current k4" for k4
  proof -
    have "frame k4 (k_print s k4)" for s by simp
    then show "pcballoc (halt_if_none k4) = pcballoc k4" "current (halt_if_none k4) = current k4"
      by (auto simp: halt_if_none_def halt_def frame_def)
  qed
  show "current k' = current k" using k' k3(3) h by simp
  show "process_exists k' i \<longleftrightarrow> process_exists k i \<and> i \<noteq> cur k"
    using exists_after_dealloc [OF x3, of i] k' h k3(3) e by (simp add: process_exists_bit)
qed

lemma kernel_inv_do_kill:
  assumes k: "kernel_inv k" and s: "do_kill p k = Some k'"
  shows "kernel_inv k'" "current k' = current k"
    "process_exists k' i \<longleftrightarrow> process_exists k i \<and> int i \<noteq> p"
proof -
  have h: "pcballoc (halt_if_none k4) = pcballoc k4" "current (halt_if_none k4) = current k4" for k4
  proof -
    have "frame k4 (k_print s k4)" for s by simp
    then show "pcballoc (halt_if_none k4) = pcballoc k4" "current (halt_if_none k4) = current k4"
      by (auto simp: halt_if_none_def halt_def frame_def)
  qed
  have "kernel_inv k' \<and> current k' = current k \<and> (process_exists k' i \<longleftrightarrow> process_exists k i \<and> int i \<noteq> p)"
  proof (cases "0 \<le> p \<and> p < int PCB_SIZE \<and> process_exists k (nat p)")
    case True
    let ?k1 = "k\<lparr>pcballoc := pcballoc k - push_bit (nat p) 1\<rparr>"
    obtain k2 where k2: "free ?k1 (stack (pcbs k ! nat p)) = Some k2" and k': "k' = halt_if_none k2"
      using s True by (auto simp: do_kill_def split: Option.bind_splits)
    have f: "frame ?k1 k2" using frame_free [OF k2, of ?k1] by simp
    note e = exists_after_dealloc [of k "nat p"]
    have "kernel_inv ?k1"
      using k True e by (intro kernel_inv_dealloc) (auto simp: process_exists_bit)
    then have "kernel_inv k'" unfolding k' by (intro kernel_inv_halt kernel_inv_frame [OF f])
    moreover have "current k' = current k" using f k' h by (simp add: frame_def)
    moreover have "process_exists k' i \<longleftrightarrow> process_exists k i \<and> int i \<noteq> p"
      using f k' h e [of i] True by (auto simp: frame_def process_exists_bit)
    ultimately show ?thesis by blast
  next
    case False
    then have "k' = k \<or> k' = halt_if_none k" using s by (auto simp: do_kill_def split: if_splits)
    moreover have "\<not> (process_exists k i \<and> int i = p)"
      using False process_exists_less [of k i] by auto
    ultimately show ?thesis
      using k kernel_inv_halt h by (auto simp: process_exists_def)
  qed
  then show "kernel_inv k'" "current k' = current k"
    "process_exists k' i \<longleftrightarrow> process_exists k i \<and> int i \<noteq> p" by auto
qed

lemma kernel_inv_sem_post:
  assumes k: "kernel_inv k" and s: "do_sem_post sem_id x k = Some k'"
  shows "kernel_inv k' \<and> current k' = current k \<and> process_exists k' = process_exists k"
proof -
  have sems: "kernel_inv (k\<lparr>sems := ss\<rparr>)" if "length ss = length (sems k)" for ss
    by (rule kernel_inv_frame [OF _ k]) (simp add: that)
  define i where "i = scan (\<lambda>i. dangling k i \<or> eligible k sem_id x i) (cur k) (Suc (cur k) mod PCB_SIZE)"
  show ?thesis
  proof (cases "unat sem_id \<ge> PCB_SIZE \<or> x = 0 \<or> i = cur k")
    case True
    then show ?thesis
      using s sems k by (auto simp: do_sem_post_def i_def [symmetric] Let_def process_exists_def split: if_splits)
  next
    case False
    then obtain w where w: "load_semwait k (waiting (pcbs k ! i)) = Some w"
      using s by (cases "load_semwait k (waiting (pcbs k ! i))")
        (simp_all add: do_sem_post_def i_def [symmetric] Let_def)
    then have k': "free (upd_pcb i (\<lambda>p. p\<lparr>status := STATUS_READY\<rparr>)
            (k\<lparr>sems := (sems k)[unat sem_id := sems k ! unat sem_id + (x - sw_x w)]\<rparr>))
          (waiting ((pcbs k)[i := (pcbs k ! i)\<lparr>status := STATUS_READY\<rparr>] ! i)) = Some k'"
      using s False by (simp add: do_sem_post_def i_def [symmetric] Let_def)
    define k2 where k2: "k2 = upd_pcb i (\<lambda>p. p\<lparr>status := STATUS_READY\<rparr>)
            (k\<lparr>sems := (sems k)[unat sem_id := sems k ! unat sem_id + (x - sw_x w)]\<rparr>)"
    note k' = k' [folded k2]
    have "kernel_inv k2" unfolding k2 by (rule kernel_inv_upd_pcb [OF sems refl]) simp_all
    moreover have f: "frame k2 k'" using frame_free [OF k', of k2] by simp
    ultimately have "kernel_inv k'" using kernel_inv_frame by blast
    then show ?thesis using f k2 by (simp add: frame_def process_exists_def fun_eq_iff)
  qed
qed

lemma kernel_inv_sem_wait:
  assumes k: "kernel_inv k" "process_exists k (cur k)"
    and s: "do_sem_wait E sem_id x k = Some (ok, k')"
  shows "kernel_inv k' \<and> current k' = current k \<and> (halted k' \<or> process_exists k' (cur k'))"
proof (cases "unat sem_id \<ge> PCB_SIZE")
  case True
  let ?k = "invalid_sem_msg (current k) k"
  have f: "frame k ?k" by (simp add: invalid_sem_msg_def Let_def)
  obtain k1 where k1: "do_exit ?k = Some k1" "k' = k1" "halted k1"
    using s True by (auto simp: do_sem_wait_def Let_def split: Option.bind_splits if_splits)
  have "kernel_inv ?k" "process_exists ?k (cur ?k)" "current ?k = current k"
    using kernel_inv_frame [OF f k(1)] k(2) f by (simp_all add: frame_def process_exists_def)
  then show ?thesis using kernel_inv_do_exit(1,2) [of ?k k1] k1 by simp
next
  case False
  show ?thesis
  proof (cases "sems k ! unat sem_id \<ge> x")
    case True
    then have k': "k' = k\<lparr>sems := (sems k)[unat sem_id := sems k ! unat sem_id - x]\<rparr>"
      using s False by (simp add: do_sem_wait_def Let_def)
    have f: "frame k k'" by (simp add: k')
    show ?thesis
      using kernel_inv_frame [OF f k(1)] k(2) f by (simp add: frame_def process_exists_def)
  next
    case less: False
    let ?k1 = "upd_pcb (cur k) (\<lambda>p. p\<lparr>status := STATUS_WAITING\<rparr>) k"
    obtain a k2 where m: "malloc E ?k1 8 = (a, k2)" by fastforce
    have k': "k' = store a (Semwait \<lparr>sw_id = sem_id, sw_x = x\<rparr>) (upd_pcb (cur k2) (\<lambda>p. p\<lparr>waiting := a\<rparr>) k2)"
      using s False less m by (auto simp: do_sem_wait_def Let_def split: if_splits)
    have k1: "kernel_inv ?k1" by (rule kernel_inv_upd_pcb [OF k(1) refl]) simp_all
    have f2: "frame ?k1 k2" using frame_malloc [OF m, of ?k1] by simp
    have "kernel_inv (upd_pcb (cur k2) (\<lambda>p. p\<lparr>waiting := a\<rparr>) k2)"
      by (rule kernel_inv_upd_pcb [OF kernel_inv_frame [OF f2 k1] refl]) simp_all
    moreover have "frame (upd_pcb (cur k2) (\<lambda>p. p\<lparr>waiting := a\<rparr>) k2) k'" by (simp add: k')
    ultimately have "kernel_inv k'" using kernel_inv_frame by blast
    then show ?thesis using f2 k(2) by (simp add: frame_def process_exists_def store_def k')
  qed
qed

section \<open>Fork\<close>

text \<open>A \<open>fork\<close> that finds no memory for the stack of the child.\<close>

definition starved :: "env \<Rightarrow> u32 \<Rightarrow> kstate \<Rightarrow> bool" where
  "starved E call k \<longleftrightarrow> call = 3 \<and> malloc_at E (heap k) STACK_BYTES = 0"

lemma first_unallocated_spec:
  "i \<le> PCB_SIZE \<Longrightarrow> first_unallocated k i \<le> PCB_SIZE
     \<and> (\<forall>j. i \<le> j \<and> j < first_unallocated k i \<longrightarrow> process_exists k j)
     \<and> (first_unallocated k i < PCB_SIZE \<longrightarrow> \<not> process_exists k (first_unallocated k i))"
proof (induction k i rule: first_unallocated.induct)
  case (1 k i)
  show ?case
  proof (cases "process_exists k i \<and> i < PCB_SIZE")
    case True
    then have "first_unallocated k i = first_unallocated k (i + 1)" by (subst first_unallocated.simps) simp
    moreover have "j = i \<or> i + 1 \<le> j" if "i \<le> j" for j using that by linarith
    ultimately show ?thesis using 1(1) [OF True] True by (metis Suc_eq_plus1 Suc_leI)
  next
    case False
    then have "first_unallocated k i = i" by (subst first_unallocated.simps) (simp only: if_False)
    then show ?thesis using False 1(2) by auto
  qed
qed

lemma new_pcb_entry_cases:
  assumes "new_pcb_entry k = (i, k')"
  obtains (full) "i = PCB_SIZE" "k' = k" "\<And>j. j < PCB_SIZE \<Longrightarrow> process_exists k j"
  | (free) "i < PCB_SIZE" "\<not> process_exists k i" "\<And>j. j < i \<Longrightarrow> process_exists k j"
      "k' = k\<lparr>pcballoc := pcballoc k OR push_bit i 1\<rparr>" "\<And>j. process_exists k' j \<longleftrightarrow> j = i \<or> process_exists k j"
proof -
  note s = first_unallocated_spec [of 0 k]
  have i: "i = first_unallocated k 0" using assms by (simp add: new_pcb_entry_def Let_def)
  show ?thesis
  proof (cases "i = PCB_SIZE")
    case True
    then show ?thesis using full assms s i by (auto simp: new_pcb_entry_def Let_def)
  next
    case False
    then have k': "k' = k\<lparr>pcballoc := pcballoc k OR push_bit i 1\<rparr>" and lt: "i < PCB_SIZE"
      using assms s i by (auto simp: new_pcb_entry_def Let_def)
    have "process_exists k' j \<longleftrightarrow> j = i \<or> process_exists k j" for j
      using lt by (auto simp: k' process_exists_bit bit_simps PCB_SIZE_def)
    then show ?thesis using free lt k' s i by auto
  qed
qed

lemma kernel_inv_fork:
  assumes k: "kernel_inv k" "process_exists k (cur k)" and c: "ctx_ok c" and E: "malloc_at E (heap k) STACK_BYTES \<noteq> 0"
    and s: "do_fork E c k = Some (c', k')"
  shows "kernel_inv k' \<and> ctx_ok c' \<and> current k' = current k \<and> process_exists k' (cur k')"
proof -
  let ?k1 = "upd_pcb (cur k) (\<lambda>p. p\<lparr>pctx := c\<rparr>) k"
  have k1: "kernel_inv ?k1" by (rule kernel_inv_upd_pcb [OF k(1) refl]) (simp_all add: c)
  have x1: "process_exists ?k1 = process_exists k" by (simp add: process_exists_def fun_eq_iff)
  obtain i k2 where n: "new_pcb_entry ?k1 = (i, k2)" by fastforce
  from n show ?thesis
  proof (cases rule: new_pcb_entry_cases)
    case full
    have f: "frame ?k1 (k_putc 0x21 ?k1)" by simp
    have "k' = k_putc 0x21 ?k1" "c' = set_reg 0 (-1) c"
      using s n full by (simp_all add: do_fork_def Let_def)
    then show ?thesis
      using kernel_inv_frame [OF f k1] f k(2) c by (simp add: frame_def process_exists_def ctx_ok_def set_reg_def)
  next
    case free
    have ne: "i \<noteq> cur k" using free(2) k(2) x1 by auto
    define p where "p = cpcb k2"
    have p: "p = (cpcb k)\<lparr>pctx := c\<rparr>" "pcb_ok p"
      using free(4) k(1) c procs_ok_less [of k]
      by (auto simp: p_def kernel_inv_def others_idle_def pcb_ok_def)
    define k3 where "k3 = upd_pcb i (\<lambda>_. p) k2"
    obtain stk k4 where m: "malloc E k3 STACK_BYTES = (stk, k4)" by fastforce
    have stk: "stk \<noteq> 0" and k4: "pcbs k4 = pcbs k3" "pcballoc k4 = pcballoc k3" "current k4 = current k"
      "length (sems k4) = length (sems k)" "length (pipes k4) = length (pipes k)"
      "length (openft k4) = length (openft k)"
      using m E free(4) by (auto simp: malloc_def Let_def k3_def)
    define k6 where "k6 = upd_pcb i (\<lambda>p. p\<lparr>pid := int i, status := STATUS_CREATED, stack := stk,
        pctx := set_reg 0 0 ((pctx p)\<lparr>sp := sp (pctx p) + (stk - stack (cpcb k4))\<rparr>)\<rparr>)
        (k4\<lparr>mem := mem_put stk (mem_bytes (mem k4) (stack (cpcb k4)) STACK_BYTES) (mem k4)\<rparr>)"
    obtain k7 where k7: "count_fds (fdt (cpcb k6)) k6 = Some k7" and r: "k' = k7" "c' = set_reg 0 (word_of_nat i) c"
      using s n free(1) stk m by (auto simp: do_fork_def Let_def k3_def p_def k6_def free(4) split: Option.bind_splits)
    have f: "frame k6 k7" using frame_count_fds [OF k7] .
    have e: "process_exists k6 j \<longleftrightarrow> j = i \<or> process_exists k j" for j
      using free(5) x1 k4(2) by (simp add: k6_def k3_def process_exists_def)
    have q: "pcbs k6 = (pcbs k)[cur k := p, i := p\<lparr>pid := int i, status := STATUS_CREATED, stack := stk,
        pctx := set_reg 0 0 ((pctx p)\<lparr>sp := sp (pctx p) + (stk - stack (pcbs k4 ! cur k))\<rparr>)\<rparr>]"
      using free(4,1) k4(1,3) p k(1) by (simp add: k6_def k3_def kernel_inv_def others_idle_def procs_ok_def)
    have "kernel_inv k6"
      using k p(2) free(1) ne k4(3-6) q
      by (auto simp: kernel_inv_def others_idle_def procs_ok_def e pcb_ok_def ctx_ok_def set_reg_def)
         (auto simp: k6_def nth_list_update p(1) split: if_splits)
    then show ?thesis
      using kernel_inv_frame [OF f] f k(2) c r e [of "cur k"] k4(3)
      by (simp add: frame_def process_exists_def ctx_ok_def set_reg_def k6_def)
  qed
qed

section \<open>The sizes of the tables alone\<close>

text \<open>
  The same operations from any state, also when the current process has been given back, when the
  allocator has nothing left or when the bitmap no longer fits the table.
\<close>

lemma tables_switch:
  assumes k: "tables_ok k" "ctx_ok c" and i: "i < PCB_SIZE" and s: "context_switch (Some j) i c st k = (c', k')"
  shows "tables_ok k' \<and> ctx_ok c'"
proof -
  define k1 where "k1 = upd_pcb j (\<lambda>p. p\<lparr>pctx := c, status := st\<rparr>) k"
  have k1: "tables_ok k1"
    unfolding k1_def by (rule tables_upd_pcb [OF k(1)]) (simp add: pcb_ok_def k(2))
  then have p: "pcb_ok (pcbs k1 ! i)" "length (pcbs k1) = PCB_SIZE" using i by (simp_all add: tables_ok_def)
  have k': "k' = (upd_pcb i (\<lambda>p. p\<lparr>status := STATUS_EXECUTING\<rparr>) k1)\<lparr>current := pid (pcbs k1 ! i)\<rparr>"
    "c' = pctx (pcbs k1 ! i)"
    using s i p(2) by (auto simp: context_switch_def k1_def [symmetric] Let_def)
  have "tables_ok (upd_pcb i (\<lambda>p. p\<lparr>status := STATUS_EXECUTING\<rparr>) k1)"
    by (rule tables_upd_pcb [OF k1]) (simp add: pcb_ok_def)
  then show ?thesis using p(1) k' by (simp add: tables_ok_def pcb_ok_def)
qed

lemma next_ready_less: "cur k < PCB_SIZE \<Longrightarrow> next_ready k < PCB_SIZE"
proof -
  assume c: "cur k < PCB_SIZE"
  show ?thesis
  proof (cases "find (process_can_run k) (after (cur k))")
    case (Some j)
    then have "j \<in> set (after (cur k))" by (auto simp: find_Some_iff)
    then show ?thesis using set_after [OF c] scan_find [OF c] Some by (simp add: next_ready_def)
  qed (use c scan_find [OF c] in \<open>simp add: next_ready_def\<close>)
qed

lemma tables_next:
  assumes k: "tables_ok k" "ctx_ok c" and s: "next_proc c st k = (c', k')"
  shows "tables_ok k' \<and> ctx_ok c'"
proof -
  let ?k = "k\<lparr>current_runtime := 0\<rparr>"
  have k1: "tables_ok ?k" using k by simp
  then have "next_ready ?k < PCB_SIZE" by (intro next_ready_less tables_less)
  then show ?thesis
    using tables_switch [OF k1 k(2), of "next_ready ?k" "cur k" st c' k'] s k k1
    by (auto simp: next_proc_def Let_def split: if_splits)
qed

lemma tables_schedule:
  assumes k: "tables_ok k" "ctx_ok c" and s: "schedule c k = (c', k')"
  shows "tables_ok k' \<and> ctx_ok c'"
proof (cases "base_priority (cpcb k) \<le> current_runtime k")
  case True
  obtain c1 k1 where n: "next_proc c STATUS_READY k = (c1, k1)" by fastforce
  then show ?thesis using tables_next [OF k n] s True by (auto simp: schedule_def)
next
  case False
  then show ?thesis using s k by (auto simp: schedule_waits)
qed

lemma tables_exit:
  assumes k: "tables_ok k" and s: "do_exit k = Some k'"
  shows "tables_ok k'"
proof -
  let ?k1 = "upd_pcb (cur k) (\<lambda>p. p\<lparr>status := STATUS_TERMINATED, base_priority := -1\<rparr>) k"
  obtain k2 k3 where k2: "free ?k1 (stack (cpcb ?k1)) = Some k2" and k3: "close_from 0 k2 = Some k3"
    and k': "k' = halt_if_none (k3\<lparr>pcballoc := pcballoc k3 - push_bit (cur k3) 1\<rparr>)"
    using s by (auto simp: do_exit_def Let_def split: Option.bind_splits)
  have f: "frame ?k1 k3"
    using frame_free [OF k2, of ?k1] frame_close_from [OF k3] by (auto intro: frame_trans)
  have "tables_ok ?k1" by (rule tables_upd_pcb [OF k]) (simp add: pcb_ok_def)
  from tables_frame [OF f this] show ?thesis unfolding k' by (intro tables_halt) simp
qed

lemma tables_kill:
  assumes k: "tables_ok k" and s: "do_kill p k = Some k'"
  shows "tables_ok k'"
proof -
  have "tables_ok k2" if "free (k\<lparr>pcballoc := b\<rparr>) a = Some k2" for b a k2
    using frame_free [OF that, of "k\<lparr>pcballoc := b\<rparr>"] tables_frame [of "k\<lparr>pcballoc := b\<rparr>" k2] k by simp
  then show ?thesis
    using s k tables_halt by (auto simp: do_kill_def split: if_splits Option.bind_splits)
qed

lemma tables_sem_post:
  assumes k: "tables_ok k" and s: "do_sem_post sem_id x k = Some k'"
  shows "tables_ok k'"
proof -
  define i where "i = scan (\<lambda>i. dangling k i \<or> eligible k sem_id x i) (cur k) (Suc (cur k) mod PCB_SIZE)"
  have f: "tables_ok k2" if "free (upd_pcb i (\<lambda>p. p\<lparr>status := STATUS_READY\<rparr>) (k\<lparr>sems := (sems k)[n := v]\<rparr>)) a = Some k2"
    for n v a k2
  proof -
    let ?k = "upd_pcb i (\<lambda>p. p\<lparr>status := STATUS_READY\<rparr>) (k\<lparr>sems := (sems k)[n := v]\<rparr>)"
    have "tables_ok ?k" by (rule tables_upd_pcb) (simp_all add: k pcb_ok_def)
    then show ?thesis using frame_free [OF that, of ?k] tables_frame [of ?k k2] by simp
  qed
  then show ?thesis
    using s k by (auto simp: do_sem_post_def i_def [symmetric] Let_def split: if_splits option.splits)
qed

lemma tables_sem_wait:
  assumes k: "tables_ok k" and s: "do_sem_wait E sem_id x k = Some (ok, k')"
  shows "tables_ok k'"
proof -
  have "tables_ok k1" if "do_exit (invalid_sem_msg (current k) k) = Some k1" for k1
  proof -
    have "frame k (invalid_sem_msg (current k) k)" by (simp add: invalid_sem_msg_def Let_def)
    from tables_exit [OF tables_frame [OF this k] that] show ?thesis .
  qed
  moreover have "tables_ok (store a z (upd_pcb (cur k2) (\<lambda>p. p\<lparr>waiting := a\<rparr>) k2))"
    if m: "malloc E (upd_pcb (cur k) (\<lambda>p. p\<lparr>status := STATUS_WAITING\<rparr>) k) 8 = (a, k2)" for a k2 z
  proof -
    let ?k1 = "upd_pcb (cur k) (\<lambda>p. p\<lparr>status := STATUS_WAITING\<rparr>) k"
    let ?k3 = "upd_pcb (cur k2) (\<lambda>p. p\<lparr>waiting := a\<rparr>) k2"
    have "tables_ok ?k1" by (rule tables_upd_pcb [OF k]) (simp add: pcb_ok_def)
    then have "tables_ok k2" using frame_malloc [OF m, of ?k1] tables_frame [of ?k1 k2] by simp
    then have "tables_ok ?k3" by (rule tables_upd_pcb) (simp add: pcb_ok_def)
    then show ?thesis using tables_frame [of ?k3 "store a z ?k3"] by simp
  qed
  ultimately show ?thesis
    using s k by (auto simp: do_sem_wait_def Let_def split: if_splits Option.bind_splits prod.splits)
qed

text \<open>Also what \<open>fork\<close> leaves alone when there is no memory for the stack of the child.\<close>

lemma tables_fork:
  assumes k: "tables_ok k" and c: "ctx_ok c" and s: "do_fork E c k = Some (c', k')"
  shows "tables_ok k'" "ctx_ok c'" "current k' = current k"
    "process_exists k (cur k) \<Longrightarrow> process_exists k' (cur k')"
proof -
  let ?k1 = "upd_pcb (cur k) (\<lambda>p. p\<lparr>pctx := c\<rparr>) k"
  have k1: "tables_ok ?k1" by (rule tables_upd_pcb [OF k]) (simp add: pcb_ok_def c)
  have x1: "process_exists ?k1 = process_exists k" by (simp add: process_exists_def fun_eq_iff)
  obtain i k2 where n: "new_pcb_entry ?k1 = (i, k2)" by fastforce
  have k2: "tables_ok k2" "current k2 = current k" "i \<le> PCB_SIZE"
    "process_exists k (cur k) \<Longrightarrow> process_exists k2 (cur k)"
    using n k1 x1 by (auto elim!: new_pcb_entry_cases)
  define k3 where "k3 = upd_pcb i (\<lambda>_. cpcb k2) k2"
  have "pcb_ok (cpcb k2)" using k2(1) tables_less by (simp add: tables_ok_def)
  then have k3: "tables_ok k3" unfolding k3_def by (intro tables_upd_pcb [OF k2(1)])
  obtain stk k4 where m: "malloc E k3 STACK_BYTES = (stk, k4)" by fastforce
  have f4: "frame k3 k4" using frame_malloc [OF m, of k3] by simp
  define k6 where "k6 = upd_pcb i (\<lambda>p. p\<lparr>pid := int i, status := STATUS_CREATED, stack := stk,
      pctx := set_reg 0 0 ((pctx p)\<lparr>sp := sp (pctx p) + (stk - stack (cpcb k4))\<rparr>)\<rparr>)
      (k4\<lparr>mem := mem_put stk (mem_bytes (mem k4) (stack (cpcb k4)) STACK_BYTES) (mem k4)\<rparr>)"
  have ok: "tables_ok k6" if "i \<noteq> PCB_SIZE"
  proof -
    have "tables_ok (k4\<lparr>mem := x\<rparr>)" for x using tables_frame [OF f4 k3] by (simp add: tables_ok_def)
    then show ?thesis unfolding k6_def
      by (intro tables_upd_pcb) (use that k2(3) in \<open>simp_all add: pcb_ok_def ctx_ok_def set_reg_def\<close>)
  qed
  have e: "current k3 = current k" "process_exists k (cur k) \<Longrightarrow> process_exists k3 (cur k)"
    using k2 by (auto simp: k3_def process_exists_def)
  have e4: "current k4 = current k" "process_exists k (cur k) \<Longrightarrow> process_exists k4 (cur k)"
    using f4 e by (auto simp: frame_def process_exists_def)
  have e6: "current k6 = current k" "process_exists k (cur k) \<Longrightarrow> process_exists k6 (cur k)"
    using e4 by (auto simp: k6_def process_exists_def)
  consider (full) "i = PCB_SIZE" "k' = k_putc 0x21 k2" "c' = set_reg 0 (-1) c"
    | (starved) "i \<noteq> PCB_SIZE" "k' = k_putc 0x4D k4" "c' = set_reg 0 (-2) c"
    | (forked) "i \<noteq> PCB_SIZE" "count_fds (fdt (cpcb k6)) k6 = Some k'" "c' = set_reg 0 (word_of_nat i) c"
    using s n m by (auto simp: do_fork_def Let_def k3_def [symmetric] k6_def split: if_splits Option.bind_splits)
  then have "tables_ok k' \<and> ctx_ok c' \<and> current k' = current k
      \<and> (process_exists k (cur k) \<longrightarrow> process_exists k' (cur k'))"
  proof cases
    case full
    have "frame k2 k'" using full by simp
    then show ?thesis using tables_frame [of k2 k'] k2 full(3) c by (simp add: frame_def process_exists_def ctx_ok_def set_reg_def)
  next
    case starved
    have "frame k4 k'" using starved by simp
    then show ?thesis using tables_frame [OF frame_trans [OF f4, of k'] k3] e4 starved(3) c by (simp add: frame_def process_exists_def ctx_ok_def set_reg_def)
  next
    case forked
    note f = frame_count_fds [OF forked(2)]
    show ?thesis using f tables_frame [OF f ok [OF forked(1)]] e6 forked(3) c by (simp add: frame_def process_exists_def ctx_ok_def set_reg_def)
  qed
  then show "tables_ok k'" "ctx_ok c'" "current k' = current k"
    "process_exists k (cur k) \<Longrightarrow> process_exists k' (cur k')" by auto
qed

section \<open>System calls\<close>

definition alive :: "kstate \<Rightarrow> bool" where
  "alive k \<longleftrightarrow> process_exists k (cur k)"

text \<open>A state in which a process is running, together with the context it runs in.\<close>

definition user_ok :: "ctx \<times> kstate \<Rightarrow> bool" where
  "user_ok = (\<lambda>(c, k). kernel_inv k \<and> ctx_ok c \<and> alive k)"

lemma user_ok_frame:
  assumes "frame k k'" "user_ok (c, k)" "ctx_ok c'"
  shows "user_ok (c', k')"
  using kernel_inv_frame [OF assms(1)] assms
  by (auto simp: user_ok_def alive_def process_exists_def frame_def)

lemma ctx_ok_set_reg [simp]: "ctx_ok (set_reg r v c) = ctx_ok c"
  by (simp add: ctx_ok_def set_reg_def)

lemma next_alive:
  assumes "procs_ok k" "alive k \<or> next_ready k \<noteq> cur k" "next_proc c st k = (c', k')"
  shows "alive k'"
proof (cases "next_ready k = cur k")
  case True
  then show ?thesis using assms by (auto simp: next_proc_def Let_def alive_def process_exists_def)
next
  case False
  note s = rr.switch_to [OF assms(1) refl False assms(3) [unfolded next_proc_switch]]
  have "process_exists k (next_ready k)"
    using rr.pick_runs [OF assms(1) False] by (simp add: process_can_run_iff)
  then show ?thesis using s(2,3) by (simp add: alive_def process_exists_def)
qed

lemma user_ok_next:
  assumes "user_ok (c, k)" "st \<noteq> STATUS_EXECUTING"
  shows "user_ok (next_proc c st k)"
proof -
  obtain c' k' where n: "next_proc c st k = (c', k')" by fastforce
  have "procs_ok k" using assms by (simp add: user_ok_def kernel_inv_def others_idle_def)
  then show ?thesis
    using kernel_inv_next [OF _ _ assms(2) n] next_alive [OF _ _ n] assms(1) n by (simp add: user_ok_def)
qed

text \<open>The result of a call whose caller may be gone: only the invariant is left.\<close>

definition left_ok :: "ctx \<times> kstate \<Rightarrow> bool" where
  "left_ok = (\<lambda>(c, k). kernel_inv k \<and> ctx_ok c)"

lemma user_left_ok: "user_ok ck \<Longrightarrow> left_ok ck"
  by (simp add: user_ok_def left_ok_def split_beta)

lemma left_ok_exit:
  assumes "user_ok (c, k)" "svc_exit c k = Some (c', k')"
  shows "left_ok (c', k')"
    and "halted k' \<or> user_ok (c', k')
      \<or> (c' = c \<and> current k' = current k \<and> \<not> (\<exists>i. i \<noteq> cur k \<and> process_can_run k' i))"
proof -
  obtain k1 where x: "do_exit k = Some k1"
    and s: "(c', k') = (if halted k1 then (c, k1) else next_proc c STATUS_TERMINATED k1)"
    using assms(2) by (auto simp: svc_exit_def split: Option.bind_splits)
  have k: "kernel_inv k" "ctx_ok c" "process_exists k (cur k)" using assms(1) by (simp_all add: user_ok_def alive_def)
  have k1: "kernel_inv k1" "current k1 = current k" using kernel_inv_do_exit [OF k(1,3) x] by auto
  then have p: "procs_ok k1" by (simp add: kernel_inv_def others_idle_def)
  have next_ok: "left_ok (c', k')" if "\<not> halted k1"
  proof -
    have "next_proc c STATUS_TERMINATED k1 = (c', k')" using s that by simp
    then show ?thesis using kernel_inv_next [OF k1(1) k(2), of STATUS_TERMINATED] by (simp add: left_ok_def)
  qed
  moreover have "left_ok (c', k')" if "halted k1" using s that k(2) k1(1) by (simp add: left_ok_def)
  ultimately show "left_ok (c', k')" by blast
  show "halted k' \<or> user_ok (c', k')
      \<or> (c' = c \<and> current k' = current k \<and> \<not> (\<exists>i. i \<noteq> cur k \<and> process_can_run k' i))"
  proof (cases "halted k1")
    case True
    then show ?thesis using s by simp
  next
    case False
    then have n: "next_proc c STATUS_TERMINATED k1 = (c', k')" using s by simp
    show ?thesis
    proof (rule next_ready_cases [OF p])
      assume "next_ready k1 = cur k1" and none: "\<And>i. i < PCB_SIZE \<Longrightarrow> i \<noteq> cur k1 \<Longrightarrow> \<not> process_can_run k1 i"
      then have "c' = c" "k' = k1\<lparr>current_runtime := 0\<rparr>" using n by (auto simp: next_proc_def Let_def)
      moreover have "process_can_run (k1\<lparr>current_runtime := 0\<rparr>) i = process_can_run k1 i" for i
        by (simp add: process_can_run_def process_exists_def)
      ultimately show ?thesis using none can_run_less k1(2) by (auto simp: )
    next
      assume "next_ready k1 \<noteq> cur k1"
      then show ?thesis
        using next_ok False next_alive [OF p _ n] by (simp add: left_ok_def user_ok_def)
    qed
  qed
qed

lemma left_ok_sem_wait:
  assumes "user_ok (c, k)" "svc_sem_wait E c k = Some (c', k')"
  shows "left_ok (c', k') \<and> (halted k' \<or> user_ok (c', k'))"
proof -
  obtain ok k1 where x: "do_sem_wait E (arg c 0) (arg c 1) k = Some (ok, k1)"
    and s: "(c', k') = (if ok \<or> halted k1 then (c, k1) else next_proc c STATUS_WAITING k1)"
    using assms(2) by (auto simp: svc_sem_wait_def split: Option.bind_splits)
  have k: "kernel_inv k" "ctx_ok c" "process_exists k (cur k)" using assms(1) by (simp_all add: user_ok_def alive_def)
  have k1: "kernel_inv k1" "halted k1 \<or> user_ok (c, k1)"
    using kernel_inv_sem_wait [OF k(1,3) x] k by (auto simp: user_ok_def alive_def)
  show ?thesis
    using s k1 k user_ok_next [of c k1 STATUS_WAITING] user_left_ok
    by (auto simp: left_ok_def split: if_splits)
qed

lemma if_Some_elim:
  "(if b then x else y) = Some z \<Longrightarrow> (b \<Longrightarrow> x = Some z \<Longrightarrow> R) \<Longrightarrow> (\<not> b \<Longrightarrow> y = Some z \<Longrightarrow> R) \<Longrightarrow> R"
  by (simp split: if_splits)

lemma svc_cases:
  assumes "hilevel_handler_svc E call c k = Some ck"
  obtains (yield) "Some (next_proc c STATUS_READY k) = Some ck"
  | (wr) "ret_int c (do_write E (sint (arg c 0)) (arg c 1) (sint (arg c 2)) k) = Some ck"
  | (rd) "ret_int c (do_read E (sint (arg c 0)) (arg c 1) (sint (arg c 2)) k) = Some ck"
  | (fork) "call = 3" "do_fork E c k = Some ck"
  | (exit) "call = 4" "svc_exit c k = Some ck"
  | (exec) "Some (do_exec c k, k) = Some ck"
  | (kill) "call = 6" "map_option (Pair c) (do_kill (sint (arg c 0)) k) = Some ck"
  | (nice) "Some (c, svc_nice c k) = Some ck"
  | (sem_init) "svc_sem_init c k = Some ck"
  | (sem_post) "map_option (Pair c) (do_sem_post (arg c 0) (arg c 1) k) = Some ck"
  | (sem_wait) "svc_sem_wait E c k = Some ck"
  | (opens) "svc_open E c k = Some ck"
  | (close) "ret_bool c (do_close (sint (arg c 0)) k) = Some ck"
  | (swap) "Some (svc_fd_swap c k) = Some ck"
  | (pipe) "Some (c, snd (do_pipe E (arg c 0) k)) = Some ck"
  | (execx) "Some (let c1 = do_exec c k in set_reg 0 (gpr c1 ! 1) c1, k) = Some ck"
  | (path) f where "on_path c k f = Some ck"
  | (cd) "ret_bool c (do_cd (arg c 0) k) = Some ck"
  | (ls) "svc_ls c k = Some ck"
  | (getwd) "Some (svc_getwd c k) = Some ck"
  | (other) "Some (c, k) = Some ck"
  using assms unfolding hilevel_handler_svc_def by (elim if_Some_elim) (rule that; assumption)+

text \<open>
  What a call can do to the tables: most calls leave the process table, the bitmap and the sizes alone
  (\<open>quiet\<close>); the others are the seven that schedule, create, end or wake processes.
\<close>

lemma ret_sel [simp]: "ret v (c, k) = (set_reg 0 v c, k)"
  by (simp add: ret_def)

lemma frame_svc:
  "svc_open E c k = Some (c', k') \<Longrightarrow> frame k k' \<and> ctx_ok c' = ctx_ok c"
  "svc_ls c k = Some (c', k') \<Longrightarrow> frame k k' \<and> ctx_ok c' = ctx_ok c"
  "svc_fd_swap c k = (c', k') \<Longrightarrow> frame k k' \<and> ctx_ok c' = ctx_ok c"
  "svc_getwd c k = (c', k') \<Longrightarrow> frame k k' \<and> ctx_ok c' = ctx_ok c"
  "on_path c k f = Some (c', k') \<Longrightarrow> frame k k' \<and> ctx_ok c' = ctx_ok c"
  "svc_nice c k = k' \<Longrightarrow> frame k k'"
  by (auto simp: svc_open_def svc_ls_def svc_fd_swap_def svc_getwd_def on_path_def svc_nice_def Let_def pcb_frame_def
      dest!: frame_do_open intro!: frame_upd_pcb split: if_splits Option.bind_splits)

lemma frame_ret:
  "ret_int c r = Some (c', k') \<Longrightarrow> (\<And>v k1. r = Some (v, k1) \<Longrightarrow> frame k k1) \<Longrightarrow> frame k k' \<and> ctx_ok c' = ctx_ok c"
  "ret_bool c r' = Some (c', k') \<Longrightarrow> (\<And>v k1. r' = Some (v, k1) \<Longrightarrow> frame k k1) \<Longrightarrow> frame k k' \<and> ctx_ok c' = ctx_ok c"
  by (auto simp: ret_int_def ret_bool_def)

lemma svc_effects:
  assumes "hilevel_handler_svc E call c k = Some (c', k')"
  obtains (quiet) "frame k k'" "ctx_ok c \<Longrightarrow> ctx_ok c'"
  | (yield) "next_proc c STATUS_READY k = (c', k')"
  | (fork) "call = 3" "do_fork E c k = Some (c', k')"
  | (exit) "call = 4" "svc_exit c k = Some (c', k')"
  | (kill) "call = 6" "c' = c" "do_kill (sint (arg c 0)) k = Some k'"
  | (post) s x where "do_sem_post s x k = Some k'" "ctx_ok c \<Longrightarrow> ctx_ok c'"
  | (wait) "svc_sem_wait E c k = Some (c', k')"
  using assms
proof (cases rule: svc_cases)
  case wr
  then show ?thesis using frame_ret(1) [OF wr] frame_do_write quiet by blast
next
  case rd
  then show ?thesis using frame_ret(1) [OF rd] frame_do_read quiet by blast
next
  case exec
  then show ?thesis by (intro quiet) (auto simp: do_exec_def ctx_ok_def)
next
  case execx
  then show ?thesis by (intro quiet) (auto simp: do_exec_def ctx_ok_def set_reg_def Let_def)
next
  case nice
  then show ?thesis using frame_svc(6) by (intro quiet) auto
next
  case sem_init
  then show ?thesis using that(6) quiet
    by (auto simp: svc_sem_init_def Let_def split: if_splits Option.bind_splits)
next
  case close
  then show ?thesis using frame_ret(2) [OF close] frame_do_close quiet by blast
next
  case cd
  then show ?thesis using frame_ret(2) [OF cd] frame_do_cd quiet by blast
next
  case pipe
  obtain b k1 where p: "do_pipe E (arg c 0) k = (b, k1)" by fastforce
  show ?thesis using frame_do_pipe [OF p] pipe p by (intro quiet) simp_all
next
  case path
  then show ?thesis using frame_svc(5) quiet by blast
next
  case opens
  then show ?thesis using frame_svc(1) quiet by blast
next
  case swap
  then show ?thesis using frame_svc(3) quiet by (metis option.inject)
next
  case ls
  then show ?thesis using frame_svc(2) quiet by blast
next
  case getwd
  then show ?thesis using frame_svc(4) quiet by (metis option.inject)
next
  case other
  then show ?thesis by (intro quiet) auto
qed (use yield fork exit kill post wait in auto)

lemma svc_tables_ok:
  assumes k: "tables_ok k" "ctx_ok c" and s: "hilevel_handler_svc E call c k = Some (c', k')"
  shows "tables_ok k' \<and> ctx_ok c'"
  using s
proof (cases rule: svc_effects)
  case quiet
  then show ?thesis using tables_frame k by blast
next
  case yield
  then show ?thesis using tables_next k by blast
next
  case fork
  then show ?thesis using tables_fork [OF k fork(2)] by blast
next
  case exit
  then obtain k1 where x: "do_exit k = Some k1"
    and r: "(c', k') = (if halted k1 then (c, k1) else next_proc c STATUS_TERMINATED k1)"
    by (auto simp: svc_exit_def split: Option.bind_splits)
  then show ?thesis using tables_exit [OF k(1) x] tables_next [of k1 c STATUS_TERMINATED c' k'] k(2)
    by (cases "halted k1") simp_all
next
  case kill
  then show ?thesis using tables_kill k by blast
next
  case post
  then show ?thesis using tables_sem_post k by blast
next
  case wait
  then obtain ok k1 where x: "do_sem_wait E (arg c 0) (arg c 1) k = Some (ok, k1)"
    and r: "(c', k') = (if ok \<or> halted k1 then (c, k1) else next_proc c STATUS_WAITING k1)"
    by (auto simp: svc_sem_wait_def split: Option.bind_splits)
  then show ?thesis using tables_sem_wait [OF k(1) x] tables_next [of k1 c STATUS_WAITING c' k'] k(2)
    by (cases "ok \<or> halted k1") simp_all
qed

lemma svc_user_ok:
  assumes u: "user_ok (c, k)" and s: "hilevel_handler_svc E call c k = Some (c', k')"
  shows "\<not> starved E call k \<Longrightarrow> kernel_inv k'"
    and "halted k' \<or> alive k'
       \<or> (call = 4 \<and> c' = c \<and> current k' = current k \<and> \<not> (\<exists>i. i \<noteq> cur k \<and> process_can_run k' i))
       \<or> (call = 6 \<and> sint (arg c 0) = current k)"
proof -
  have k: "kernel_inv k" "ctx_ok c" "alive k" "tables_ok k"
    using u by (simp_all add: user_ok_def kernel_inv_tables)
  let ?out = "halted k' \<or> alive k'
       \<or> (call = 4 \<and> c' = c \<and> current k' = current k \<and> \<not> (\<exists>i. i \<noteq> cur k \<and> process_can_run k' i))
       \<or> (call = 6 \<and> sint (arg c 0) = current k)"
  from s have "(\<not> starved E call k \<longrightarrow> kernel_inv k') \<and> ?out"
  proof (cases rule: svc_effects)
    case quiet
    then show ?thesis using user_ok_frame [OF quiet(1) u] k(2) by (simp add: user_ok_def)
  next
    case yield
    then show ?thesis using user_ok_next [OF u, of STATUS_READY] by (simp add: user_ok_def)
  next
    case fork
    show ?thesis
      using kernel_inv_fork [OF k(1) _ k(2) _ fork(2)] tables_fork(4) [OF k(4,2) fork(2)] k(3)
      by (auto simp: starved_def alive_def fork(1))
  next
    case exit
    then show ?thesis using left_ok_exit [OF u exit(2)] by (auto simp: left_ok_def user_ok_def)
  next
    case kill
    have "alive k'" if "sint (arg c 0) \<noteq> current k"
      using kernel_inv_do_kill [OF k(1) kill(3)] k(3) that k(4)
      by (auto simp: alive_def tables_ok_def)
    then show ?thesis using kernel_inv_do_kill(1) [OF k(1) kill(3)] kill(1) by blast
  next
    case post
    then show ?thesis using kernel_inv_sem_post [OF k(1) post(1)] k(3) by (simp add: alive_def)
  next
    case wait
    then show ?thesis using left_ok_sem_wait [OF u wait] by (auto simp: left_ok_def user_ok_def)
  qed
  then show "\<not> starved E call k \<Longrightarrow> kernel_inv k'" ?out by blast+
qed

section \<open>Booting, and the reachable states\<close>

text \<open>Tables as the C runtime clears them; any disk, any input on the console.\<close>

definition powered_on :: "kstate \<Rightarrow> bool" where
  "powered_on k \<longleftrightarrow> pcballoc k = 0 \<and> length (pcbs k) = PCB_SIZE \<and> (\<forall>i < PCB_SIZE. pcb_ok (pcbs k ! i))
     \<and> length (sems k) = PCB_SIZE \<and> length (pipes k) = PCB_SIZE \<and> length (openft k) = 64"

lemma powered_on_frame: "frame k k' \<Longrightarrow> powered_on k \<Longrightarrow> powered_on k'"
  by (simp add: powered_on_def frame_def pcb_frame_def pcb_ok_def)

lemma frame_printn [simp]: "frame k (k_printn s k1) = frame k k1"
  by (simp add: k_printn_def)

lemma frame_print_int_bytes: "frame k (print_int_bytes x js a k1) = frame k k1"
  by (induction js arbitrary: a k1) (simp_all add: Let_def)

lemma frame_print_int [simp]: "frame k (k_print_int x k1) = frame k k1"
  unfolding k_print_int_def by (simp only: frame_print_int_bytes frame_print)

lemma frame_init_stream: "init_stream E i m k1 = Some k' \<Longrightarrow> frame k k' = frame k k1"
  by (auto simp: init_stream_def Let_def frame_malloc split: if_splits prod.splits)

lemma frame_init_fs: "init_fs E k = Some k' \<Longrightarrow> frame k k'"
  by (auto simp: init_fs_def Let_def frame_init_stream split: Option.bind_splits if_splits)

lemma rst_user_ok:
  assumes p: "powered_on k" and s: "hilevel_handler_rst E init c k = Some (c', k')"
  shows "user_ok (c', k') \<and> current k' = 0"
proof -
  obtain k1 where k1: "init_fs E k = Some k1" using s by (auto simp: hilevel_handler_rst_def split: Option.bind_splits)
  define k2 where "k2 = k_print (chars ''Boot: Loading boot programs'' @ nl) k1"
  have "frame k k2" using frame_init_fs [OF k1] by (simp add: k2_def)
  then have p2: "powered_on k2" using p powered_on_frame by blast
  have none: "\<not> process_exists k2 i" for i using p2 by (simp add: powered_on_def process_exists_bit)
  have "first_unallocated k2 0 = 0" by (subst first_unallocated.simps) (simp add: none)
  then have entry: "new_pcb_entry k2 = (0, k2\<lparr>pcballoc := 1\<rparr>)"
    using p2 by (simp add: new_pcb_entry_def PCB_SIZE_def powered_on_def)
  obtain stk k3 where m: "malloc E (k2\<lparr>pcballoc := 1\<rparr>) STACK_BYTES = (stk, k3)" by fastforce
  have k3: "frame (k2\<lparr>pcballoc := 1\<rparr>) k3" using frame_malloc [OF m, of "k2\<lparr>pcballoc := 1\<rparr>"] by simp
  obtain p0 where p0: "new_user_proc E init 5 k2 = (Some 0, upd_pcb 0 (\<lambda>_. p0) k3)"
    "pid p0 = 0" "pcb_ok p0"
    using entry m by (simp add: new_user_proc_def PCB_SIZE_def Let_def zero_ctx_def pcb_ok_def ctx_ok_def)
  define k4 where "k4 = k_print (chars ''Boot: Launching shell'' @ nl
      @ chars ''-------- Boot Complete --------'' @ nl) (upd_pcb 0 (\<lambda>_. p0) k3)"
  have k4: "frame (upd_pcb 0 (\<lambda>_. p0) k3) k4" by (simp add: k4_def)
  have ck: "(c', k') = context_switch None 0 c STATUS_CREATED k4"
    using s k1 p0(1) by (simp add: hilevel_handler_rst_def k2_def [symmetric] k4_def [symmetric] Let_def)
  have tables: "pcballoc k4 = 1" "length (pcbs k4) = PCB_SIZE" "\<forall>i < PCB_SIZE. pcb_ok (pcbs k4 ! i)"
    "length (sems k4) = PCB_SIZE" "length (pipes k4) = PCB_SIZE" "length (openft k4) = 64"
    "pid (pcbs k4 ! 0) = 0"
    using k3 k4 p2 p0(2,3)
    by (auto simp: frame_def powered_on_def pcb_frame_def pcb_ok_def nth_list_update PCB_SIZE_def)
  have k': "k' = (upd_pcb 0 (\<lambda>p. p\<lparr>status := STATUS_EXECUTING\<rparr>) k4)\<lparr>current := 0\<rparr>" "c' = pctx (pcbs k4 ! 0)"
    using ck tables(2,7) by (auto simp: context_switch_def Let_def nth_list_update PCB_SIZE_def)
  have e: "process_exists k' i \<longleftrightarrow> i = 0" for i
    using k'(1) tables(1) by (simp add: process_exists_bit bit_1_iff)
  show ?thesis
    using tables
    by (simp add: user_ok_def kernel_inv_def others_idle_def procs_ok_def alive_def e)
       (auto simp: k' nth_list_update PCB_SIZE_def pcb_ok_def)
qed

text \<open>
  The runs of the machine.  Between two entries into the kernel the user program changes its
  registers and memory, and input may arrive on the console; an interrupt or a system call may come
  in every state in which the kernel has not halted, whoever the current process is and whatever the
  allocator answers.  The flag tells whether the run has been orderly so far: every system call came
  from an allocated process and no \<open>fork\<close> was short of memory for a stack.  A call whose execution is
  undefined, or does not end, has no successor.
\<close>

inductive reach :: "env \<Rightarrow> u32 \<Rightarrow> kstate \<Rightarrow> bool \<Rightarrow> ctx \<Rightarrow> kstate \<Rightarrow> bool" for E init k0 where
  boot: "hilevel_handler_rst E init c k0 = Some (c', k') \<Longrightarrow> reach E init k0 True c' k'"
| user: "\<lbrakk> reach E init k0 b c k; length (gpr c') = 13 \<rbrakk> \<Longrightarrow> reach E init k0 b c' (k\<lparr>mem := m\<rparr>)"
| input: "reach E init k0 b c k \<Longrightarrow> reach E init k0 b c (k\<lparr>uart0 := (uart0 k)\<lparr>rx := rx (uart0 k) @ bs\<rparr>\<rparr>)"
| irq: "\<lbrakk> reach E init k0 b c k; \<not> halted k; hilevel_handler_irq src c k = (c', k') \<rbrakk>
    \<Longrightarrow> reach E init k0 b c' k'"
| svc: "\<lbrakk> reach E init k0 b c k; \<not> halted k; hilevel_handler_svc E call c k = Some (c', k') \<rbrakk>
    \<Longrightarrow> reach E init k0 (b \<and> alive k \<and> \<not> starved E call k) c' k'"

lemma reach_tables:
  assumes "reach E init k0 b c k" "powered_on k0"
  shows "tables_ok k \<and> ctx_ok c \<and> (b \<longrightarrow> kernel_inv k)"
  using assms
proof (induction rule: reach.induct)
  case (boot c c' k')
  then show ?case using rst_user_ok by (fastforce simp: user_ok_def kernel_inv_tables)
next
  case (user b c k c' m)
  have "frame k (k\<lparr>mem := m\<rparr>)" by simp
  from kernel_inv_frame [OF this] tables_frame [OF this] show ?case using user by (simp add: ctx_ok_def)
next
  case (input b c k bs)
  have "frame k (k\<lparr>uart0 := (uart0 k)\<lparr>rx := rx (uart0 k) @ bs\<rparr>\<rparr>)" by simp
  from kernel_inv_frame [OF this] tables_frame [OF this] show ?case using input by simp
next
  case (irq b c k src c' k')
  then show ?case
    using kernel_inv_schedule [of k c c' k'] tables_schedule [of k c c' k']
    by (auto simp: hilevel_handler_irq_def split: if_splits)
next
  case (svc b c k call c' k')
  then have k: "tables_ok k" "ctx_ok c" by simp_all
  have "kernel_inv k'" if "b \<and> alive k \<and> \<not> starved E call k"
    using svc_user_ok(1) [of c k, OF _ svc(3)] svc k that by (simp add: user_ok_def)
  then show ?case using svc_tables_ok [OF k svc(3)] by blast
qed

section \<open>A boot that succeeds\<close>

text \<open>An allocator with eight blocks of 0x1FFC bytes, and plain values for what is uninitialised.\<close>

definition sample_blocks :: "u32 list" where
  "sample_blocks = [0x00100000, 0x00102000, 0x00104000, 0x00106000, 0x00108000, 0x0010A000, 0x0010C000, 0x0010E000]"

definition sample_env :: env where
  "sample_env = \<lparr>malloc_at = (\<lambda>h n. case find (\<lambda>a. n \<le> 0x1FFC \<and> h a = None) sample_blocks of Some a \<Rightarrow> a | None \<Rightarrow> 0),
     malloc_room = (\<lambda>n. n + 4), junk_n = 0, junk_i = 0, junk_pipe_i = 0, junk_count = 0,
     junk_pipe = \<lparr>buffer = replicate PIPE_SIZE 0, reader = 0, writer = 0, full = False, reader_pid = 0, writer_pid = 0\<rparr>,
     junk_iblock = replicate 32 zero_inode\<rparr>"

lemma sample_env_ok: "malloc_ok sample_env"
  by (auto simp: malloc_ok_def sample_env_def find_Some_iff split: option.split)

lemma sample_env_first [simp]:
  "n \<le> 0x1FFC \<Longrightarrow> h 0x00100000 = None \<Longrightarrow> malloc_at sample_env h n = 0x00100000"
  by (simp add: sample_env_def sample_blocks_def)

lemma sample_env_malloc:
  assumes "n \<le> 0x1FFC" "finite (dom h)" "card (dom h) < 8"
  shows "malloc_at sample_env h n \<noteq> 0"
proof -
  have "\<not> set sample_blocks \<subseteq> dom h"
  proof
    assume "set sample_blocks \<subseteq> dom h"
    then have "card (set sample_blocks) \<le> card (dom h)" by (rule card_mono [OF assms(2)])
    then show False using assms(3) by (simp add: sample_blocks_def)
  qed
  then obtain a where a: "a \<in> set sample_blocks" "h a = None" by auto
  show ?thesis
  proof (cases "find (\<lambda>a. n \<le> 0x1FFC \<and> h a = None) sample_blocks")
    case None
    then show ?thesis using a assms(1) by (auto simp: find_None_iff)
  next
    case (Some b)
    then have "b \<in> set sample_blocks" by (auto simp: find_Some_iff)
    then have "b \<noteq> 0" by (auto simp: sample_blocks_def)
    then show ?thesis using Some by (simp add: sample_env_def)
  qed
qed

lemma boot_kernel_powered_on: "powered_on boot_kernel"
  by (simp add: powered_on_def boot_kernel_def PCB_SIZE_def pcb_ok_def ctx_ok_def zero_pcb_def zero_ctx_def)

lemma boot_load_volume:
  "fs2_load_volume (boot_vol\<lparr>blk_0 := 0, outcome := FS2_SUCCESS\<rparr>) = Some (boot_vol\<lparr>outcome := FS2_INVALID_FS\<rparr>)"
proof -
  have v: "boot_vol\<lparr>blk_0 := 0, outcome := FS2_SUCCESS\<rparr> = boot_vol"
    "boot_vol\<lparr>hblock := hblock_of_bytes zero_block, outcome := oc\<rparr> = boot_vol\<lparr>outcome := oc\<rparr>" for oc
    by (simp_all add: boot_vol_def)
  have "blk boot_vol 0 = zero_block" by (rule boot_vol_blocks(2)) (simp add: boot_vol_blocks(1))
  moreover have "ident (hblock_of_bytes zero_block) = 0 # replicate 7 0"
    by (simp add: zero_decoded replicate_Suc [symmetric] del: replicate_Suc)
  ultimately show ?thesis
    by (simp add: fs2_load_volume_def v fs2_rblk_ok boot_vol_ok boot_vol_blocks(1) not_cwfs)
qed

lemma vol_k_print [simp]: "vol (k_print s k) = vol k" "heap (k_print s k) = heap k"
  unfolding k_print_def by (induction s arbitrary: k) (simp_all add: k_putc_def)

lemma boot_runs: "\<exists>c k. hilevel_handler_rst sample_env init zero_ctx boot_kernel = Some (c, k)"
proof -
  have stream: "\<exists>k'. init_stream sample_env i m k = Some k' \<and> finite (dom (heap k')) \<and> card (dom (heap k')) \<le> Suc n"
    if "finite (dom (heap k))" "card (dom (heap k)) \<le> n" "n < 8" for i m k n
  proof -
    have "malloc_at sample_env (heap k) 20 \<noteq> 0" using that by (intro sample_env_malloc) simp_all
    then show ?thesis using that
      by (auto simp: init_stream_def malloc_def Let_def store_def card_insert_if)
  qed
  have streams: "\<exists>k'. (do { k4 \<leftarrow> init_stream sample_env 0 FM_R k; k5 \<leftarrow> init_stream sample_env 1 FM_W k4;
      init_stream sample_env 2 FM_W k5 }) = Some k'" if h: "heap k = Map.empty" for k
  proof -
    obtain k4 where 4: "init_stream sample_env 0 FM_R k = Some k4" "finite (dom (heap k4))" "card (dom (heap k4)) \<le> 1"
      using stream [of k 0] h by auto
    obtain k5 where 5: "init_stream sample_env 1 FM_W k4 = Some k5" "finite (dom (heap k5))" "card (dom (heap k5)) \<le> 2"
      using stream [OF 4(2,3), of 1 FM_W] by auto
    show ?thesis using stream [OF 5(2,3), of 2 FM_W] 4(1) 5(1) by auto
  qed
  have v: "vol boot_kernel = boot_vol" "heap boot_kernel = Map.empty" by (simp_all add: boot_kernel_def)
  have "\<exists>k1. init_fs sample_env boot_kernel = Some k1"
    using streams
    by (simp add: init_fs_def Let_def v boot_load_volume format_boot_vol)
  then obtain k1 where k1: "init_fs sample_env boot_kernel = Some k1" by blast
  let ?k2 = "k_print (chars ''Boot: Loading boot programs'' @ nl) k1"
  have "frame boot_kernel ?k2" using frame_init_fs [OF k1] by simp
  then have "powered_on ?k2" using boot_kernel_powered_on powered_on_frame by blast
  then have none: "\<not> process_exists ?k2 i" for i by (simp add: powered_on_def process_exists_bit)
  have "first_unallocated ?k2 0 = 0" by (subst first_unallocated.simps) (simp add: none)
  then have "\<exists>k3. new_user_proc sample_env init 5 ?k2 = (Some 0, k3)"
    by (simp add: new_user_proc_def new_pcb_entry_def PCB_SIZE_def Let_def split_beta)
  then show ?thesis using k1 by (auto simp: hilevel_handler_rst_def Let_def)
qed

lemma sample_user_ok: "user_ok (zero_ctx, sample_kernel)"
proof -
  have "pcb_ok zero_pcb" by (simp add: pcb_ok_def ctx_ok_def zero_pcb_def zero_ctx_def PCB_SIZE_def)
  then have "\<forall>i < PCB_SIZE. pcb_ok (pcbs sample_kernel ! i)"
    by (auto simp: sample_kernel_def nth_list_update PCB_SIZE_def pcb_ok_def ctx_ok_def zero_ctx_def)
  then show ?thesis
    using running_others_idle [OF sample_kernel_running] sample_kernel_running
    by (simp add: user_ok_def kernel_inv_def alive_def running_ok_def ctx_ok_def zero_ctx_def)
       (simp add: sample_kernel_def boot_kernel_def PCB_SIZE_def)
qed

section \<open>Properties\<close>

text \<open>
  C1: The invariant of the kernel.  In every state reachable from power-on, with any disk, any input,
  any allocator and any behaviour of the user programs, calls by processes that have been given back
  included, the tables have their declared sizes, the current process number is in range, every
  descriptor table has its 32 entries and the saved contexts have their registers: no handler leaves
  the tables in a state in which the next one would index outside them.  As long as every call came
  from an allocated process and no \<open>fork\<close> was short of memory for a stack, every allocated entry of
  the process table also carries its own index and no process but the current one is marked as
  executing.
\<close>

theorem reachable_invariant:
  assumes "reach E init k0 orderly c k" "powered_on k0"
  shows "tables_ok k \<and> ctx_ok c \<and> (orderly \<longrightarrow> kernel_inv k)"
  using reach_tables [OF assms] .

lemma reachable_invariant_witness: "\<exists>c k. reach sample_env 0 boot_kernel True c k \<and> tables_ok k \<and> kernel_inv k"
proof -
  obtain c k where "hilevel_handler_rst sample_env 0 zero_ctx boot_kernel = Some (c, k)"
    using boot_runs by blast
  then have "reach sample_env 0 boot_kernel True c k" by (rule reach.boot)
  then show ?thesis using reachable_invariant boot_kernel_powered_on by blast
qed

text \<open>
  C2: Who runs after a system call.  A call made by an allocated process, in a state in which the
  invariant holds, returns to an allocated process or has halted the kernel.  There are exactly two
  other ways out: \<open>exit\<close> when no other process can run, after which the caller goes on although its
  entry and its stack have been given back, and \<open>kill\<close> of the caller itself.  The tables keep their
  sizes, and the invariant is kept except by a \<open>fork\<close> for which there is no memory for a stack: that
  one leaves the entry of the child allocated as a copy of its parent.
\<close>

theorem svc_returns_to_process:
  assumes "user_ok (c, k)" "hilevel_handler_svc E call c k = Some (c', k')"
  shows "tables_ok k' \<and> ctx_ok c'
    \<and> (alive k' \<or> halted k'
       \<or> call = 4 \<and> c' = c \<and> current k' = current k \<and> \<not> (\<exists>i. i \<noteq> cur k \<and> process_can_run k' i)
       \<or> call = 6 \<and> sint (arg c 0) = current k)
    \<and> (\<not> starved E call k \<longrightarrow> kernel_inv k')"
proof -
  have "tables_ok k" "ctx_ok c" using assms(1) by (simp_all add: user_ok_def kernel_inv_tables)
  from svc_tables_ok [OF this assms(2)] show ?thesis using svc_user_ok [OF assms] by blast
qed

lemma svc_returns_to_process_witness:
  "alive (snd (next_proc zero_ctx STATUS_READY sample_kernel))
   \<or> halted (snd (next_proc zero_ctx STATUS_READY sample_kernel))"
  using svc_returns_to_process [OF sample_user_ok, of sample_env 0
      "fst (next_proc zero_ctx STATUS_READY sample_kernel)" "snd (next_proc zero_ctx STATUS_READY sample_kernel)"]
  by (simp add: hilevel_handler_svc_def)

end
