(* ===== verification/Semaphores.thy ===== *)
theory Semaphores
  imports Kernel_Inv
begin

text \<open>
  Semaphores: the effect of the three system calls on the units of a semaphore, on the processes that
  wait and on who runs.  A process marked as waiting refers to a record of the semaphore and of the
  units it waits for; \<open>waits_ok\<close> says that all these records are there.
\<close>

definition waits_ok :: "kstate \<Rightarrow> bool" where
  "waits_ok k \<longleftrightarrow> heap k 0 = None \<and> (\<forall>i. \<not> dangling k i)"

definition demand :: "kstate \<Rightarrow> nat \<Rightarrow> u32" where
  "demand k i = (case load_semwait k (waiting (pcbs k ! i)) of Some w \<Rightarrow> sw_x w | None \<Rightarrow> 0)"

text \<open>The first process after the current one that waits for at most \<open>x\<close> units of \<open>s\<close>.\<close>

definition woken :: "kstate \<Rightarrow> u32 \<Rightarrow> u32 \<Rightarrow> nat option" where
  "woken k s x = find (eligible k s x) (after (cur k))"

definition add_units :: "u32 \<Rightarrow> u32 \<Rightarrow> kstate \<Rightarrow> kstate" where
  "add_units s x k = k\<lparr>sems := (sems k)[unat s := sems k ! unat s + x]\<rparr>"

definition wake :: "nat \<Rightarrow> kstate \<Rightarrow> kstate" where
  "wake i k = (upd_pcb i (\<lambda>p. p\<lparr>status := STATUS_READY\<rparr>) k)
     \<lparr>heap := (heap k)(waiting (pcbs k ! i) := None)\<rparr>"

lemma woken_SomeD:
  assumes "procs_ok k" "woken k s x = Some i"
  shows "i < PCB_SIZE" "i \<noteq> cur k" "eligible k s x i"
proof -
  have "i \<in> set (after (cur k))" "eligible k s x i"
    using assms(2) by (auto simp: woken_def find_Some_iff)
  then show "i < PCB_SIZE" "i \<noteq> cur k" "eligible k s x i"
    using set_after [OF procs_ok_less(1) [OF assms(1)]] by auto
qed

lemma eligible_record:
  assumes "eligible k s x i"
  obtains w where "load_semwait k (waiting (pcbs k ! i)) = Some w" "sw_id w = s" "sw_x w \<le> x"
    "demand k i = sw_x w" "heap k (waiting (pcbs k ! i)) = Some (Semwait w)"
  using assms by (auto simp: eligible_def demand_def load_semwait_def split: option.splits obj.splits)

lemma do_sem_post_eq:
  assumes k: "procs_ok k" "waits_ok k" and s: "unat s < PCB_SIZE" "x \<noteq> 0"
  shows "do_sem_post s x k = Some (case woken k s x of
      Some i \<Rightarrow> wake i (add_units s (x - demand k i) k) | None \<Rightarrow> add_units s x k)"
proof -
  have "(\<lambda>i. dangling k i \<or> eligible k s x i) = eligible k s x"
    using k(2) by (auto simp: waits_ok_def)
  then have scan: "scan (\<lambda>i. dangling k i \<or> eligible k s x i) (cur k) ((cur k + 1) mod PCB_SIZE)
      = (case woken k s x of Some i \<Rightarrow> i | None \<Rightarrow> cur k)"
    using scan_find [OF procs_ok_less(1) [OF k(1)]] by (simp add: woken_def)
  show ?thesis
  proof (cases "woken k s x")
    case None
    then show ?thesis using scan s by (simp add: do_sem_post_def add_units_def Let_def)
  next
    case (Some i)
    note i = woken_SomeD [OF k(1) Some]
    from i(3) obtain w where w: "load_semwait k (waiting (pcbs k ! i)) = Some w" "demand k i = sw_x w"
      "heap k (waiting (pcbs k ! i)) = Some (Semwait w)" by (rule eligible_record)
    have "waiting (pcbs k ! i) \<noteq> 0" using w(3) k(2) by (auto simp: waits_ok_def)
    then show ?thesis
      using Some scan s i w procs_ok_less(2) [OF k(1)]
      by (simp add: do_sem_post_def add_units_def wake_def free_def Let_def)
  qed
qed

section \<open>Properties\<close>

text \<open>
  C6: Posting to a semaphore.  Of the processes that wait for at most \<open>x\<close> units of the semaphore, the
  first one after the caller in cyclic order is made ready, its wait record is given back and the units
  it asked for are deducted from the \<open>x\<close> units posted; the rest, or all of them when nobody can be
  woken, go to the semaphore.  Nothing else changes, and the process woken can run.
\<close>

theorem sem_post_effect:
  assumes "procs_ok k" "waits_ok k" "unat s < PCB_SIZE" "x \<noteq> 0"
  shows "\<exists>k'. do_sem_post s x k = Some k' \<and>
    (case find (eligible k s x) (after (cur k)) of
       Some i \<Rightarrow> k' = wake i (add_units s (x - demand k i) k) \<and> demand k i \<le> x \<and> process_can_run k' i
     | None \<Rightarrow> k' = add_units s x k)"
proof (cases "woken k s x")
  case None
  then show ?thesis using do_sem_post_eq [OF assms] by (simp add: woken_def)
next
  case (Some i)
  note i = woken_SomeD [OF assms(1) Some]
  then have "demand k i \<le> x" by (metis eligible_record)
  moreover have "process_can_run (wake i (add_units s (x - demand k i) k)) i"
    using i procs_ok_less(2) [OF assms(1)]
    by (simp add: process_can_run_iff wake_def add_units_def process_exists_def eligible_def)
  ultimately show ?thesis using do_sem_post_eq [OF assms] Some by (simp add: woken_def)
qed

text \<open>Three processes: 0 runs, 1 and 5 wait for one unit of semaphore 3 each.\<close>

definition waiting_kernel :: kstate where
  "waiting_kernel = sample_kernel\<lparr>
     pcbs := (pcbs sample_kernel)
       [1 := (pcbs sample_kernel ! 1)\<lparr>status := STATUS_WAITING, waiting := 0x1000\<rparr>,
        5 := (pcbs sample_kernel ! 5)\<lparr>status := STATUS_WAITING, waiting := 0x2000\<rparr>],
     heap := [0x1000 \<mapsto> Semwait \<lparr>sw_id = 3, sw_x = 1\<rparr>, 0x2000 \<mapsto> Semwait \<lparr>sw_id = 3, sw_x = 1\<rparr>]\<rparr>"

lemma waiting_kernel_exists [simp]: "process_exists waiting_kernel i \<longleftrightarrow> i \<in> {0, 1, 5}"
  using sample_kernel_exists [of i] by (simp add: process_exists_def waiting_kernel_def)

lemma waiting_kernel_sel:
  "current waiting_kernel = 0" "sems waiting_kernel = replicate 32 0" "length (pcbs waiting_kernel) = 32"
  "pcbs waiting_kernel ! 0 = pcbs sample_kernel ! 0"
  "pcbs waiting_kernel ! Suc 0 = (pcbs sample_kernel ! Suc 0)\<lparr>status := STATUS_WAITING, waiting := 0x1000\<rparr>"
  "pcbs waiting_kernel ! 5 = (pcbs sample_kernel ! 5)\<lparr>status := STATUS_WAITING, waiting := 0x2000\<rparr>"
  "heap waiting_kernel = [0x1000 \<mapsto> Semwait \<lparr>sw_id = 3, sw_x = 1\<rparr>, 0x2000 \<mapsto> Semwait \<lparr>sw_id = 3, sw_x = 1\<rparr>]"
  using sample_kernel_sel [simplified] by (simp_all add: waiting_kernel_def) (simp_all add: sample_kernel_def boot_kernel_def)

lemma waiting_kernel_ok: "running_ok waiting_kernel" "waits_ok waiting_kernel"
proof -
  have "pid (pcbs waiting_kernel ! i) = int i \<and> (status (pcbs waiting_kernel ! i) = STATUS_EXECUTING) = (i = 0)"
    if "i \<in> {0, 1, 5}" for i
    using that sample_kernel_sel(4-6) by (auto simp: waiting_kernel_sel zero_pcb_def)
  then show "running_ok waiting_kernel"
    by (auto simp: running_ok_def procs_ok_def waiting_kernel_sel PCB_SIZE_def)
  have "\<not> dangling waiting_kernel i" for i
  proof (cases "process_exists waiting_kernel i")
    case True
    then consider "i = 0" | "i = Suc 0" | "i = 5" by auto
    then show ?thesis
      by cases (simp_all add: dangling_def waiting_kernel_sel load_semwait_def sample_kernel_sel(4))
  qed (simp add: dangling_def)
  then show "waits_ok waiting_kernel" by (simp add: waits_ok_def waiting_kernel_sel(7))
qed

lemma waiting_kernel_eligible: "eligible waiting_kernel 3 x i \<longleftrightarrow> i \<in> {1, 5} \<and> 1 \<le> x"
  using sample_kernel_sel(4-6) by (auto simp: eligible_def load_semwait_def waiting_kernel_sel zero_pcb_def)

lemma waiting_kernel_woken: "1 \<le> x \<Longrightarrow> woken waiting_kernel 3 x = Some 1"
proof -
  assume "1 \<le> x"
  moreover have "after 0 = 1 # map (\<lambda>d. (1 + d) mod PCB_SIZE) [1..<PCB_SIZE - 1]"
    by (simp add: after_def PCB_SIZE_def upt_conv_Cons)
  ultimately show ?thesis by (simp add: woken_def waiting_kernel_sel waiting_kernel_eligible)
qed

lemma sem_post_effect_witness:
  "\<exists>k'. do_sem_post 3 2 waiting_kernel = Some k' \<and> process_can_run k' 1 \<and> sems k' ! 3 = 1"
proof -
  have ok: "procs_ok waiting_kernel" using waiting_kernel_ok(1) by (simp add: running_ok_def)
  have w: "find (eligible waiting_kernel 3 2) (after (cur waiting_kernel)) = Some 1"
    using waiting_kernel_woken [of 2] by (simp add: woken_def)
  have d: "demand waiting_kernel (Suc 0) = 1" by (simp add: demand_def load_semwait_def waiting_kernel_sel)
  have "sems (wake 1 (add_units 3 (2 - demand waiting_kernel 1) waiting_kernel)) ! 3 = 1"
    by (simp add: wake_def add_units_def d waiting_kernel_sel)
  then show ?thesis
    using sem_post_effect [OF ok waiting_kernel_ok(2), of 3 2] by (auto simp: w PCB_SIZE_def)
qed

text \<open>
  One wake-up per post.  Even when the units posted would do for two waiting processes, only the
  first is woken: the second stays marked as waiting while the semaphore holds enough units for it, and
  the units are lost to it until someone posts again.
\<close>

lemma post_wakes_only_one:
  assumes k: "procs_ok k" "waits_ok k" and s: "unat s < PCB_SIZE" "length (sems k) = PCB_SIZE" "sems k ! unat s = 0"
    and i: "woken k s x = Some i" and j: "j \<noteq> i" "eligible k s (x - demand k i) j" "x - demand k i \<noteq> 0"
    and separate: "waiting (pcbs k ! j) \<noteq> waiting (pcbs k ! i)"
  shows "\<exists>k'. do_sem_post s x k = Some k' \<and> status (pcbs k' ! j) = STATUS_WAITING
    \<and> eligible k' s (sems k' ! unat s) j"
proof -
  have "x \<noteq> 0" using woken_SomeD(3) [OF k(1) i] j(3)
    by (auto simp: eligible_def demand_def split: option.splits)
  then have "do_sem_post s x k = Some (wake i (add_units s (x - demand k i) k))"
    using do_sem_post_eq [OF k s(1)] i by simp
  moreover have el: "eligible (wake i (add_units s (x - demand k i) k)) s (x - demand k i) j"
    using j separate by (simp add: eligible_def wake_def add_units_def process_exists_def load_semwait_def)
  moreover have "sems (wake i (add_units s (x - demand k i) k)) ! unat s = x - demand k i"
    using s by (simp add: wake_def add_units_def)
  moreover have "status (pcbs (wake i (add_units s (x - demand k i) k)) ! j) = STATUS_WAITING"
    using el by (simp add: eligible_def)
  ultimately show ?thesis by simp
qed

lemma post_wakes_only_one_witness:
  "\<exists>k'. do_sem_post 3 2 waiting_kernel = Some k' \<and> status (pcbs k' ! 5) = STATUS_WAITING"
proof -
  have ok: "procs_ok waiting_kernel" using waiting_kernel_ok(1) by (simp add: running_ok_def)
  have d: "demand waiting_kernel (Suc 0) = 1" by (simp add: demand_def load_semwait_def waiting_kernel_sel)
  show ?thesis
    using post_wakes_only_one [OF ok waiting_kernel_ok(2), of 3 2 1 5] waiting_kernel_woken [of 2]
    by (auto simp: d waiting_kernel_sel waiting_kernel_eligible PCB_SIZE_def)
qed

lemma nth_upd_sel: "g y = g (xs ! i) \<Longrightarrow> g (xs[i := y] ! j) = g (xs ! j)"
  by (cases "i < length xs") (auto simp: nth_list_update list_update_beyond)

lemma next_proc_rest:
  "next_proc c st k = (c', k') \<Longrightarrow> heap k' = heap k \<and> sems k' = sems k \<and> pcballoc k' = pcballoc k
     \<and> waiting (pcbs k' ! j) = waiting (pcbs k ! j)"
  by (auto simp: next_proc_def context_switch_def Let_def nth_upd_sel [where g = waiting] split: if_splits)

text \<open>The state in which a caller has been marked as waiting, before anyone else is chosen.\<close>

definition blocked :: "u32 \<Rightarrow> u32 \<Rightarrow> u32 \<Rightarrow> kstate \<Rightarrow> kstate" where
  "blocked a s x k = (upd_pcb (cur k) (\<lambda>p. p\<lparr>status := STATUS_WAITING, waiting := a\<rparr>) k)
     \<lparr>heap := (heap k)(a \<mapsto> Semwait \<lparr>sw_id = s, sw_x = x\<rparr>)\<rparr>"

lemma sem_wait_call:
  assumes "running_ok k" "\<not> halted k" "unat (arg c 0) < PCB_SIZE" "malloc_at E (heap k) 8 \<noteq> 0"
  shows "hilevel_handler_svc E 0xA c k = Some
    (if arg c 1 \<le> sems k ! unat (arg c 0)
     then (c, k\<lparr>sems := (sems k)[unat (arg c 0) := sems k ! unat (arg c 0) - arg c 1]\<rparr>)
     else next_proc c STATUS_WAITING (blocked (malloc_at E (heap k) 8) (arg c 0) (arg c 1) k))"
proof -
  have "cur k < length (pcbs k)"
    using assms(1) procs_ok_less by (simp add: running_ok_def)
  then show ?thesis
    using assms by (simp add: hilevel_handler_svc_def svc_sem_wait_def do_sem_wait_def malloc_def blocked_def
        store_def Let_def upd_pcb_def)
qed

lemma blocked_state:
  assumes k: "running_ok k" "waits_ok k" and a: "a \<noteq> 0" "heap k a = None"
  shows "others_idle (blocked a s x k)" "waits_ok (blocked a s x k)"
    "process_can_run (blocked a s x k) = process_can_run k" "next_ready (blocked a s x k) = next_ready k"
proof -
  let ?b = "blocked a s x k"
  have c: "cur k < length (pcbs k)" "status (pcbs k ! cur k) = STATUS_EXECUTING" "process_exists k (cur k)"
    using k procs_ok_less by (auto simp: running_ok_def)
  have e: "process_exists ?b = process_exists k" by (simp add: blocked_def process_exists_def fun_eq_iff)
  have st: "status (pcbs ?b ! i) = (if i = cur k then STATUS_WAITING else status (pcbs k ! i))"
      "pid (pcbs ?b ! i) = pid (pcbs k ! i)"
      "waiting (pcbs ?b ! i) = (if i = cur k then a else waiting (pcbs k ! i))" for i
    using c(1) by (auto simp: blocked_def nth_list_update)
  have cur: "current ?b = current k" "length (pcbs ?b) = length (pcbs k)" by (simp_all add: blocked_def)
  show "others_idle ?b"
    using k e st cur by (auto simp: others_idle_def running_ok_def procs_ok_def)
  have ld: "load_semwait ?b p = (if p = a then Some \<lparr>sw_id = s, sw_x = x\<rparr> else load_semwait k p)" for p
    by (simp add: load_semwait_def blocked_def)
  show "waits_ok ?b"
    using k(2) a e st c(2) by (auto simp: waits_ok_def dangling_def ld) (auto simp: blocked_def)
  show r: "process_can_run ?b = process_can_run k"
    using e st c(2) by (auto simp: fun_eq_iff process_can_run_iff)
  show "next_ready ?b = next_ready k" unfolding next_ready_def r cur by simp
qed

lemma sample_kernel_waits: "waits_ok sample_kernel"
proof -
  have "\<not> dangling sample_kernel i" for i
  proof (cases "process_exists sample_kernel i")
    case True
    then consider "i = 0" | "i = Suc 0" | "i = 5" by (auto simp: sample_kernel_exists)
    then show ?thesis
      using sample_kernel_sel(5) [simplified]
      by cases (simp_all add: dangling_def sample_kernel_sel(4,6) zero_pcb_def)
  qed (simp add: dangling_def)
  then show ?thesis by (simp add: waits_ok_def) (simp add: sample_kernel_def boot_kernel_def)
qed

definition three_one :: ctx where
  "three_one = zero_ctx\<lparr>gpr := [3, 1] @ replicate 11 0\<rparr>"

definition lone_kernel :: kstate where
  "lone_kernel = sample_kernel\<lparr>pcballoc := 1\<rparr>"

lemma lone_kernel_sel:
  "current lone_kernel = 0" "length (pcbs lone_kernel) = 32" "status (pcbs lone_kernel ! 0) = STATUS_EXECUTING"
  "pid (pcbs lone_kernel ! 0) = 0" "\<not> halted lone_kernel" "sems lone_kernel ! 3 = 0" "heap lone_kernel = Map.empty"
  using sample_kernel_sel(1,3,4) by (simp_all add: lone_kernel_def zero_pcb_def)
    (simp_all add: sample_kernel_def boot_kernel_def)

lemma lone_kernel_ok: "running_ok lone_kernel" "waits_ok lone_kernel" "next_ready lone_kernel = cur lone_kernel"
proof -
  have e: "process_exists lone_kernel i \<longleftrightarrow> i = 0" for i
    by (simp add: process_exists_bit lone_kernel_def bit_1_iff)
  show r: "running_ok lone_kernel"
    by (simp add: running_ok_def procs_ok_def PCB_SIZE_def e lone_kernel_sel)
  show "waits_ok lone_kernel"
    by (auto simp: waits_ok_def dangling_def e lone_kernel_sel)
  have "process_can_run lone_kernel = (\<lambda>i. False)"
    by (auto simp: fun_eq_iff process_can_run_iff e lone_kernel_sel)
  moreover have "find (\<lambda>i. False) xs = None" for xs :: "nat list" by (induction xs) simp_all
  ultimately show "next_ready lone_kernel = cur lone_kernel"
    using r by (simp add: next_ready_find running_ok_def)
qed

text \<open>A wait with another process to run.\<close>

lemma sem_wait_switches:
  assumes k: "running_ok k" "waits_ok k" "\<not> halted k" and m: "malloc_at E (heap k) 8 \<noteq> 0" "heap k (malloc_at E (heap k) 8) = None"
    and s: "unat (arg c 0) < PCB_SIZE" "sems k ! unat (arg c 0) < arg c 1" and other: "next_ready k \<noteq> cur k"
  shows "\<exists>c' k'. hilevel_handler_svc E 0xA c k = Some (c', k')
    \<and> running_ok k' \<and> waits_ok k' \<and> sems k' = sems k
    \<and> current k' = int (next_ready k) \<and> c' = pctx (pcbs k ! next_ready k) \<and> pctx (pcbs k' ! cur k) = c
    \<and> \<not> process_can_run k' (cur k) \<and> (\<forall>x. eligible k' (arg c 0) x (cur k) \<longleftrightarrow> arg c 1 \<le> x)"
proof -
  let ?a = "malloc_at E (heap k) 8"
  let ?b = "blocked ?a (arg c 0) (arg c 1) k"
  note b = blocked_state [OF k(1,2) m, of "arg c 0" "arg c 1"]
  have cur: "current ?b = current k" "sems ?b = sems k" "cur k < length (pcbs k)" "process_exists k (cur k)"
    using k(1) procs_ok_less by (auto simp: blocked_def running_ok_def)
  obtain c' k' where n: "next_proc c STATUS_WAITING ?b = (c', k')" by fastforce
  have call: "hilevel_handler_svc E 0xA c k = Some (c', k')"
    using sem_wait_call [OF k(1,3) s(1) m(1)] s(2) n by simp
  have p: "procs_ok ?b" using b(1) by (simp add: others_idle_def)
  have other': "next_ready ?b \<noteq> cur ?b" using other b(4) cur by simp
  note sw = rr.switch_to [OF p refl other' n [unfolded next_proc_switch]]
  have run: "running_ok k'"
    using rr.switch_running [OF b(1) other', of STATUS_WAITING c] n by (simp add: next_proc_switch)
  note rest = next_proc_rest [OF n]
  have e: "process_exists k' = process_exists k"
    using rest by (simp add: process_exists_def fun_eq_iff blocked_def)
  have ld: "load_semwait k' = load_semwait ?b" using rest by (simp add: load_semwait_def fun_eq_iff)
  have w: "waiting (pcbs k' ! cur k) = ?a" "load_semwait ?b ?a = Some \<lparr>sw_id = arg c 0, sw_x = arg c 1\<rparr>"
    using rest cur(3) by (simp_all add: blocked_def load_semwait_def)
  have "dangling k' i \<Longrightarrow> dangling ?b i" for i
  proof -
    have "process_exists ?b = process_exists k'" using e by (simp add: process_exists_def blocked_def fun_eq_iff)
    moreover assume "dangling k' i"
    moreover from this have "status (pcbs ?b ! i) = STATUS_WAITING"
      using sw(7) sw(8) [of i] cur by (cases "i = next_ready ?b"; cases "i = cur k")
        (auto simp: dangling_def blocked_def)
    ultimately show ?thesis using rest ld by (simp add: dangling_def)
  qed
  then have "waits_ok k'" using b(2) rest by (auto simp: waits_ok_def)
  moreover have "pctx (pcbs ?b ! next_ready k) = pctx (pcbs k ! next_ready k)"
    using other by (simp add: blocked_def)
  moreover have "status (pcbs k' ! cur k) = STATUS_WAITING" using sw(6) cur by simp
  ultimately show ?thesis
    using call run rest sw(1,2,5) b(4) cur e w ld
    by (intro exI [of _ c'] exI [of _ k']) (simp add: process_can_run_iff eligible_def)
qed

text \<open>
  Waiting alone.  When no other process can run, \<open>next\<close> has nobody to switch to and comes back to
  the caller: \<open>sem_wait\<close> returns to it although the semaphore lacked the units and none were taken, so
  that it goes on as if it held them, while it is marked as waiting.
\<close>

lemma sem_wait_alone_falls_through:
  assumes k: "running_ok k" "waits_ok k" "\<not> halted k" and m: "malloc_at E (heap k) 8 \<noteq> 0" "heap k (malloc_at E (heap k) 8) = None"
    and s: "unat (arg c 0) < PCB_SIZE" "sems k ! unat (arg c 0) < arg c 1" and alone: "next_ready k = cur k"
  shows "\<exists>k'. hilevel_handler_svc E 0xA c k = Some (c, k') \<and> current k' = current k \<and> sems k' = sems k
    \<and> status (pcbs k' ! cur k) = STATUS_WAITING"
proof -
  let ?a = "malloc_at E (heap k) 8"
  note b = blocked_state [OF k(1,2) m, of "arg c 0" "arg c 1"]
  have cur: "cur k < length (pcbs k)" using k(1) procs_ok_less by (simp add: running_ok_def)
  have "next_proc c STATUS_WAITING (blocked ?a (arg c 0) (arg c 1) k)
      = (c, (blocked ?a (arg c 0) (arg c 1) k)\<lparr>current_runtime := 0\<rparr>)"
    using alone b(4) by (simp add: next_proc_switch rr.switch_def) (simp add: blocked_def)
  moreover have "\<not> arg c 1 \<le> sems k ! unat (arg c 0)" using s(2) by simp
  ultimately have "hilevel_handler_svc E 0xA c k
      = Some (c, (blocked ?a (arg c 0) (arg c 1) k)\<lparr>current_runtime := 0\<rparr>)"
    using sem_wait_call [OF k(1,3) s(1) m(1)] by (simp only: if_False)
  then show ?thesis using cur by (simp add: blocked_def)
qed

text \<open>
  C7: Waiting for a semaphore that lacks units, with an allocator that hands out unused blocks.  If there
  is no memory for the record of the wait, the code writes through the null pointer, which is undefined.
  Otherwise, if another process can run, the caller is marked as waiting for exactly the units it asked
  for and its context is kept; the semaphore is not touched, the other process runs, and the caller
  cannot run again before a post of that semaphore, by at least as many units, makes it ready.  If no
  other process can run, \<open>next\<close> has nobody to switch to: the call returns to the caller, which goes on as
  if it held the units although none were taken, while it is marked as waiting.
\<close>

theorem sem_wait_blocks:
  assumes k: "running_ok k" "waits_ok k" "\<not> halted k" and m: "malloc_ok E"
    and s: "unat (arg c 0) < PCB_SIZE" "sems k ! unat (arg c 0) < arg c 1"
  shows "if malloc_at E (heap k) 8 = 0 then hilevel_handler_svc E 0xA c k = None
    else if next_ready k = cur k
    then \<exists>k'. hilevel_handler_svc E 0xA c k = Some (c, k') \<and> current k' = current k \<and> sems k' = sems k
      \<and> status (pcbs k' ! cur k) = STATUS_WAITING
    else \<exists>c' k'. hilevel_handler_svc E 0xA c k = Some (c', k')
      \<and> running_ok k' \<and> waits_ok k' \<and> sems k' = sems k
      \<and> current k' = int (next_ready k) \<and> c' = pctx (pcbs k ! next_ready k) \<and> pctx (pcbs k' ! cur k) = c
      \<and> \<not> process_can_run k' (cur k) \<and> (\<forall>x. eligible k' (arg c 0) x (cur k) \<longleftrightarrow> arg c 1 \<le> x)"
proof (cases "malloc_at E (heap k) 8 = 0")
  case True
  then have "do_sem_wait E (arg c 0) (arg c 1) k = None"
    using s by (simp add: do_sem_wait_def Let_def malloc_def)
  then show ?thesis using True by (simp add: hilevel_handler_svc_def svc_sem_wait_def)
next
  case False
  then have f: "heap k (malloc_at E (heap k) 8) = None" using m by (auto simp: malloc_ok_def)
  show ?thesis
    using sem_wait_switches [OF k False f s] sem_wait_alone_falls_through [OF k False f s] False by simp
qed

lemma sem_wait_blocks_witness:
  "\<exists>c' k'. hilevel_handler_svc sample_env 0xA three_one sample_kernel = Some (c', k')
    \<and> current k' = 1 \<and> \<not> process_can_run k' 0"
proof -
  have "find (process_can_run sample_kernel) (after 0) = Some 1"
    by (simp add: after_def PCB_SIZE_def upt_conv_Cons sample_kernel_can_run)
  then have n: "next_ready sample_kernel = 1"
    using sample_kernel_running by (simp add: next_ready_find running_ok_def sample_kernel_sel)
  have s: "arg three_one 0 = 3" "arg three_one (Suc 0) = 1" by (simp_all add: three_one_def)
  have k: "\<not> halted sample_kernel" "sems sample_kernel ! 3 = 0" "heap sample_kernel = Map.empty"
    by (simp_all add: sample_kernel_def boot_kernel_def)
  show ?thesis
    using sem_wait_blocks [OF sample_kernel_running sample_kernel_waits k(1) sample_env_ok, of three_one]
    by (auto simp: s k n sample_kernel_sel PCB_SIZE_def)
qed

lemma sem_wait_alone_falls_through_witness:
  "\<exists>k'. hilevel_handler_svc sample_env 0xA three_one lone_kernel = Some (three_one, k') \<and> current k' = 0"
proof -
  have s: "arg three_one 0 = 3" "arg three_one (Suc 0) = 1" by (simp_all add: three_one_def)
  show ?thesis
    using sem_wait_alone_falls_through [OF lone_kernel_ok(1,2) lone_kernel_sel(5) _ _ _ _ lone_kernel_ok(3), of sample_env three_one]
    by (auto simp: s lone_kernel_sel PCB_SIZE_def)
qed

end
