(* ===== verification/Lifecycle.thy ===== *)
theory Lifecycle
  imports Kernel_Inv
begin

text \<open>
  The life of a process: what a child shares with its parent and what is its own, and what an exit
  leaves behind.
\<close>

section \<open>Copies in user memory\<close>

lemma mem_put_apply:
  "length bs \<le> 2 ^ 32 \<Longrightarrow>
   mem_put a bs m x = (if unat (x - a) < length bs then bs ! unat (x - a) else m x)"
proof (induction bs arbitrary: a m)
  case Nil
  then show ?case by simp
next
  case (Cons b bs)
  show ?case
  proof (cases "x = a")
    case True
    then have "unat (x - (a + 1)) = 2 ^ 32 - 1"
      by (simp add: unsigned_minus_1_eq_mask mask_eq_exp_minus_1)
    then show ?thesis using Cons True by simp
  next
    case False
    then have "unat (x - a) = Suc (unat (x - (a + 1)))"
      using unat_minus_one [of "x - a"] by (simp add: algebra_simps unat_gt_0)
    then show ?thesis using Cons False by simp
  qed
qed

lemma length_mem_bytes [simp]: "length (mem_bytes m a n) = n"
  by (simp add: mem_bytes_def)

lemma mem_bytes_put:
  assumes "length bs \<le> 2 ^ 32"
  shows "mem_bytes (mem_put a bs m) a (length bs) = bs"
proof (rule nth_equalityI)
  fix k assume "k < length (mem_bytes (mem_put a bs m) a (length bs))"
  then have "k < length bs" "unat (word_of_nat k :: u32) = k"
    using assms by (simp_all add: unat_of_nat)
  then show "mem_bytes (mem_put a bs m) a (length bs) ! k = bs ! k"
    using assms by (simp add: mem_bytes_def mem_put_apply)
qed simp

section \<open>Descriptors\<close>

text \<open>Every open descriptor of the current process leads to an entry of the file table.\<close>

definition fds_ok :: "kstate \<Rightarrow> bool" where
  "fds_ok k \<longleftrightarrow> (\<forall>i \<in> set (fdt (cpcb k)). i = -1 \<or> 0 \<le> i \<and> i < 64 \<and> load_fdte k (openft k ! nat i) \<noteq> None)"

text \<open>How many descriptors of a table lead to the object at \<open>a\<close>.\<close>

definition refs :: "u32 list \<Rightarrow> int list \<Rightarrow> u32 \<Rightarrow> nat" where
  "refs oft fds a = length (filter (\<lambda>i. i \<noteq> -1 \<and> oft ! nat i = a) fds)"

definition more_refs :: "nat \<Rightarrow> obj option \<Rightarrow> obj option" where
  "more_refs n ob = (case ob of Some (Fdte f) \<Rightarrow> Some (Fdte (f\<lparr>open_count := open_count f + int n\<rparr>)) | _ \<Rightarrow> ob)"

lemma more_refs_0 [simp]: "more_refs 0 ob = ob"
  by (auto simp: more_refs_def split: option.split obj.split)

lemma count_fds_result:
  assumes "\<forall>i \<in> set fds. i = -1 \<or> 0 \<le> i \<and> i < 64 \<and> load_fdte k (openft k ! nat i) \<noteq> None"
  shows "count_fds fds k = Some (k\<lparr>heap := (\<lambda>a. more_refs (refs (openft k) fds a) (heap k a))\<rparr>)"
  using assms
proof (induction fds arbitrary: k)
  case Nil
  then show ?case by (simp add: refs_def)
next
  case (Cons i fds)
  show ?case
  proof (cases "i = -1")
    case True
    then show ?thesis using Cons by (simp add: refs_def)
  next
    case False
    then have i: "openft_at k i = Some (openft k ! nat i)" "load_fdte k (openft k ! nat i) \<noteq> None"
      using Cons.prems by (auto simp: openft_at_def)
    then obtain f where f: "load_fdte k (openft k ! nat i) = Some f" "heap k (openft k ! nat i) = Some (Fdte f)"
      by (auto simp: load_fdte_def split: option.splits obj.splits)
    let ?k = "store (openft k ! nat i) (Fdte (f\<lparr>open_count := open_count f + 1\<rparr>)) k"
    have "\<forall>j \<in> set fds. j = -1 \<or> 0 \<le> j \<and> j < 64 \<and> load_fdte ?k (openft ?k ! nat j) \<noteq> None"
      using Cons.prems by (auto simp: load_fdte_def store_def)
    from Cons.IH [OF this] show ?thesis
      using False i f
      by (auto simp: store_def refs_def more_refs_def fun_eq_iff split: option.split obj.split)
  qed
qed

lemma fork_result:
  assumes k: "kernel_inv k" "process_exists k (cur k)"
    and i: "i < PCB_SIZE" "\<not> process_exists k i" "\<forall>j < i. process_exists k j"
    and stk: "stk = malloc_at E (heap k) STACK_BYTES" "stk \<noteq> 0" "heap k stk = None" and f: "fds_ok k"
    and q_def: "q = cpcb k"
  shows "\<exists>k'. hilevel_handler_svc E 3 c k = Some (set_reg 0 (word_of_nat i) c, k')
    \<and> current k' = current k \<and> process_can_run k' i
    \<and> pid (pcbs k' ! i) = int i \<and> stack (pcbs k' ! i) = stk \<and> fdt (pcbs k' ! i) = fdt q
    \<and> wd (pcbs k' ! i) = wd q \<and> base_priority (pcbs k' ! i) = base_priority q
    \<and> pctx (pcbs k' ! i) = set_reg 0 0 (c\<lparr>sp := sp c + (stk - stack q)\<rparr>)
    \<and> mem k' = mem_put stk (mem_bytes (mem k) (stack q) STACK_BYTES) (mem k)
    \<and> mem_bytes (mem k') stk STACK_BYTES = mem_bytes (mem k) (stack q) STACK_BYTES
    \<and> (\<forall>a \<noteq> stk. heap k' a = more_refs (refs (openft k) (fdt q) a) (heap k a))
    \<and> (\<forall>j. j \<noteq> i \<and> j \<noteq> cur k \<longrightarrow> pcbs k' ! j = pcbs k ! j \<and> process_exists k' j = process_exists k j)"
proof -
  let ?k1 = "upd_pcb (cur k) (\<lambda>p. p\<lparr>pctx := c\<rparr>) k"
  have x1: "process_exists ?k1 = process_exists k" by (simp add: process_exists_def fun_eq_iff)
  have len: "length (pcbs k) = PCB_SIZE" "cur k < PCB_SIZE" "i \<noteq> cur k"
    using k i by (auto simp: kernel_inv_def others_idle_def procs_ok_def)
  obtain i' k2 where n: "new_pcb_entry ?k1 = (i', k2)" by fastforce
  from n have "i' = i \<and> k2 = ?k1\<lparr>pcballoc := pcballoc k OR push_bit i 1\<rparr> \<and> (\<forall>j. process_exists k2 j \<longleftrightarrow> j = i \<or> process_exists k j)"
  proof (cases rule: new_pcb_entry_cases)
    case full
    then show ?thesis using i x1 by auto
  next
    case free
    then have "i' = i" using i x1 by (metis nat_neq_iff)
    then show ?thesis using free x1 by simp
  qed
  then have i': "i' = i" and k2: "k2 = ?k1\<lparr>pcballoc := pcballoc k OR push_bit i 1\<rparr>"
    and x2: "\<And>j. process_exists k2 j \<longleftrightarrow> j = i \<or> process_exists k j" by auto
  define child where "child = q\<lparr>pid := int i, status := STATUS_CREATED, stack := stk,
      pctx := set_reg 0 0 (c\<lparr>sp := sp c + (stk - stack q)\<rparr>)\<rparr>"
  define k6 where "k6 = k\<lparr>pcballoc := pcballoc k OR push_bit i 1, heap := (heap k)(stk \<mapsto> Raw STACK_BYTES),
      mem := mem_put stk (mem_bytes (mem k) (stack q) STACK_BYTES) (mem k),
      pcbs := (pcbs k)[cur k := q\<lparr>pctx := c\<rparr>, i := child]\<rparr>"
  have c6: "fdt (cpcb k6) = fdt q" "openft k6 = openft k" using len by (simp_all add: k6_def q_def)
  have "\<forall>j \<in> set (fdt q). j = -1 \<or> 0 \<le> j \<and> j < 64 \<and> load_fdte k6 (openft k6 ! nat j) \<noteq> None"
    using f stk(3) by (fastforce simp: fds_ok_def q_def load_fdte_def k6_def)
  from count_fds_result [OF this] have count: "count_fds (fdt q) k6
      = Some (k6\<lparr>heap := (\<lambda>a. more_refs (refs (openft k) (fdt q) a) (heap k6 a))\<rparr>)" (is "_ = Some ?k7")
    by (simp add: c6)
  have "do_fork E c k = do { k7 \<leftarrow> count_fds (fdt (cpcb k6)) k6; Some (set_reg 0 (word_of_nat i) c, k7) }"
    using n i(1) stk(1,2) len
    by (simp add: do_fork_def Let_def i' malloc_def) (simp add: k2 upd_pcb_def k6_def child_def q_def)
  then have call: "hilevel_handler_svc E 3 c k = Some (set_reg 0 (word_of_nat i) c, ?k7)"
    using count c6 by (simp add: hilevel_handler_svc_def)
  have "process_exists ?k7 j = process_exists k2 j" for j by (simp add: process_exists_def k6_def k2)
  moreover have "pcbs ?k7 ! i = child" "j \<noteq> i \<Longrightarrow> j \<noteq> cur k \<Longrightarrow> pcbs ?k7 ! j = pcbs k ! j" for j
    using len i(1) by (simp_all add: k6_def)
  moreover have "mem_bytes (mem ?k7) stk STACK_BYTES = mem_bytes (mem k) (stack q) STACK_BYTES"
    using mem_bytes_put [of "mem_bytes (mem k) (stack q) STACK_BYTES" stk "mem k"] by (simp add: k6_def STACK_BYTES_def)
  ultimately show ?thesis
    using call x2 by (intro exI [of _ ?k7]) (simp add: process_can_run_iff child_def k6_def)
qed

section \<open>Properties\<close>

text \<open>
  C10: Fork.  With a free entry \<open>i\<close>, the first one, and memory for a stack, the child is process \<open>i\<close>,
  ready to run: it has the parent's descriptors, working directory, priority and registers, except that
  its result register holds 0 and its stack pointer is at the same place of its own stack, which holds
  a copy of the parent's.  Every entry of the file table is counted once more for each descriptor that
  refers to it, the parent goes on with the child's number as result, and no other process is touched.
\<close>

theorem fork_copies:
  assumes k: "kernel_inv k" "process_exists k (cur k)"
    and i: "i < PCB_SIZE" "\<not> process_exists k i" "\<forall>j < i. process_exists k j"
    and stk: "stk = malloc_at E (heap k) STACK_BYTES" "stk \<noteq> 0" "heap k stk = None" and f: "fds_ok k"
  defines "q \<equiv> cpcb k"
  shows "\<exists>k'. hilevel_handler_svc E 3 c k = Some (set_reg 0 (word_of_nat i) c, k')
    \<and> current k' = current k \<and> process_can_run k' i
    \<and> pid (pcbs k' ! i) = int i \<and> stack (pcbs k' ! i) = stk \<and> fdt (pcbs k' ! i) = fdt q
    \<and> wd (pcbs k' ! i) = wd q \<and> base_priority (pcbs k' ! i) = base_priority q
    \<and> pctx (pcbs k' ! i) = set_reg 0 0 (c\<lparr>sp := sp c + (stk - stack q)\<rparr>)
    \<and> mem_bytes (mem k') stk STACK_BYTES = mem_bytes (mem k) (stack q) STACK_BYTES
    \<and> (\<forall>a \<noteq> stk. heap k' a = more_refs (refs (openft k) (fdt q) a) (heap k a))
    \<and> (\<forall>j. j \<noteq> i \<and> j \<noteq> cur k \<longrightarrow> pcbs k' ! j = pcbs k ! j \<and> process_exists k' j = process_exists k j)"
  using fork_result [OF k i stk f meta_eq_to_obj_eq [OF q_def], of c] by blast

lemma sample_kernel_inv: "kernel_inv sample_kernel" "process_exists sample_kernel (cur sample_kernel)"
  using sample_user_ok by (simp_all add: user_ok_def alive_def)

lemma sample_kernel_fds: "fds_ok sample_kernel" "fdt (cpcb sample_kernel) = replicate 32 (-1)"
  by (simp_all add: fds_ok_def sample_kernel_sel)

lemma fork_copies_witness:
  "\<exists>k'. hilevel_handler_svc sample_env 3 zero_ctx sample_kernel = Some (set_reg 0 2 zero_ctx, k')
    \<and> process_can_run k' 2 \<and> sp (pctx (pcbs k' ! 2)) = 0x00100000"
proof -
  have i: "(2::nat) < PCB_SIZE" "\<not> process_exists sample_kernel 2" "\<forall>j < (2::nat). process_exists sample_kernel j"
    by (auto simp: PCB_SIZE_def sample_kernel_exists)
  have s: "0x00100000 = malloc_at sample_env (heap sample_kernel) STACK_BYTES" "heap sample_kernel 0x00100000 = None"
    by (simp_all add: sample_kernel_def boot_kernel_def STACK_BYTES_def)
  have p: "sp zero_ctx + (0x00100000 - stack (cpcb sample_kernel)) = 0x00100000"
    by (simp add: sample_kernel_sel zero_ctx_def zero_pcb_def)
  show ?thesis
    using fork_copies [OF sample_kernel_inv i s(1) _ s(2) sample_kernel_fds(1), of zero_ctx]
    by (auto simp: p) (simp add: set_reg_def)
qed

text \<open>
  Fork without memory for a stack.  The entry of the process table has already been allocated and
  filled with a copy of the parent's entry when the allocation of the stack fails, and neither is undone:
  the caller gets -2, but an entry stays allocated that bears the parent's process number, counts as
  executing and can never run or end, and the kernel's invariant is lost.
\<close>

lemma fork_without_memory:
  assumes k: "kernel_inv k" "process_exists k (cur k)" "status (cpcb k) = STATUS_EXECUTING"
    and i: "i < PCB_SIZE" "\<not> process_exists k i" "\<forall>j < i. process_exists k j"
    and stk: "malloc_at E (heap k) STACK_BYTES = 0"
  shows "\<exists>k'. hilevel_handler_svc E 3 c k = Some (set_reg 0 (-2) c, k') \<and> process_exists k' i
    \<and> pid (pcbs k' ! i) = current k \<and> status (pcbs k' ! i) = STATUS_EXECUTING \<and> \<not> kernel_inv k'"
proof -
  let ?k1 = "upd_pcb (cur k) (\<lambda>p. p\<lparr>pctx := c\<rparr>) k"
  have x1: "process_exists ?k1 = process_exists k" by (simp add: process_exists_def fun_eq_iff)
  have len: "length (pcbs k) = PCB_SIZE" "cur k < PCB_SIZE" "i \<noteq> cur k" "pid (cpcb k) = current k"
    using k i by (auto simp: kernel_inv_def others_idle_def procs_ok_def)
  obtain i' k2 where n: "new_pcb_entry ?k1 = (i', k2)" by fastforce
  from n have "i' = i \<and> pcbs k2 = pcbs ?k1 \<and> current k2 = current k \<and> heap k2 = heap k \<and> process_exists k2 i"
  proof (cases rule: new_pcb_entry_cases)
    case full
    then show ?thesis using i x1 by auto
  next
    case free
    then have "i' = i" using i x1 by (metis nat_neq_iff)
    then show ?thesis using free by simp
  qed
  then have i': "i' = i" and k2: "pcbs k2 = pcbs ?k1" "current k2 = current k" "heap k2 = heap k" "process_exists k2 i"
    by blast+
  let ?k' = "k_putc 0x4D (upd_pcb i (\<lambda>_. cpcb k2) k2)"
  have "do_fork E c k = Some (set_reg 0 (-2) c, ?k')"
    using n i(1) stk k2 by (simp add: do_fork_def Let_def i' malloc_def)
  moreover have p: "process_exists ?k' i" "pcbs ?k' ! i = (cpcb k)\<lparr>pctx := c\<rparr>"
    using k2 i(1) len by (simp_all add: k_putc_def process_exists_def)
  moreover have "\<not> kernel_inv ?k'"
    using p i(1) len k2 k(3) by (auto simp: kernel_inv_def others_idle_def k_putc_def)
  ultimately show ?thesis
    using k(3) len(4) by (auto simp: hilevel_handler_svc_def)
qed

definition full_env :: env where
  "full_env = sample_env\<lparr>malloc_at := \<lambda>h n. 0\<rparr>"

lemma fork_without_memory_witness:
  "\<exists>k'. hilevel_handler_svc full_env 3 zero_ctx sample_kernel = Some (set_reg 0 (-2) zero_ctx, k') \<and> \<not> kernel_inv k'"
proof -
  have i: "(2::nat) < PCB_SIZE" "\<not> process_exists sample_kernel 2" "\<forall>j < (2::nat). process_exists sample_kernel j"
    by (auto simp: PCB_SIZE_def sample_kernel_exists)
  have s: "malloc_at full_env (heap sample_kernel) STACK_BYTES = 0" "status (cpcb sample_kernel) = STATUS_EXECUTING"
    by (simp_all add: full_env_def sample_kernel_sel)
  show ?thesis using fork_without_memory [OF sample_kernel_inv s(2) i s(1), of zero_ctx] by auto
qed

lemma do_close_fdt:
  assumes "do_close (int fd) k = Some (r, k')" "fd < 32" "cur k < length (pcbs k)"
  shows "fdt (cpcb k') = (fdt (cpcb k))[fd := -1] \<and> current k' = current k"
proof -
  have same: "free k1 a = Some k2 \<Longrightarrow> pcbs k2 = pcbs k1 \<and> current k2 = current k1" for k1 k2 a
    by (auto simp: free_def split: if_splits option.splits)
  have "fdt (cpcb k) ! fd = -1 \<Longrightarrow> (fdt (cpcb k))[fd := -1] = fdt (cpcb k)"
    by (metis list_update_id)
  then show ?thesis
    using assms by (auto simp: do_close_def Let_def set_fdt_def store_def dest!: same
        split: Option.bind_splits if_splits file_type.splits)
qed

lemma close_from_fdt:
  assumes "close_from i k = Some k'" "cur k < length (pcbs k)" "length (fdt (cpcb k)) = 32"
    "\<forall>j < i. fdt (cpcb k) ! j = -1" "i \<le> 32"
  shows "set (fdt (cpcb k')) \<subseteq> {-1}"
  using assms
proof (induction i k arbitrary: k' rule: close_from.induct)
  case (1 i k)
  show ?case
  proof (cases "i < 32")
    case False
    then have "k' = k" using 1(2) by (subst (asm) close_from.simps) simp
    then show ?thesis using 1(4,5) False by (auto simp: in_set_conv_nth)
  next
    case True
    obtain k1 where k1: "(if fdt (cpcb k) ! i \<noteq> -1 then map_option snd (do_close (int i) k) else Some k) = Some k1"
      "close_from (i + 1) k1 = Some k'"
      using 1(2) True by (subst (asm) close_from.simps) (auto split: Option.bind_splits)
    have c: "fdt (cpcb k1) = (fdt (cpcb k))[i := -1] \<and> current k1 = current k \<and> length (pcbs k1) = length (pcbs k)"
    proof (cases "fdt (cpcb k) ! i = -1")
      case True
      then have "(fdt (cpcb k))[i := -1] = fdt (cpcb k)" by (metis list_update_id)
      then show ?thesis using k1(1) True by auto
    next
      case False
      then obtain r where "do_close (int i) k = Some (r, k1)" using k1(1) by auto
      then show ?thesis
        using do_close_fdt [OF _ \<open>i < 32\<close> 1(3)] frame_do_close by (auto simp: frame_def)
    qed
    have "\<forall>j < i + 1. fdt (cpcb k1) ! j = -1"
      using c 1(4,5) True by (auto simp: nth_list_update less_Suc_eq)
    moreover have "length (fdt (cpcb k1)) = 32" using arg_cong [of _ _ length, OF conjunct1 [OF c]] 1(4) by simp
    ultimately show ?thesis using c 1(3) True by (intro 1(1) [OF True k1]) simp_all
  qed
qed

lemma next_proc_pcb:
  "next_proc c st k = (c', k') \<Longrightarrow> fdt (pcbs k' ! j) = fdt (pcbs k ! j) \<and> pcballoc k' = pcballoc k \<and> halted k' = halted k"
proof -
  have g: "g y = g (xs ! i) \<Longrightarrow> g (xs[i := y] ! j) = g (xs ! j)" for g :: "pcb \<Rightarrow> int list" and y xs i j
    by (cases "i < length xs") (auto simp: nth_list_update list_update_beyond)
  show "next_proc c st k = (c', k') \<Longrightarrow> ?thesis"
    by (auto simp: next_proc_def context_switch_def Let_def g [where g = fdt] split: if_splits)
qed

lemma do_exit_closes:
  assumes k: "kernel_inv k" "do_exit k = Some k'"
  shows "set (fdt (pcbs k' ! cur k)) \<subseteq> {-1}" "halted k' \<longleftrightarrow> halted k \<or> pcballoc k' = 0"
proof -
  let ?k1 = "upd_pcb (cur k) (\<lambda>p. p\<lparr>status := STATUS_TERMINATED, base_priority := -1\<rparr>) k"
  obtain k2 k3 where k2: "free ?k1 (stack (cpcb ?k1)) = Some k2" and k3: "close_from 0 k2 = Some k3"
    and k': "k' = halt_if_none (k3\<lparr>pcballoc := pcballoc k3 - push_bit (cur k3) 1\<rparr>)"
    using k(2) by (auto simp: do_exit_def Let_def split: Option.bind_splits)
  have len: "cur k < length (pcbs k)" "length (fdt (cpcb k)) = 32"
    using k(1) by (auto simp: kernel_inv_def others_idle_def procs_ok_def pcb_ok_def)
  have p2: "pcbs k2 = pcbs ?k1" "current k2 = current k" "halted k2 = halted k"
    using k2 by (auto simp: free_def split: if_splits option.splits)
  have "frame k2 k3" using frame_close_from [OF k3] .
  then have p3: "current k3 = current k" "halted k3 = halted k" using p2 by (simp_all add: frame_def)
  have h: "pcbs (halt_if_none k4) = pcbs k4" "pcballoc (halt_if_none k4) = pcballoc k4"
    "halted (halt_if_none k4) \<longleftrightarrow> halted k4 \<or> pcballoc k4 = 0" for k4
  proof -
    have p: "pcbs (k_print s k5) = pcbs k5 \<and> pcballoc (k_print s k5) = pcballoc k5 \<and> halted (k_print s k5) = halted k5" for s k5
      unfolding k_print_def by (induction s arbitrary: k5) (simp_all add: k_putc_def)
    show "pcbs (halt_if_none k4) = pcbs k4" "pcballoc (halt_if_none k4) = pcballoc k4"
      "halted (halt_if_none k4) \<longleftrightarrow> halted k4 \<or> pcballoc k4 = 0"
      by (simp_all add: halt_if_none_def halt_def p)
  qed
  have "set (fdt (cpcb k3)) \<subseteq> {-1}"
    using len by (intro close_from_fdt [OF k3]) (simp_all add: p2)
  then show "set (fdt (pcbs k' ! cur k)) \<subseteq> {-1}" using k' h p3 by simp
  show "halted k' \<longleftrightarrow> halted k \<or> pcballoc k' = 0" using k' h p3 by auto
qed

text \<open>
  C11: Exit.  A process that calls \<open>exit\<close> is gone: its entry is free, so that it can never be chosen
  again, and none of its descriptors is open; no other process is added or removed.  The kernel halts
  exactly when that was the last process.
\<close>

theorem exit_releases:
  assumes "user_ok (c, k)" "\<not> halted k" "hilevel_handler_svc E 4 c k = Some (c', k')"
  shows "(\<forall>j. process_exists k' j \<longleftrightarrow> process_exists k j \<and> j \<noteq> cur k)
    \<and> set (fdt (pcbs k' ! cur k)) \<subseteq> {-1} \<and> (halted k' \<longleftrightarrow> (\<forall>j. \<not> process_exists k' j))"
proof -
  have k: "kernel_inv k" "process_exists k (cur k)" using assms(1) by (simp_all add: user_ok_def alive_def)
  obtain k1 where k1: "do_exit k = Some k1"
    and s: "(c', k') = (if halted k1 then (c, k1) else next_proc c STATUS_TERMINATED k1)"
    using assms(3) by (auto simp: hilevel_handler_svc_def svc_exit_def split: Option.bind_splits)
  note x = kernel_inv_do_exit(3) [OF k k1] and d = do_exit_closes [OF k(1) k1]
  have "fdt (pcbs k' ! cur k) = fdt (pcbs k1 ! cur k) \<and> pcballoc k' = pcballoc k1 \<and> halted k' = halted k1"
    using s next_proc_pcb [of c STATUS_TERMINATED k1 c' k'] by (auto split: if_splits)
  moreover have "pcballoc k1 = 0 \<longleftrightarrow> (\<forall>j. \<not> process_exists k1 j)"
    using bit_imp_le_length [of "pcballoc k1"] by (fastforce simp: process_exists_bit bit_eq_iff)
  ultimately show ?thesis using x d assms(2) by (auto simp: process_exists_def)
qed

lemma exit_releases_witness:
  "\<exists>c' k'. hilevel_handler_svc sample_env 4 zero_ctx sample_kernel = Some (c', k') \<and> \<not> process_exists k' 0 \<and> \<not> halted k'"
proof -
  have st: "stack (cpcb (upd_pcb 0 f sample_kernel)) = stack (f (pcbs sample_kernel ! 0))" for f
    by (simp add: sample_kernel_sel)
  have close: "close_from i k = Some k" if "\<forall>j. i \<le> j \<and> j < 32 \<longrightarrow> fdt (cpcb k) ! j = -1" for i k
    using that
  proof (induction i k rule: close_from.induct)
    case (1 i k)
    then show ?case by (cases "i < 32"; subst close_from.simps) simp_all
  qed
  obtain k1 where k1: "do_exit sample_kernel = Some k1"
    by (simp add: do_exit_def free_def sample_kernel_sel zero_pcb_def close)
  obtain c' k' where s: "hilevel_handler_svc sample_env 4 zero_ctx sample_kernel = Some (c', k')"
    by (cases "halted k1"; cases "next_proc zero_ctx STATUS_TERMINATED k1") (auto simp: hilevel_handler_svc_def svc_exit_def k1)
  have "\<not> halted sample_kernel" by (simp add: sample_kernel_def boot_kernel_def)
  from exit_releases [OF sample_user_ok this s]
  have "\<not> process_exists k' 0" "process_exists k' 1" "halted k' \<longleftrightarrow> (\<forall>j. \<not> process_exists k' j)"
    by (auto simp: sample_kernel_exists sample_kernel_sel)
  then show ?thesis using s by auto
qed

end
