(* ===== verification/Lowlevel.thy ===== *)
theory Lowlevel
  imports Lifecycle
begin

text \<open>
  The low-level entry code, \<^verbatim>\<open>kernel/lolevel.s\<close> and \<^verbatim>\<open>kernel/int.s\<close>: how an exception gets from the
  vectors to the C handlers and back.  The instructions these files use are interpreted on a processor
  with the registers and modes they touch; a function in C is one step.  The handlers are the programs
  of the files, instruction by instruction.
\<close>

unbundle bit_operations_syntax

section \<open>The processor\<close>

datatype mode = USR | IRQ | SVC

text \<open>
  \<open>low\<close> are the registers 0 to 12, which the modes share; the stack pointer, the link register and the
  saved status are banked by mode.  \<open>kern\<close> is the memory, with the globals of the C code.
\<close>

record cpu =
  low :: "u32 list"
  bsp :: "mode \<Rightarrow> u32"
  blr :: "mode \<Rightarrow> u32"
  bspsr :: "mode \<Rightarrow> u32"
  psr :: u32
  pcr :: u32
  kern :: kstate

text \<open>The mode bits of the status register; the code uses no other modes.\<close>

definition mode_of :: "u32 \<Rightarrow> mode" where
  "mode_of w = (if w AND 0x1F = 0x12 then IRQ else if w AND 0x1F = 0x13 then SVC else USR)"

abbreviation md :: "cpu \<Rightarrow> mode" where
  "md s \<equiv> mode_of (psr s)"

definition read_word :: "(u32 \<Rightarrow> byte) \<Rightarrow> u32 \<Rightarrow> u32" where
  "read_word m a = of_le32 (mem_bytes m a 4)"

definition put_ram :: "u32 \<Rightarrow> u32 list \<Rightarrow> cpu \<Rightarrow> cpu" where
  "put_ram a ws s = s\<lparr>kern := (kern s)\<lparr>mem := mem_put a (le32s ws) (mem (kern s))\<rparr>\<rparr>"

definition words_at :: "u32 \<Rightarrow> nat \<Rightarrow> cpu \<Rightarrow> u32 list" where
  "words_at a n s = of_le32s n (mem_bytes (mem (kern s)) a (4 * n))"

text \<open>An \<open>msr\<close> to a whole status register writes its flags and control fields, not the middle bits.\<close>

definition msr_fc :: "u32 \<Rightarrow> u32 \<Rightarrow> u32" where
  "msr_fc old w = (old AND 0x00FFFF00) OR (w AND 0xFF0000FF)"

definition msr_c :: "u32 \<Rightarrow> u32 \<Rightarrow> u32" where
  "msr_c old w = (old AND 0xFFFFFF00) OR (w AND 0x000000FF)"

datatype reg = R nat | SP | LR

fun get_reg :: "cpu \<Rightarrow> reg \<Rightarrow> u32" where
  "get_reg s (R n) = low s ! n"
| "get_reg s SP = bsp s (md s)"
| "get_reg s LR = blr s (md s)"

fun put_reg :: "reg \<Rightarrow> u32 \<Rightarrow> cpu \<Rightarrow> cpu" where
  "put_reg (R n) v s = s\<lparr>low := (low s)[n := v]\<rparr>"
| "put_reg SP v s = s\<lparr>bsp := (bsp s)(md s := v)\<rparr>"
| "put_reg LR v s = s\<lparr>blr := (blr s)(md s := v)\<rparr>"

section \<open>The C handlers\<close>

text \<open>
  What the linker script and the surroundings determine: the tops of the two stacks, the address of
  the first program, the interrupt the controller reports, the addresses of the handlers and of the
  table of vectors, and what a call leaves in the registers it need not preserve (0 to 3, 12 and the
  link register).
\<close>

record board =
  brd_env :: env
  brd_init :: u32
  tos_irq :: u32
  tos_svc :: u32
  source :: u32
  at_rst :: u32
  at_svc :: u32
  at_irq :: u32
  at_data :: u32
  scratch :: "u32 list"

definition clobber :: "board \<Rightarrow> cpu \<Rightarrow> cpu" where
  "clobber B s = s\<lparr>low := take 4 (scratch B) @ take 8 (drop 4 (low s)) @ [scratch B ! 4],
                   blr := (blr s)(md s := scratch B ! 5)\<rparr>"

text \<open>The layout of \<open>ctx_t\<close>: 17 words.\<close>

definition ctx_words :: "ctx \<Rightarrow> u32 list" where
  "ctx_words c = [cpsr c, pc c] @ gpr c @ [sp c, lr c]"

definition ctx_of_words :: "u32 list \<Rightarrow> ctx" where
  "ctx_of_words ws = \<lparr>cpsr = ws ! 0, pc = ws ! 1, gpr = take 13 (drop 2 ws), sp = ws ! 15, lr = ws ! 16\<rparr>"

datatype cfun = INT_INIT | HL_RST | HL_IRQ | HL_SVC

text \<open>The loop of \<open>int_init\<close>, which copies words until the source has reached its limit.\<close>

partial_function (option) int_init_loop ::
    "u32 \<Rightarrow> u32 \<Rightarrow> u32 \<Rightarrow> (u32 \<Rightarrow> byte) \<Rightarrow> (u32 \<Rightarrow> byte) option" where
  "int_init_loop r0 r1 r2 m =
     (let m1 = mem_put r0 (le32 (read_word m r1)) m
      in if r1 + 4 \<noteq> r2 then int_init_loop (r0 + 4) (r1 + 4) r2 m1 else Some m1)"

text \<open>\<open>int_data\<close>: eight instructions, \<open>ldr pc, \<dots>\<close> or a branch to itself, and the three addresses.\<close>

definition int_data :: "board \<Rightarrow> u32 list" where
  "int_data B = [0xE59FF018, 0xEAFFFFFE, 0xE59FF014, 0xEAFFFFFE, 0xEAFFFFFE, 0xEAFFFFFE, 0xE59FF008,
                 0xEAFFFFFE, at_rst B, at_svc B, at_irq B]"

definition int_init :: "board \<Rightarrow> (u32 \<Rightarrow> byte) \<Rightarrow> (u32 \<Rightarrow> byte) option" where
  "int_init B m = int_init_loop 0 (at_data B) (at_data B + 44) m"

definition with_ctx :: "(ctx \<Rightarrow> kstate \<Rightarrow> (ctx \<times> kstate) option) \<Rightarrow> cpu \<Rightarrow> cpu option" where
  "with_ctx f s = do {
     let a = low s ! 0;
     (c, k) \<leftarrow> f (ctx_of_words (words_at a 17 s)) (kern s);
     Some (put_ram a (ctx_words c) (s\<lparr>kern := k\<rparr>))
   }"

text \<open>
  A handler that has ended in the endless loop of \<open>halt()\<close> does not return to the entry code.  The handler
  of the interrupts never halts.
\<close>

definition returning :: "(ctx \<Rightarrow> kstate \<Rightarrow> (ctx \<times> kstate) option) \<Rightarrow> ctx \<Rightarrow> kstate \<Rightarrow> (ctx \<times> kstate) option" where
  "returning f c k = do { (c', k') \<leftarrow> f c k; if halted k' then None else Some (c', k') }"

fun ccall :: "board \<Rightarrow> cfun \<Rightarrow> cpu \<Rightarrow> cpu option" where
  "ccall B INT_INIT s = map_option (\<lambda>m. s\<lparr>kern := (kern s)\<lparr>mem := m\<rparr>\<rparr>) (int_init B (mem (kern s)))"
| "ccall B HL_RST s = with_ctx (returning (hilevel_handler_rst (brd_env B) (brd_init B))) s"
| "ccall B HL_IRQ s = with_ctx (\<lambda>c k. Some (hilevel_handler_irq (source B) c k)) s"
| "ccall B HL_SVC s = with_ctx (returning (hilevel_handler_svc (brd_env B) (low s ! 1))) s"

section \<open>The instructions\<close>

datatype instr =
    SUB reg reg u32 | ADD reg reg u32 | MOV reg reg | BIC reg reg u32 | ORR reg reg u32
  | LDRC reg u32 | LDR reg reg int
  | STM_USR | LDM_USR | STMDB_R0_LR | LDMIA_R0_LR
  | MRS_CPSR reg | MSR_CPSR_C reg | MSR_CPSR u32 | MRS_SPSR reg | MSR_SPSR reg
  | BL cfun | MOV_PC_LR | MOVS_PC_LR

text \<open>
  \<open>STM_USR\<close> and \<open>LDM_USR\<close> are \<open>stmia sp, {r0-r12, sp, lr}^\<close> and the load back, which use the stack
  pointer and link register of user mode; \<open>STMDB_R0_LR\<close> and \<open>LDMIA_R0_LR\<close> have \<open>sp!, {r0, lr}\<close>.
\<close>

fun exec1 :: "board \<Rightarrow> instr \<Rightarrow> cpu \<Rightarrow> cpu option" where
  "exec1 B (SUB d r v) s = Some (put_reg d (get_reg s r - v) s)"
| "exec1 B (ADD d r v) s = Some (put_reg d (get_reg s r + v) s)"
| "exec1 B (MOV d r) s = Some (put_reg d (get_reg s r) s)"
| "exec1 B (BIC d r v) s = Some (put_reg d (get_reg s r AND NOT v) s)"
| "exec1 B (ORR d r v) s = Some (put_reg d (get_reg s r OR v) s)"
| "exec1 B (LDRC d v) s = Some (put_reg d v s)"
| "exec1 B (LDR d r off) s = Some (put_reg d (read_word (mem (kern s)) (get_reg s r + word_of_int off)) s)"
| "exec1 B STM_USR s = Some (put_ram (bsp s (md s)) (low s @ [bsp s USR, blr s USR]) s)"
| "exec1 B LDM_USR s =
     (let ws = words_at (bsp s (md s)) 15 s
      in Some (s\<lparr>low := take 13 ws, bsp := (bsp s)(USR := ws ! 13), blr := (blr s)(USR := ws ! 14)\<rparr>))"
| "exec1 B STMDB_R0_LR s =
     (let a = bsp s (md s) - 8
      in Some (put_reg SP a (put_ram a [low s ! 0, blr s (md s)] s)))"
| "exec1 B LDMIA_R0_LR s =
     (let a = bsp s (md s); ws = words_at a 2 s
      in Some (put_reg LR (ws ! 1) (put_reg (R 0) (ws ! 0) (put_reg SP (a + 8) s))))"
| "exec1 B (MRS_CPSR d) s = Some (put_reg d (psr s) s)"
| "exec1 B (MSR_CPSR_C r) s = Some (s\<lparr>psr := msr_c (psr s) (get_reg s r)\<rparr>)"
| "exec1 B (MSR_CPSR v) s = Some (s\<lparr>psr := msr_fc (psr s) v\<rparr>)"
| "exec1 B (MRS_SPSR d) s = Some (put_reg d (bspsr s (md s)) s)"
| "exec1 B (MSR_SPSR r) s = Some (s\<lparr>bspsr := (bspsr s)(md s := msr_fc (bspsr s (md s)) (get_reg s r))\<rparr>)"
| "exec1 B (BL f) s = map_option (clobber B) (ccall B f s)"
| "exec1 B MOV_PC_LR s = Some (s\<lparr>pcr := blr s (md s)\<rparr>)"
| "exec1 B MOVS_PC_LR s = Some (s\<lparr>pcr := blr s (md s), psr := bspsr s (md s)\<rparr>)"

primrec run :: "board \<Rightarrow> instr list \<Rightarrow> cpu \<Rightarrow> cpu option" where
  "run B [] s = Some s"
| "run B (x # xs) s = do { s1 \<leftarrow> exec1 B x s; run B xs s1 }"

section \<open>The programs\<close>

text \<open>The handlers of the two interrupts begin alike, up to the correction of the return address.\<close>

definition save_context :: "u32 \<Rightarrow> instr list" where
  "save_context off =
     [SUB LR LR off, SUB SP SP 60, STM_USR, MRS_SPSR (R 0), STMDB_R0_LR, MOV (R 0) SP]"

definition return_to_user :: "instr list" where
  "return_to_user = [LDMIA_R0_LR, MSR_SPSR (R 0), LDM_USR, ADD SP SP 60, MOVS_PC_LR]"

definition lolevel_handler_rst :: "board \<Rightarrow> instr list" where
  "lolevel_handler_rst B =
     [BL INT_INIT, MSR_CPSR 0xD2, LDRC SP (tos_irq B), MSR_CPSR 0xD3, LDRC SP (tos_svc B), SUB SP SP 68,
      MOV (R 0) SP, BL HL_RST] @ return_to_user"

definition lolevel_handler_irq :: "instr list" where
  "lolevel_handler_irq =
     save_context 4 @ [BL HL_IRQ] @ return_to_user"

definition lolevel_handler_svc :: "instr list" where
  "lolevel_handler_svc =
     save_context 0 @ [LDR (R 1) LR (-4), BIC (R 1) (R 1) 0xFF000000, BL HL_SVC] @ return_to_user"

definition int_enable_irq :: "instr list" where
  "int_enable_irq = [MRS_CPSR (R 0), BIC (R 0) (R 0) 0x80, MSR_CPSR_C (R 0), MOV_PC_LR]"

definition int_unable_irq :: "instr list" where
  "int_unable_irq = [MRS_CPSR (R 0), ORR (R 0) (R 0) 0x80, MSR_CPSR_C (R 0), MOV_PC_LR]"

definition int_enable_fiq :: "instr list" where
  "int_enable_fiq = [MRS_CPSR (R 0), BIC (R 0) (R 0) 0x40, MSR_CPSR_C (R 0), MOV_PC_LR]"

definition int_unable_fiq :: "instr list" where
  "int_unable_fiq = [MRS_CPSR (R 0), ORR (R 0) (R 0) 0x40, MSR_CPSR_C (R 0), MOV_PC_LR]"

section \<open>Exceptions\<close>

text \<open>
  The processor takes an exception: the address to return to, with the offset the architecture gives
  it, and the status are saved in the banked registers of the new mode.
\<close>

definition enter :: "mode \<Rightarrow> u32 \<Rightarrow> u32 \<Rightarrow> cpu \<Rightarrow> cpu" where
  "enter mo bits ret_addr s =
     s\<lparr>blr := (blr s)(mo := ret_addr), bspsr := (bspsr s)(mo := psr s), psr := (psr s AND 0xFFFFFFC0) OR bits\<rparr>"

text \<open>
  Where the instruction at a vector leads: \<open>ldr pc, [pc, #n]\<close> loads from 8 bytes after itself plus \<open>n\<close>;
  a branch to itself leads nowhere.
\<close>

definition vector :: "(u32 \<Rightarrow> byte) \<Rightarrow> u32 \<Rightarrow> u32 option" where
  "vector m v = (let w = read_word m v
     in if w AND 0xFFFFF000 = 0xE59FF000 then Some (read_word m (v + 8 + (w AND 0xFFF))) else None)"

definition program_at :: "board \<Rightarrow> u32 \<Rightarrow> instr list option" where
  "program_at B a =
     (if a = at_rst B then Some (lolevel_handler_rst B)
      else if a = at_svc B then Some lolevel_handler_svc
      else if a = at_irq B then Some lolevel_handler_irq else None)"

definition take_vector :: "board \<Rightarrow> u32 \<Rightarrow> cpu \<Rightarrow> cpu option" where
  "take_vector B v s = do { a \<leftarrow> vector (mem (kern s)) v; p \<leftarrow> program_at B a; run B p s }"

text \<open>The program counter is at an \<open>svc\<close> instruction, or at the instruction not executed yet.\<close>

definition svc_exception :: "board \<Rightarrow> cpu \<Rightarrow> cpu option" where
  "svc_exception B s = take_vector B 0x08 (enter SVC 0x93 (pcr s + 4) s)"

definition irq_exception :: "board \<Rightarrow> cpu \<Rightarrow> cpu option" where
  "irq_exception B s = take_vector B 0x18 (enter IRQ 0x192 (pcr s + 4) s)"

definition user_view :: "cpu \<Rightarrow> ctx" where
  "user_view s = \<lparr>cpsr = psr s, pc = pcr s, gpr = low s, sp = bsp s USR, lr = blr s USR\<rparr>"

section \<open>Frames in memory\<close>

lemma mem_put_front:
  assumes "length xs + length ys \<le> 2 ^ 32"
  shows "mem_put a xs (mem_put (a + word_of_nat (length xs)) ys m) = mem_put a (xs @ ys) m"
proof (rule ext)
  fix x :: u32
  let ?b = "a + word_of_nat (length xs)"
  have l: "unat (x - a) < 2 ^ 32" using unsigned_less [where 'a = nat, of "x - a"] by simp
  show "mem_put a xs (mem_put ?b ys m) x = mem_put a (xs @ ys) m x"
  proof (cases "unat (x - a) < length xs")
    case True
    then show ?thesis using assms by (simp add: mem_put_apply nth_append)
  next
    case False
    then have "unat (word_of_nat (length xs) :: u32) = length xs" using l by (simp add: unat_of_nat)
    moreover have "word_of_nat (length xs) \<le> x - a"
      using False by (simp add: word_le_nat_alt \<open>unat (word_of_nat (length xs) :: u32) = length xs\<close>)
    ultimately have "unat (x - ?b) = unat (x - a) - length xs"
      using unat_sub [of "word_of_nat (length xs)" "x - a"] by (simp add: diff_diff_eq)
    then show ?thesis using False assms
      by (simp add: mem_put_apply nth_append) linarith
  qed
qed

lemma mem_bytes_drop: "mem_bytes m (a + word_of_nat p) q = drop p (mem_bytes m a (p + q))"
  by (rule nth_equalityI) (simp_all add: mem_bytes_def add.assoc)

lemma take_mem_bytes: "take n (mem_bytes m a (n + k)) = mem_bytes m a n"
  by (simp add: mem_bytes_def take_map)

lemma le32s_drop: "drop (4 * i) (le32s ws) = le32s (drop i ws)"
  proof (induction ws arbitrary: i)
  case (Cons w ws)
  then show ?case by (cases i) (simp_all add: le32s_def)
qed (simp add: le32s_def)

lemma le32s_take: "take (4 * n) (le32s ws) = le32s (take n ws)"
  proof (induction ws arbitrary: n)
  case (Cons w ws)
  then show ?case by (cases n) (simp_all add: le32s_def)
qed (simp add: le32s_def)

lemma words_at_put:
  assumes "i + n \<le> length ws" "length ws \<le> 2 ^ 30"
  shows "words_at (a + word_of_nat (4 * i)) n (put_ram a ws s) = take n (drop i ws)"
proof -
  let ?m = "mem_put a (le32s ws) (mem (kern s))"
  have "mem_bytes ?m a (4 * length ws) = le32s ws"
    using mem_bytes_put [of "le32s ws" a] assms(2) by simp
  then have "mem_bytes ?m a (4 * i + 4 * n) = take (4 * (i + n)) (le32s ws)"
    using take_mem_bytes [of "4 * i + 4 * n" ?m a "4 * length ws - (4 * i + 4 * n)"] assms(1) by simp
  then have "mem_bytes ?m (a + word_of_nat (4 * i)) (4 * n) = le32s (drop i (take (i + n) ws))"
    by (simp only: mem_bytes_drop le32s_take le32s_drop)
  then show ?thesis
    using assms(1) by (simp add: words_at_def put_ram_def drop_take)
qed

lemma ctx_words_inverse: "length (gpr c) = 13 \<Longrightarrow> ctx_of_words (ctx_words c) = c"
  by (simp add: ctx_of_words_def ctx_words_def nth_append)

lemma ctx_words_parts:
  assumes "length (gpr c) = 13"
  shows "length (ctx_words c) = 17" "take 2 (ctx_words c) = [cpsr c, pc c]"
    "take 15 (drop 2 (ctx_words c)) = gpr c @ [sp c, lr c]"
  using assms by (simp_all add: ctx_words_def)

section \<open>The handlers\<close>

lemma words_at_frame [simp]:
  "words_at a n (s\<lparr>low := x\<rparr>) = words_at a n s"
  "words_at a n (s\<lparr>bsp := y\<rparr>) = words_at a n s"
  "words_at a n (s\<lparr>blr := y\<rparr>) = words_at a n s"
  "words_at a n (s\<lparr>bspsr := y\<rparr>) = words_at a n s"
  "words_at a n (s\<lparr>psr := w\<rparr>) = words_at a n s"
  "words_at a n (s\<lparr>pcr := w\<rparr>) = words_at a n s"
  by (simp_all add: words_at_def)

lemma put_ram_frame [simp]:
  "low (put_ram a ws s) = low s" "bsp (put_ram a ws s) = bsp s" "blr (put_ram a ws s) = blr s"
  "bspsr (put_ram a ws s) = bspsr s" "psr (put_ram a ws s) = psr s" "pcr (put_ram a ws s) = pcr s"
  by (simp_all add: put_ram_def)

text \<open>The frame of the context is popped, and the processor is what the context says.\<close>

lemma run_return:
  assumes "words_at (bsp s (md s)) 2 s = [cpsr c, pc c]"
    and "words_at (bsp s (md s) + 8) 15 s = gpr c @ [sp c, lr c]" and "length (gpr c) = 13" "md s \<noteq> USR" "low s \<noteq> []"
  defines "w \<equiv> msr_fc (bspsr s (md s)) (cpsr c)"
  shows "run B return_to_user s = Some (s\<lparr>low := gpr c,
    bsp := (bsp s)(md s := bsp s (md s) + 68, USR := sp c), blr := (blr s)(md s := pc c, USR := lr c),
    bspsr := (bspsr s)(md s := w), psr := w, pcr := pc c\<rparr>)"
  using assms by (simp add: return_to_user_def Let_def nth_append) (rule cpu.equality; simp add: fun_upd_twist add.commute)

definition ctx_frame :: "u32 \<Rightarrow> ctx \<Rightarrow> kstate \<Rightarrow> kstate" where
  "ctx_frame a c k = k\<lparr>mem := mem_put a (le32s (ctx_words c)) (mem k)\<rparr>"

text \<open>What follows the call of a handler that has left the context \<open>c\<close>.\<close>

lemma handler_returns:
  assumes f: "f (ctx_of_words (words_at a 17 s)) (kern s) = Some (c, k)" and c: "length (gpr c) = 13"
    and a: "low s ! 0 = a" "bsp s (md s) = a" and m: "md s \<noteq> USR"
  shows "\<exists>s'. (do { s1 \<leftarrow> map_option (clobber B) (with_ctx f s); run B return_to_user s1 }) = Some s'
    \<and> user_view s' = c\<lparr>cpsr := msr_fc (bspsr s (md s)) (cpsr c)\<rparr> \<and> bsp s' (md s) = a + 68
    \<and> kern s' = ctx_frame a c k \<and> (\<forall>mo. mo \<noteq> USR \<and> mo \<noteq> md s \<longrightarrow> bsp s' mo = bsp s mo)"
proof -
  let ?p = "put_ram a (ctx_words c) (s\<lparr>kern := k\<rparr>)"
  let ?s1 = "clobber B ?p"
  have s1: "with_ctx f s = Some ?p" using f a by (simp add: with_ctx_def)
  have w: "words_at x n ?s1 = words_at x n ?p" for x n by (simp add: clobber_def)
  have "words_at a 2 ?s1 = [cpsr c, pc c]" "words_at (a + 8) 15 ?s1 = gpr c @ [sp c, lr c]"
    using words_at_put [of 0 2 "ctx_words c" a "s\<lparr>kern := k\<rparr>"] words_at_put [of 2 15 "ctx_words c" a "s\<lparr>kern := k\<rparr>"]
      ctx_words_parts [OF c] by (simp_all add: w)
  moreover have e: "low ?s1 \<noteq> []" "md ?s1 = md s" "bsp ?s1 = bsp s" "bspsr ?s1 = bspsr s" "kern ?s1 = ctx_frame a c k"
    by (simp_all add: clobber_def put_ram_def ctx_frame_def)
  ultimately have "run B return_to_user ?s1 = Some (?s1\<lparr>low := gpr c,
    bsp := (bsp s)(md s := a + 68, USR := sp c), blr := (blr ?s1)(md s := pc c, USR := lr c),
    bspsr := (bspsr s)(md s := msr_fc (bspsr s (md s)) (cpsr c)), psr := msr_fc (bspsr s (md s)) (cpsr c), pcr := pc c\<rparr>)"
    using run_return [of ?s1 c B] c m a(2) by simp
  then show ?thesis using e m s1 by (simp add: user_view_def)
qed

lemma run_append: "run B (xs @ ys) s = do { s1 \<leftarrow> run B xs s; run B ys s1 }"
  by (induction xs arbitrary: s) (simp_all split: Option.bind_split)

text \<open>The context at the moment of the exception, and the state in which it has been saved.\<close>

definition saved :: "cpu \<Rightarrow> u32 \<Rightarrow> ctx" where
  "saved s off = \<lparr>cpsr = bspsr s (md s), pc = blr s (md s) - off, gpr = low s, sp = bsp s USR, lr = blr s USR\<rparr>"

lemma run_save_context:
  assumes "length (low s) = 13" "md s \<noteq> USR" "a = bsp s (md s) - 68"
  shows "run B (save_context off) s = Some (s\<lparr>low := (low s)[0 := a], bsp := (bsp s)(md s := a),
    blr := (blr s)(md s := blr s (md s) - off), kern := ctx_frame a (saved s off) (kern s)\<rparr>)"
proof -
  have f: "mem_put a (le32s [p, q]) (mem_put (a + 8) (le32s (low s @ [x, y])) m)
      = mem_put a (le32s ([p, q] @ low s @ [x, y])) m" for p q x y m
  proof -
    have "le32s ([p, q] @ low s @ [x, y]) = le32s [p, q] @ le32s (low s @ [x, y])" by (simp add: le32s_def)
    then show ?thesis using mem_put_front [of "le32s [p, q]" "le32s (low s @ [x, y])" a m] assms(1) by simp
  qed
  have b: "bsp s (md s) = a + 68" "a + 68 - 60 = a + 8" using assms(3) by simp_all
  show ?thesis using assms(1,2)
    by (simp add: save_context_def Let_def put_ram_def b f)
       (rule cpu.equality; simp add: saved_def ctx_frame_def ctx_words_def fun_upd_twist)
qed

lemma words_of_frame: "length (gpr c) = 13 \<Longrightarrow> kern s = ctx_frame a c k \<Longrightarrow> ctx_of_words (words_at a 17 s) = c"
  using words_at_put [of 0 17 "ctx_words c" a "s\<lparr>kern := k\<rparr>"] ctx_words_parts(1) [of c]
  by (simp add: words_at_def put_ram_def ctx_frame_def ctx_words_inverse)

section \<open>The vectors\<close>

definition installed :: "board \<Rightarrow> (u32 \<Rightarrow> byte) \<Rightarrow> bool" where
  "installed B m \<longleftrightarrow> mem_bytes m 0 44 = le32s (int_data B)"

lemma read_word_at:
  assumes "mem_bytes m a (4 * length ws) = le32s ws" "i < length ws"
  shows "read_word m (a + word_of_nat (4 * i)) = ws ! i"
proof -
  have "mem_bytes m a (4 * i + 4) = take (4 * Suc i) (le32s ws)"
    using take_mem_bytes [of "4 * i + 4" m a "4 * length ws - (4 * i + 4)"] assms by (simp add: add.commute)
  then have "mem_bytes m (a + word_of_nat (4 * i)) 4 = le32s (drop i (take (Suc i) ws))"
    by (simp only: mem_bytes_drop le32s_take le32s_drop)
  moreover have "drop i (take (Suc i) ws) = [ws ! i]"
    using assms(2) by (simp add: drop_take take_Suc_conv_app_nth Cons_nth_drop_Suc [symmetric])
  ultimately show ?thesis by (simp add: read_word_def le32s_def)
qed

lemma vectors:
  assumes "installed B m"
  shows "vector m 0x00 = Some (at_rst B)" "vector m 0x08 = Some (at_svc B)" "vector m 0x18 = Some (at_irq B)"
proof -
  have w: "read_word m (word_of_nat (4 * i)) = int_data B ! i" if "i < 11" for i
    using read_word_at [of m 0 "int_data B" i] assms that by (simp add: installed_def int_data_def)
  show "vector m 0x00 = Some (at_rst B)"
    using w [of 0] w [of 8] by (simp add: vector_def int_data_def)
  show "vector m 0x08 = Some (at_svc B)"
    using w [of 2] w [of 9] by (simp add: vector_def int_data_def)
  show "vector m 0x18 = Some (at_irq B)"
    using w [of 6] w [of 10] by (simp add: vector_def int_data_def)
qed

lemma mode_entered [simp]: "mode_of (w AND 0xFFFFFFC0 OR 0x93) = SVC" "mode_of (w AND 0xFFFFFFC0 OR 0x192) = IRQ"
proof -
  have "(w AND 0xFFFFFFC0 OR v) AND 0x1F = v AND 0x1F" for v :: u32
    by (simp add: bit.conj_disj_distrib2 and.assoc)
  then show "mode_of (w AND 0xFFFFFFC0 OR 0x93) = SVC" "mode_of (w AND 0xFFFFFFC0 OR 0x192) = IRQ"
    by (simp_all add: mode_of_def)
qed

section \<open>Reset\<close>

lemma mem_put_snoc: "mem_put a (xs @ ys) m = mem_put (a + word_of_nat (length xs)) ys (mem_put a xs m)"
  by (induction xs arbitrary: a m) (simp_all add: add.assoc)

lemma unat_word32: "n < 2 ^ 32 \<Longrightarrow> unat (word_of_nat n :: u32) = n"
  by (simp add: unat_of_nat)

text \<open>The copy of the vectors goes to a place that does not overlap its source.\<close>

lemma int_init_loop_copies:
  assumes "ws \<noteq> []" "mem_bytes m r1 (4 * length ws) = le32s ws" "4 * length ws < 2 ^ 32"
    and "\<forall>i < 4 * length ws. \<forall>j < 4 * length ws. r1 + word_of_nat i \<noteq> r0 + word_of_nat j"
  shows "int_init_loop r0 r1 (r1 + word_of_nat (4 * length ws)) m = Some (mem_put r0 (le32s ws) m)"
  using assms
proof (induction ws arbitrary: r0 r1 m)
  case Nil
  then show ?case by simp
next
  case (Cons w ws)
  let ?n = "4 * length ws" and ?m1 = "mem_put r0 (le32 w) m"
  have w: "read_word m r1 = w" using read_word_at [OF Cons.prems(2), of 0] by simp
  show ?case
  proof (cases "ws = []")
    case True
    then show ?thesis using w by (subst int_init_loop.simps) (simp add: le32s_def)
  next
    case False
    have r2: "r1 + word_of_nat (4 * length (w # ws)) = r1 + 4 + word_of_nat ?n" by simp
    have "unat (word_of_nat ?n :: u32) = ?n" using Cons.prems(3) by (intro unat_word32) simp
    then have "(word_of_nat ?n :: u32) \<noteq> 0" using False by (metis length_0_conv mult_is_0 unsigned_0 zero_neq_numeral)
    then have ne: "r1 + 4 \<noteq> r1 + 4 + word_of_nat ?n" by simp
    have "?m1 (r1 + 4 + word_of_nat i) = m (r1 + 4 + word_of_nat i)" if i: "i < ?n" for i
    proof -
      define j where "j = unat (r1 + 4 + word_of_nat i - r0)"
      have "\<not> j < 4"
      proof
        assume "j < 4"
        then have "i + 4 < 4 * length (w # ws)" "j < 4 * length (w # ws)" using i by simp_all
        then have "r1 + word_of_nat (i + 4) \<noteq> r0 + word_of_nat j" using Cons.prems(4) by blast
        moreover have "r0 + word_of_nat j = r1 + word_of_nat (i + 4)" by (simp add: j_def)
        ultimately show False by simp
      qed
      then show ?thesis by (simp add: mem_put_apply j_def)
    qed
    then have "mem_bytes ?m1 (r1 + 4) ?n = mem_bytes m (r1 + 4) ?n"
      unfolding mem_bytes_def by (intro map_cong) simp_all
    also have "\<dots> = le32s ws"
      using mem_bytes_drop [of m r1 4 ?n] Cons.prems(2) le32s_drop [of 1 "w # ws"] by simp
    finally have "int_init_loop (r0 + 4) (r1 + 4) (r1 + 4 + word_of_nat ?n) ?m1 = Some (mem_put (r0 + 4) (le32s ws) ?m1)"
    proof (rule Cons.IH [OF False])
      show "\<forall>i < ?n. \<forall>j < ?n. r1 + 4 + word_of_nat i \<noteq> r0 + 4 + word_of_nat j"
      proof (intro allI impI)
        fix i j assume "i < ?n" "j < ?n"
        then have "i + 4 < 4 * length (w # ws)" "j + 4 < 4 * length (w # ws)" by simp_all
        then have "r1 + word_of_nat (i + 4) \<noteq> r0 + word_of_nat (j + 4)" using Cons.prems(4) by blast
        then show "r1 + 4 + word_of_nat i \<noteq> r0 + 4 + word_of_nat j" by (simp add: algebra_simps)
      qed
    qed (use Cons.prems(3) in simp)
    moreover have "mem_put (r0 + 4) (le32s ws) ?m1 = mem_put r0 (le32s (w # ws)) m"
      using mem_put_snoc [of r0 "le32 w" "le32s ws" m] by (simp add: le32s_def)
    ultimately show ?thesis
      unfolding r2 using ne w by (subst int_init_loop.simps) simp
  qed
qed

lemma int_init_installs:
  assumes "mem_bytes m (at_data B) 44 = le32s (int_data B)" "44 \<le> unat (at_data B)" "unat (at_data B) + 44 \<le> 2 ^ 32"
  shows "\<exists>m'. int_init B m = Some m' \<and> installed B m' \<and> (\<forall>a. 44 \<le> unat a \<longrightarrow> m' a = m a)"
proof -
  have l: "length (int_data B) = 11" by (simp add: int_data_def)
  have "at_data B + word_of_nat i \<noteq> 0 + word_of_nat j" if "i < 44" "j < 44" for i j
  proof -
    have "unat (word_of_nat i :: u32) = i" "unat (word_of_nat j :: u32) = j" using that by (simp_all add: unat_word32)
    moreover from this have "unat (at_data B + word_of_nat i) = unat (at_data B) + i"
      using that(1) assms(3) by (simp add: unat_plus_if')
    ultimately have "unat (at_data B + word_of_nat i) \<noteq> unat (word_of_nat j :: u32)" using assms(2) that(2) by linarith
    then show ?thesis by auto
  qed
  then have "int_init B m = Some (mem_put 0 (le32s (int_data B)) m)"
    using int_init_loop_copies [of "int_data B" m "at_data B" 0] assms(1) l
    by (simp add: int_init_def int_data_def)
  moreover have "installed B (mem_put 0 (le32s (int_data B)) m)"
    using mem_bytes_put [of "le32s (int_data B)" 0 m] l by (simp add: installed_def)
  moreover have "mem_put 0 (le32s (int_data B)) m a = m a" if "44 \<le> unat a" for a
    using that l by (simp add: mem_put_apply)
  ultimately show ?thesis by blast
qed

text \<open>
  Reset: the vectors are in place, each mode has its stack, and the processor is in the state of the
  context that the C handler has left in the uninitialised frame it was given.
\<close>

lemma reset_runs_handler:
  assumes b: "mem_bytes (mem (kern s)) (at_data B) 44 = le32s (int_data B)" "44 \<le> unat (at_data B)"
      "unat (at_data B) + 44 \<le> 2 ^ 32"
    and s: "length (low s) = 13" "length (scratch B) = 6" and a: "a = tos_svc B - 68"
  obtains m c where "installed B m"
    and "\<And>c' k'. hilevel_handler_rst (brd_env B) (brd_init B) c ((kern s)\<lparr>mem := m\<rparr>) = Some (c', k') \<Longrightarrow>
      length (gpr c') = 13 \<Longrightarrow> \<not> halted k' \<Longrightarrow>
      \<exists>s'. run B (lolevel_handler_rst B) s = Some s' \<and> pcr s' = pc c' \<and> low s' = gpr c' \<and> bsp s' USR = sp c'
        \<and> kern s' = ctx_frame a c' k' \<and> bsp s' SVC = tos_svc B \<and> bsp s' IRQ = tos_irq B"
proof -
  obtain m where m: "int_init B (mem (kern s)) = Some m" "installed B m" using int_init_installs [OF b] by blast
  let ?s0 = "s\<lparr>kern := (kern s)\<lparr>mem := m\<rparr>\<rparr>"
  let ?prefix = "[BL INT_INIT, MSR_CPSR 0xD2, LDRC SP (tos_irq B), MSR_CPSR 0xD3, LDRC SP (tos_svc B), SUB SP SP 68, MOV (R 0) SP]"
  have modes: "mode_of (msr_fc w 0xD2) = IRQ" "mode_of (msr_fc w 0xD3) = SVC" for w
  proof -
    have "(w AND 0x00FFFF00 OR v) AND 0x1F = v AND 0x1F" for v :: u32
      by (simp add: bit.conj_disj_distrib2 and.assoc)
    then show "mode_of (msr_fc w 0xD2) = IRQ" "mode_of (msr_fc w 0xD3) = SVC"
      by (simp_all add: mode_of_def msr_fc_def)
  qed
  obtain s1 where s1: "run B ?prefix s = Some s1" "low s1 ! 0 = a" "bsp s1 SVC = a" "bsp s1 IRQ = tos_irq B" "md s1 = SVC"
      "kern s1 = (kern s)\<lparr>mem := m\<rparr>"
    using m(1) s a by (simp add: modes clobber_def)
  have r: "run B (lolevel_handler_rst B) s = map_option (clobber B)
      (with_ctx (returning (hilevel_handler_rst (brd_env B) (brd_init B))) s1) \<bind> run B return_to_user"
  proof -
    have "lolevel_handler_rst B = ?prefix @ BL HL_RST # return_to_user" by (simp add: lolevel_handler_rst_def)
    then show ?thesis by (simp only: run_append s1(1) Option.bind.bind_lunit) simp
  qed
  show thesis
  proof (rule that [OF m(2)])
    fix c' k'
    assume h: "hilevel_handler_rst (brd_env B) (brd_init B) (ctx_of_words (words_at a 17 s1)) ((kern s)\<lparr>mem := m\<rparr>) = Some (c', k')"
      "length (gpr c') = 13" "\<not> halted k'"
    obtain s' where s': "run B (lolevel_handler_rst B) s = Some s'"
        "user_view s' = c'\<lparr>cpsr := msr_fc (bspsr s1 SVC) (cpsr c')\<rparr>" "bsp s' SVC = a + 68"
        "kern s' = ctx_frame a c' k'" "bsp s' IRQ = bsp s1 IRQ"
      using handler_returns [where f = "returning (hilevel_handler_rst (brd_env B) (brd_init B))" and s = s1, OF _ h(2) s1(2), of k' B]
        h(1,3) s1(3,5,6) unfolding r by (auto simp: returning_def)
    have "pc (user_view s') = pc c'" "gpr (user_view s') = gpr c'" "sp (user_view s') = sp c'"
      unfolding s'(2) by simp_all
    then show "\<exists>s'. run B (lolevel_handler_rst B) s = Some s' \<and> pcr s' = pc c' \<and> low s' = gpr c' \<and> bsp s' USR = sp c'
        \<and> kern s' = ctx_frame a c' k' \<and> bsp s' SVC = tos_svc B \<and> bsp s' IRQ = tos_irq B"
      using s'(1,3-5) s1(4) a by (intro exI [of _ s']) (simp add: user_view_def)
  qed
qed

text \<open>The functions that switch interrupts on and off change one bit of the status register.\<close>

lemma int_switches:
  assumes "low s \<noteq> []"
  shows "map_option psr (run B int_enable_irq s) = Some (msr_c (psr s) (psr s AND NOT 0x80))"
    "map_option psr (run B int_unable_irq s) = Some (msr_c (psr s) (psr s OR 0x80))"
    "map_option psr (run B int_enable_fiq s) = Some (msr_c (psr s) (psr s AND NOT 0x40))"
    "map_option psr (run B int_unable_fiq s) = Some (msr_c (psr s) (psr s OR 0x40))"
  using assms by (simp_all add: int_enable_irq_def int_unable_irq_def int_enable_fiq_def int_unable_fiq_def)

section \<open>Interrupts as the kernel and the programs see them\<close>

lemma read_word_frame:
  assumes "length (gpr c) = 13" "\<forall>i < 4. 68 \<le> unat (p + word_of_nat i - a)"
  shows "read_word (mem (ctx_frame a c k)) p = read_word (mem k) p"
proof -
  have "mem (ctx_frame a c k) (p + word_of_nat i) = mem k (p + word_of_nat i)" if "i < 4" for i
  proof -
    have "68 \<le> unat (p + word_of_nat i - a)" using assms(2) that by blast
    then show ?thesis using ctx_words_parts(1) [OF assms(1)] by (simp add: ctx_frame_def mem_put_apply)
  qed
  then have "mem_bytes (mem (ctx_frame a c k)) p 4 = mem_bytes (mem k) p 4"
    unfolding mem_bytes_def by (intro map_cong) simp_all
  then show ?thesis by (simp add: read_word_def)
qed

lemma low_24_bits: "NOT (0xFF000000 :: u32) = 0x00FFFFFF"
  by code_simp

lemma enter_simps [simp]:
  "low (enter mo b r s) = low s" "bsp (enter mo b r s) = bsp s" "kern (enter mo b r s) = kern s"
  "blr (enter mo b r s) = (blr s)(mo := r)" "bspsr (enter mo b r s) = (bspsr s)(mo := psr s)"
  "psr (enter mo b r s) = (psr s AND 0xFFFFFFC0) OR b"
  by (simp_all add: enter_def)

text \<open>
  C8: A supervisor call.  With the vectors in place, an \<open>svc\<close> instruction executed by a program leads
  through the vector and the entry code to the C handler, which gets the number in the instruction and
  the registers of the program, the program counter behind the instruction.  Afterwards the processor is
  in the state of the context the handler left, so a switch made in C is a switch of the processor, and
  the stack of the handler is back where it was.  Only the middle bits of the status register stay those
  of the program that made the call.  A call that halts the kernel never gets back to the program.
\<close>

theorem svc_runs_handler:
  assumes b: "installed B (mem (kern s))" "distinct [at_rst B, at_svc B, at_irq B]"
    and s: "length (low s) = 13"
    and i: "read_word (mem (kern s)) (pcr s) AND 0x00FFFFFF = call"
    and a: "a = bsp s SVC - 68" "\<forall>i < 4. 68 \<le> unat (pcr s + word_of_nat i - a)"
    and c: "c = (user_view s)\<lparr>pc := pcr s + 4\<rparr>"
    and h: "hilevel_handler_svc (brd_env B) call c (ctx_frame a c (kern s)) = Some (c', k')" "length (gpr c') = 13"
  shows "if halted k' then svc_exception B s = None
    else \<exists>s'. svc_exception B s = Some s' \<and> user_view s' = c'\<lparr>cpsr := msr_fc (psr s) (cpsr c')\<rparr>
      \<and> kern s' = ctx_frame a c' k' \<and> bsp s' SVC = bsp s SVC \<and> bsp s' IRQ = bsp s IRQ"
proof -
  let ?s0 = "enter SVC 0x93 (pcr s + 4) s"
  have c0: "saved ?s0 0 = c" by (simp add: saved_def c user_view_def)
  have l: "length (gpr c) = 13" using s by (simp add: c user_view_def)
  obtain s1 where s1: "run B (save_context 0) ?s0 = Some s1" "low s1 = (low s)[0 := a]" "bsp s1 = (bsp s)(SVC := a)"
      "blr s1 SVC = pcr s + 4" "kern s1 = ctx_frame a c (kern s)" "bspsr s1 SVC = psr s" "md s1 = SVC"
    using run_save_context [of ?s0 a B 0] s a(1) c0 by simp
  let ?s2 = "s1\<lparr>low := (low s1)[1 := call]\<rparr>"
  have "read_word (mem (kern s1)) (pcr s) AND NOT 0xFF000000 = call"
    using read_word_frame [OF l a(2)] i s1(5) by (simp only: low_24_bits)
  then have s2: "run B [LDR (R 1) LR (-4), BIC (R 1) (R 1) 0xFF000000] s1 = Some ?s2"
    using s1(2,4,7) s by simp
  have p: "svc_exception B s = run B (save_context 0 @ [LDR (R 1) LR (-4), BIC (R 1) (R 1) 0xFF000000]
      @ BL HL_SVC # return_to_user) ?s0"
    using vectors(2) [OF b(1)] b(2)
    by (auto simp: svc_exception_def take_vector_def program_at_def lolevel_handler_svc_def)
  have r: "svc_exception B s = map_option (clobber B)
      (with_ctx (returning (hilevel_handler_svc (brd_env B) call)) ?s2) \<bind> run B return_to_user"
    unfolding p run_append s1(1) s2 Option.bind.bind_lunit using s1(2) s by simp
  have w: "ctx_of_words (words_at a 17 ?s2) = c" by (rule words_of_frame [OF l]) (simp add: s1)
  have f: "returning (hilevel_handler_svc (brd_env B) call) (ctx_of_words (words_at a 17 ?s2)) (kern ?s2)
      = (if halted k' then None else Some (c', k'))"
    unfolding w using h(1) s1(5) by (simp add: returning_def)
  show ?thesis
  proof (cases "halted k'")
    case True
    moreover have "low ?s2 ! 0 = a" using s1(2) s by simp
    ultimately show ?thesis unfolding r using f by (simp add: with_ctx_def)
  next
    case False
    then have "returning (hilevel_handler_svc (brd_env B) call) (ctx_of_words (words_at a 17 ?s2)) (kern ?s2) = Some (c', k')"
      using f by simp
    from handler_returns [where f = "returning (hilevel_handler_svc (brd_env B) call)", OF this h(2), of B] s s1 a(1) False
    show ?thesis unfolding r by fastforce
  qed
qed

text \<open>
  C9: An interrupt.  Whatever instruction a program was about to execute, an interrupt leads through its
  vector to the C handler with the complete state of the program; what the handler leaves in the
  context is what the processor goes on with.  A program that is not switched goes on with the
  instruction it was about to execute and all its registers as they were, while the handler's stack is
  back in place.
\<close>

theorem irq_runs_handler:
  assumes b: "installed B (mem (kern s))" "distinct [at_rst B, at_svc B, at_irq B]"
    and s: "length (low s) = 13"
    and a: "a = bsp s IRQ - 68"
    and h: "hilevel_handler_irq (source B) (user_view s) (ctx_frame a (user_view s) (kern s)) = (c', k')"
      "length (gpr c') = 13"
  shows "\<exists>s'. irq_exception B s = Some s' \<and> user_view s' = c'\<lparr>cpsr := msr_fc (psr s) (cpsr c')\<rparr>
    \<and> kern s' = ctx_frame a c' k' \<and> bsp s' IRQ = bsp s IRQ \<and> bsp s' SVC = bsp s SVC
    \<and> (c' = user_view s \<longrightarrow> user_view s' = user_view s)"
proof -
  let ?s0 = "enter IRQ 0x192 (pcr s + 4) s" and ?c = "user_view s"
  have c0: "saved ?s0 4 = ?c" by (simp add: saved_def user_view_def)
  have l: "length (gpr ?c) = 13" using s by (simp add: user_view_def)
  obtain s1 where s1: "run B (save_context 4) ?s0 = Some s1" "low s1 = (low s)[0 := a]" "bsp s1 = (bsp s)(IRQ := a)"
      "kern s1 = ctx_frame a ?c (kern s)" "bspsr s1 IRQ = psr s" "md s1 = IRQ"
    using run_save_context [of ?s0 a B 4] s a c0 by simp
  have p: "irq_exception B s = run B (save_context 4 @ BL HL_IRQ # return_to_user) ?s0"
    using vectors(3) [OF b(1)] b(2)
    by (auto simp: irq_exception_def take_vector_def program_at_def lolevel_handler_irq_def)
  have r: "irq_exception B s = map_option (clobber B)
      (with_ctx (\<lambda>c k. Some (hilevel_handler_irq (source B) c k)) s1) \<bind> run B return_to_user"
    unfolding p run_append s1(1) Option.bind.bind_lunit by simp
  have w: "ctx_of_words (words_at a 17 s1) = ?c" by (rule words_of_frame [OF l s1(4)])
  have "Some (hilevel_handler_irq (source B) (ctx_of_words (words_at a 17 s1)) (kern s1)) = Some (c', k')"
    unfolding w s1(4) h(1) ..
  moreover have "msr_fc x x = x" for x
  proof -
    have "msr_fc x x = x AND (0x00FFFF00 OR 0xFF0000FF)" unfolding msr_fc_def bit.conj_disj_distrib ..
    also have "(0x00FFFF00 OR 0xFF0000FF) = (- 1 :: u32)" by code_simp
    finally show ?thesis by simp
  qed
  then have "c' = ?c \<Longrightarrow> c'\<lparr>cpsr := msr_fc (psr s) (cpsr c')\<rparr> = ?c" by (simp add: user_view_def)
  ultimately show ?thesis
    using handler_returns [of "\<lambda>c k. Some (hilevel_handler_irq (source B) c k)" a s1 c' k' B] h(2) s s1 a
    unfolding r by fastforce
qed

section \<open>A machine with the entry code\<close>

definition demo_board :: board where
  "demo_board = \<lparr>brd_env = sample_env, brd_init = 0x70010000, tos_irq = 0x72000000, tos_svc = 0x72001000,
     source = GIC_SOURCE_TIMER0, at_rst = 0x70010000, at_svc = 0x70010080, at_irq = 0x70010040, at_data = 0x70010100,
     scratch = [1, 2, 3, 4, 5, 6]\<rparr>"

text \<open>A program about to execute \<open>svc 7\<close> (\<open>nice\<close>) for process 1 and priority 9.\<close>

definition demo_cpu :: cpu where
  "demo_cpu = \<lparr>low = [1, 9] @ replicate 11 7, bsp = (\<lambda>m. case m of USR \<Rightarrow> 0x70200000 | IRQ \<Rightarrow> 0x72000000 | SVC \<Rightarrow> 0x72001000),
     blr = (\<lambda>m. 0x70020000), bspsr = (\<lambda>m. 0), psr = 0x60000010, pcr = 0x70030000,
     kern = sample_kernel\<lparr>mem := mem_put 0 (le32s (int_data demo_board)) (mem_put 0x70030000 (le32 0xEF000007) (\<lambda>a. 0))\<rparr>\<rparr>"

lemma demo_installed: "installed demo_board (mem (kern demo_cpu))" "distinct [at_rst demo_board, at_svc demo_board, at_irq demo_board]"
proof -
  have l: "length (int_data demo_board) = 11" by (simp add: int_data_def)
  show "installed demo_board (mem (kern demo_cpu))"
    using mem_bytes_put [of "le32s (int_data demo_board)" 0] l by (simp add: installed_def demo_cpu_def)
qed (simp add: demo_board_def)

lemma demo_call: "read_word (mem (kern demo_cpu)) 0x70030000 = 0xEF000007"
proof -
  have l: "length (int_data demo_board) = 11" by (simp add: int_data_def)
  have "mem_bytes (mem (kern demo_cpu)) 0x70030000 4 = le32 0xEF000007"
    by (simp add: mem_bytes_def demo_cpu_def mem_put_apply l upt_conv_Cons le32_def)
  then show ?thesis by (simp add: read_word_def)
qed

lemma demo_disjoint: "\<forall>i < 4. 68 \<le> unat (0x70030000 + word_of_nat i - (0x72001000 - 68) :: u32)"
proof (intro allI impI)
  fix i :: nat assume "i < 4"
  then consider "i = 0" | "i = 1" | "i = 2" | "i = 3" by linarith
  then show "68 \<le> unat (0x70030000 + word_of_nat i - (0x72001000 - 68) :: u32)" by cases simp_all
qed

lemma svc_runs_handler_witness:
  "\<exists>s. svc_exception demo_board demo_cpu = Some s \<and> base_priority (pcbs (kern s) ! 1) = 9 \<and> pcr s = 0x70030004"
proof -
  let ?c = "(user_view demo_cpu)\<lparr>pc := pcr demo_cpu + 4\<rparr>" and ?a = "0x72001000 - 68 :: u32"
  let ?k = "ctx_frame ?a ?c (kern demo_cpu)"
  have "hilevel_handler_svc (brd_env demo_board) 7 ?c ?k = Some (?c, svc_nice ?c ?k)"
    by (simp add: hilevel_handler_svc_def)
  moreover have "\<not> halted (svc_nice ?c ?k)"
    by (simp add: svc_nice_def Let_def demo_cpu_def ctx_frame_def) (simp add: sample_kernel_def boot_kernel_def)
  ultimately obtain s where "svc_exception demo_board demo_cpu = Some s"
      "user_view s = ?c\<lparr>cpsr := msr_fc (psr demo_cpu) (cpsr ?c)\<rparr>" "kern s = ctx_frame ?a ?c (svc_nice ?c ?k)"
    using svc_runs_handler [of demo_board demo_cpu 7 ?a ?c ?c "svc_nice ?c ?k"] demo_installed demo_call demo_disjoint
    by (simp add: demo_cpu_def user_view_def) blast
  moreover have "base_priority (pcbs (svc_nice ?c ?k) ! 1) = 9"
    by (simp add: svc_nice_def upd_pcb_def demo_cpu_def user_view_def ctx_frame_def PCB_SIZE_def sample_kernel_sel)
  ultimately show ?thesis by (simp add: ctx_frame_def user_view_def demo_cpu_def)
qed

lemma irq_runs_handler_witness:
  "\<exists>s. irq_exception demo_board demo_cpu = Some s \<and> user_view s = user_view demo_cpu \<and> current_runtime (kern s) = 1"
proof -
  let ?c = "user_view demo_cpu" and ?a = "0x72000000 - 68 :: u32"
  let ?k = "ctx_frame ?a ?c (kern demo_cpu)"
  have "hilevel_handler_irq (source demo_board) ?c ?k = (?c, ?k\<lparr>current_runtime := 1\<rparr>)"
    by (simp add: hilevel_handler_irq_def schedule_def demo_board_def ctx_frame_def demo_cpu_def sample_kernel_sel)
  moreover have "length (gpr ?c) = 13" "length (low demo_cpu) = 13" by (simp_all add: user_view_def demo_cpu_def)
  moreover have "?a = bsp demo_cpu IRQ - 68" by (simp add: demo_cpu_def)
  ultimately obtain s where "irq_exception demo_board demo_cpu = Some s" "user_view s = ?c"
      "kern s = ctx_frame ?a ?c (?k\<lparr>current_runtime := 1\<rparr>)"
    using irq_runs_handler [OF demo_installed, of ?a ?c "?k\<lparr>current_runtime := 1\<rparr>"] by blast
  then show ?thesis by (simp add: ctx_frame_def)
qed

end
