(* ===== verification/Fs1.thy ===== *)
theory Fs1
  imports Disk
begin

text \<open>
  The first file system, \<^verbatim>\<open>kernel/fs.c\<close> and \<^verbatim>\<open>kernel/fs.h\<close>, a draft that was given up for the one in
  \<^verbatim>\<open>kernel/fs2.c\<close>: a header block, regions of records of 128 bytes, and formatting.  \<open>meta_disk\<close> is the
  line to the disk, which the code reaches through the driver's global.
\<close>

definition BLOCK_SIZE :: nat where "BLOCK_SIZE = 0x1000"

definition UNUSED_VALUE :: u32 where "UNUSED_VALUE = 0xFFFFFFFF"

definition MAX_IREGIONS :: nat where "MAX_IREGIONS = 800"

definition MAX_CHILDREN :: nat where "MAX_CHILDREN = 26"

definition IRECORDS_PER_BLOCK :: u32 where "IRECORDS_PER_BLOCK = 32"

definition FT_DIR1 :: u8 where "FT_DIR1 = 0"

datatype fs_msg = SUCCESS | INVALID_PATH | HBLOCK_FULL | READ_ERROR | WRITE_ERROR | DISK_FULL | DIR_FULL
  | BAD_PERMISSIONS | NO_SUCH_FILE

record fs1_hblock =
  nblocks :: u32
  next_blk :: u32
  next_irecord :: u32
  ident :: "byte list"
  ireg_ds :: u8
  freg_ds :: u8
  perms_d :: u8
  unused :: "byte list"
  ireg_start :: "u32 list"
  ireg_size :: "u8 list"

record irecord =
  ir_name :: "byte list"
  permissions :: u8
  ir_type :: u8
  ir_parent :: u32
  payload :: "byte list"

record fs_meta =
  meta_blk_0 :: u32
  fs_result :: fs_msg
  header :: fs1_hblock
  meta_disk :: uart2

text \<open>The header as a block of the disk.\<close>

definition fs1_hblock_bytes :: "fs1_hblock \<Rightarrow> byte list" where
  "fs1_hblock_bytes h = le32 (nblocks h) @ le32 (next_blk h) @ le32 (next_irecord h) @ ident h
     @ [ireg_ds h, freg_ds h, perms_d h] @ unused h @ le32s (ireg_start h) @ ireg_size h"

definition fs1_hblock_of_bytes :: "byte list \<Rightarrow> fs1_hblock" where
  "fs1_hblock_of_bytes bs = \<lparr>nblocks = of_le32 (take 4 bs), next_blk = of_le32 (take 4 (drop 4 bs)),
     next_irecord = of_le32 (take 4 (drop 8 bs)), ident = take 8 (drop 12 bs),
     ireg_ds = bs ! 20, freg_ds = bs ! 21, perms_d = bs ! 22, unused = take 73 (drop 23 bs),
     ireg_start = of_le32s 800 (take 3200 (drop 96 bs)), ireg_size = take 800 (drop 3296 bs)\<rparr>"

section \<open>Blocks\<close>

definition read_full_block :: "fs_meta \<Rightarrow> u32 \<Rightarrow> (bool \<times> byte list \<times> fs_meta) option" where
  "read_full_block m block = do {
     (r, bs, d) \<leftarrow> disk_rd (meta_disk m) (block + meta_blk_0 m) BLOCK_SIZE;
     Some (r \<ge> 0, bs, m\<lparr>meta_disk := d\<rparr>)
   }"

definition write_full_block :: "fs_meta \<Rightarrow> u32 \<Rightarrow> byte list \<Rightarrow> (bool \<times> fs_meta) option" where
  "write_full_block m block bs = do {
     (r, d) \<leftarrow> disk_wr (meta_disk m) (block + meta_blk_0 m) bs BLOCK_SIZE;
     Some (r \<ge> 0, m\<lparr>meta_disk := d\<rparr>)
   }"

definition load_hblock :: "fs_meta \<Rightarrow> (bool \<times> fs_meta) option" where
  "load_hblock m = do {
     (ok, bs, m1) \<leftarrow> read_full_block m 0;
     Some (ok, if ok then m1\<lparr>header := fs1_hblock_of_bytes bs\<rparr> else m1)
   }"

definition save_hblock :: "fs_meta \<Rightarrow> (bool \<times> fs_meta) option" where
  "save_hblock m = write_full_block m 0 (fs1_hblock_bytes (header m))"

definition set_result :: "fs_meta \<Rightarrow> fs_msg \<Rightarrow> 'a \<Rightarrow> 'a \<times> fs_meta" where
  "set_result m msg return_val = (return_val, m\<lparr>fs_result := msg\<rparr>)"

definition cwfs1_ident :: "byte list" where "cwfs1_ident = chars ''CWFS 1.0''"

definition load_volume :: "fs_meta \<Rightarrow> (bool \<times> fs_meta) option" where
  "load_volume m = do {
     (ok, m1) \<leftarrow> load_hblock m;
     Some (ok \<and> strncmp_eq 8 cwfs1_ident (ident (header m1)), m1)
   }"

text \<open>The payload of a directory: 26 numbers of children.\<close>

definition new_dir_pl :: "byte list" where
  "new_dir_pl = le32s (replicate MAX_CHILDREN UNUSED_VALUE)"

section \<open>Regions\<close>

definition find_free_region :: "fs_meta \<Rightarrow> u8 \<Rightarrow> u32 \<times> fs_meta" where
  "find_free_region m rsize =
     (let new = next_blk (header m);
          after_it = new + ucast rsize
      in if after_it \<le> nblocks (header m)
         then set_result (m\<lparr>header := (header m)\<lparr>next_blk := after_it\<rparr>\<rparr>) SUCCESS new
         else set_result m DISK_FULL 0)"

definition new_iregion :: "fs_meta \<Rightarrow> nat \<Rightarrow> (u32 \<times> fs_meta) option" where
  "new_iregion m ireg_index =
     (let (start, m1) = find_free_region m (ireg_ds (header m))
      in if fs_result m1 \<noteq> SUCCESS then Some (0, m1)
         else
           let h = header m1;
               m2 = m1\<lparr>header := h\<lparr>ireg_start := (ireg_start h)[ireg_index := start],
                                      ireg_size := (ireg_size h)[ireg_index := ireg_ds h]\<rparr>\<rparr>
           in do {
             (ok, m3) \<leftarrow> save_hblock m2;
             Some (if ok then set_result m3 SUCCESS start else set_result m3 WRITE_ERROR 0)
           })"

text \<open>
  The loop reads \<open>ireg_start[i]\<close> before it tests \<open>i\<close>: with all 800 regions in use the access is outside
  the array, so that the case \<open>HBLOCK_FULL\<close> is never reached in a defined way.
\<close>

function find_iregion1 :: "fs_meta \<Rightarrow> u32 \<Rightarrow> nat \<Rightarrow> u32 \<Rightarrow> (u32 \<times> fs_meta) option" where
  "find_iregion1 m iblock_index i a =
     (if i \<ge> MAX_IREGIONS then None
      else if ireg_start (header m) ! i \<noteq> UNUSED_VALUE then
        let b = a + ucast (ireg_size (header m) ! i)
        in if iblock_index < b then Some (ireg_start (header m) ! i + iblock_index - a, m)
           else find_iregion1 m iblock_index (i + 1) b
      else new_iregion m i)"
  by pat_completeness auto
termination
  by (relation "measure (\<lambda>(m, iblock_index, i, a). MAX_IREGIONS - i)") auto

declare find_iregion1.simps [simp del]

definition iblock_index_to_disk_index :: "fs_meta \<Rightarrow> u32 \<Rightarrow> (u32 \<times> fs_meta) option" where
  "iblock_index_to_disk_index m iblock_index = find_iregion1 m iblock_index 0 0"

section \<open>Records\<close>

text \<open>
  \<open>memcpy(&iblock.records[k], &iblock, BLOCK_SIZE)\<close> on the 4096 bytes of the local \<open>iblock\<close>: nothing for
  \<open>k = 0\<close>, where source and destination are the same, and a store outside the variable otherwise.
\<close>

definition memcpy_iblock :: "byte list \<Rightarrow> u32 \<Rightarrow> byte list option" where
  "memcpy_iblock iblock k = (if k = 0 then Some iblock else None)"

definition save_irecord :: "fs_meta \<Rightarrow> irecord \<Rightarrow> u32 \<Rightarrow> (bool \<times> fs_meta) option" where
  "save_irecord m irec iindex = do {
     (iblock_loc, m1) \<leftarrow> iblock_index_to_disk_index m (iindex div IRECORDS_PER_BLOCK);
     if iblock_loc = 0 then Some (False, m1)
     else do {
       (ok, iblock, m2) \<leftarrow> read_full_block m1 iblock_loc;
       if \<not> ok then Some (set_result m2 READ_ERROR False)
       else do {
         iblock1 \<leftarrow> memcpy_iblock iblock (iindex mod IRECORDS_PER_BLOCK);
         (ok2, m3) \<leftarrow> write_full_block m2 iblock_loc iblock1;
         Some (if ok2 then set_result m3 SUCCESS True else set_result m3 WRITE_ERROR False)
       }
     }
   }"

definition add_irecord :: "fs_meta \<Rightarrow> irecord \<Rightarrow> (bool \<times> fs_meta) option" where
  "add_irecord m irec = do {
     (ok, m1) \<leftarrow> save_irecord m irec (next_irecord (header m));
     Some (if ok then (True, m1\<lparr>header := (header m1)\<lparr>next_irecord := next_irecord (header m1) + 1\<rparr>\<rparr>)
           else (False, m1))
   }"

text \<open>\<open>junk\<close> is what the local \<open>root\<close> holds before its fields are set.\<close>

definition create_root :: "irecord \<Rightarrow> fs_meta \<Rightarrow> (bool \<times> fs_meta) option" where
  "create_root junk m =
     add_irecord m (junk\<lparr>permissions := perms_d (header m), ir_type := FT_DIR1, payload := new_dir_pl\<rparr>)"

text \<open>
  The function ends without a \<open>return\<close> unless the size is refused; the first component of the result is
  the value returned, if any.
\<close>

definition format_volume ::
    "irecord \<Rightarrow> fs_meta \<Rightarrow> u32 \<Rightarrow> u8 \<Rightarrow> u8 \<Rightarrow> u8 \<Rightarrow> (bool option \<times> fs_meta) option" where
  "format_volume junk m n ids fds pd =
     (if n < 2 then Some (Some False, m)
      else
        let m1 = m\<lparr>header := (header m)\<lparr>nblocks := n, ident := cwfs1_ident, freg_ds := fds, ireg_ds := ids,
                     perms_d := pd, next_blk := 1, next_irecord := 0,
                     ireg_start := replicate MAX_IREGIONS UNUSED_VALUE\<rparr>\<rparr>
        in do {
          (r, m2) \<leftarrow> create_root junk m1;
          Some (None, m2)
        })"

section \<open>Properties\<close>

definition fs1_hblock_ok :: "fs1_hblock \<Rightarrow> bool" where
  "fs1_hblock_ok h \<longleftrightarrow> length (ident h) = 8 \<and> length (unused h) = 73 \<and> length (ireg_start h) = 800 \<and> length (ireg_size h) = 800"

definition meta_ok :: "fs_meta \<Rightarrow> bool" where
  "meta_ok m \<longleftrightarrow> disk_ok (meta_disk m) \<and> block_len (peer (meta_disk m)) = 4096 \<and> shorts (peer (meta_disk m)) = []
     \<and> fs1_hblock_ok (header m)"

lemma length_fs1_hblock_bytes: "fs1_hblock_ok h \<Longrightarrow> length (fs1_hblock_bytes h) = 4096"
  by (simp add: fs1_hblock_ok_def fs1_hblock_bytes_def)

lemma fs1_hblock_roundtrip: "fs1_hblock_ok h \<Longrightarrow> fs1_hblock_of_bytes (fs1_hblock_bytes h) = h"
  by (cases h) (simp add: fs1_hblock_ok_def fs1_hblock_bytes_def fs1_hblock_of_bytes_def nth_append)

lemma cwfs1_ident_matches: "strncmp_eq 8 cwfs1_ident cwfs1_ident"
  by code_simp

lemma quiet_disk: "shorts (peer d) = [] \<Longrightarrow> failing d = 0 \<and> used k d = d"
  by (cases d) (simp add: failing_def used_def)

lemma read_full_block_ok:
  assumes "meta_ok m" "unat (b + meta_blk_0 m) < length (blocks (meta_disk m))"
  shows "read_full_block m b = Some (True, blocks (meta_disk m) ! unat (b + meta_blk_0 m), m)"
  using disk_rd_tries_in_range [of "meta_disk m" "b + meta_blk_0 m" 4096 3] quiet_disk [of "meta_disk m"] assms
  by (simp add: meta_ok_def read_full_block_def disk_rd_def BLOCK_SIZE_def DISK_RETRY_def DISK_SUCCESS_def)

lemma write_full_block_ok:
  assumes "meta_ok m" "unat (b + meta_blk_0 m) < length (blocks (meta_disk m))" "length x = 4096"
  shows "write_full_block m b x = Some (True, m\<lparr>meta_disk := stored (b + meta_blk_0 m) x (meta_disk m)\<rparr>)"
  using disk_wr_tries_in_range [of "meta_disk m" "b + meta_blk_0 m" x 4096 3] quiet_disk [of "meta_disk m"] assms
  by (simp add: meta_ok_def write_full_block_def disk_wr_def BLOCK_SIZE_def DISK_RETRY_def DISK_SUCCESS_def)

lemma meta_ok_stored:
  "meta_ok m \<Longrightarrow> length x = 4096 \<Longrightarrow> meta_ok (m\<lparr>meta_disk := stored a x (meta_disk m)\<rparr>)"
  by (simp add: meta_ok_def uart_simps)

text \<open>
  C40: The root directory of the first file system is never written.  On a volume with room, formatting
  succeeds and counts one record, but of the whole disk only the header changes: the record that is saved
  is the one the block held before.  The header on the disk counts no record, so that the volume, loaded
  again, has none.
\<close>

theorem fs1_root_never_written:
  assumes m: "meta_ok m" "unat (meta_blk_0 m) + 1 < length (blocks (meta_disk m))"
    and n: "2 \<le> n" "0 < ids" "unat ids + 1 \<le> unat n"
  shows "\<exists>m' m''. format_volume junk m n ids fds pd = Some (None, m') \<and> fs_result m' = SUCCESS
    \<and> next_irecord (header m') = 1
    \<and> blocks (meta_disk m') = (blocks (meta_disk m))
        [unat (meta_blk_0 m) := fs1_hblock_bytes ((header m')\<lparr>next_irecord := 0\<rparr>)]
    \<and> load_volume m' = Some (True, m'') \<and> next_irecord (header m'') = 0"
proof -
  have "length (blocks (meta_disk m)) \<le> 2 ^ 31" using m(1) by (simp add: meta_ok_def disk_ok_def blocks_def)
  then have a1: "unat (1 + meta_blk_0 m) = unat (meta_blk_0 m) + 1" using m(2) by (simp add: unat_word_ariths)
  define h where "h = (header m)\<lparr>nblocks := n, ident := cwfs1_ident, freg_ds := fds, ireg_ds := ids, perms_d := pd,
      next_blk := 1, next_irecord := 0, ireg_start := replicate MAX_IREGIONS UNUSED_VALUE\<rparr>"
  define h1 where "h1 = h\<lparr>next_blk := 1 + ucast ids, ireg_start := (ireg_start h)[0 := 1], ireg_size := (ireg_size h)[0 := ids]\<rparr>"
  have ok: "fs1_hblock_ok h1"
    using m(1) by (simp add: meta_ok_def fs1_hblock_ok_def h1_def h_def cwfs1_ident_def MAX_IREGIONS_def)
  have fit: "1 + ucast ids \<le> n"
    using n(3) unat_u8_less [of ids] by (simp add: word_le_nat_alt unat_word_ariths)
  let ?m1 = "m\<lparr>fs_result := SUCCESS, header := h1\<rparr>"
  let ?m2 = "?m1\<lparr>meta_disk := stored (meta_blk_0 m) (fs1_hblock_bytes h1) (meta_disk m)\<rparr>"
  have m1: "meta_ok ?m1" "meta_ok ?m2"
    using m(1) ok meta_ok_stored [of ?m1 "fs1_hblock_bytes h1" "meta_blk_0 m"] length_fs1_hblock_bytes [OF ok]
    by (simp_all add: meta_ok_def)
  have index: "iblock_index_to_disk_index (m\<lparr>header := h\<rparr>) 0 = Some (1, ?m2)"
    using write_full_block_ok [OF m1(1), of 0 "fs1_hblock_bytes h1"] m(2) length_fs1_hblock_bytes [OF ok] fit
    by (simp add: iblock_index_to_disk_index_def find_iregion1.simps [of _ _ 0] new_iregion_def find_free_region_def
        set_result_def save_hblock_def h_def h1_def MAX_IREGIONS_def Let_def)
  define d1 where "d1 = stored (meta_blk_0 m) (fs1_hblock_bytes h1) (meta_disk m)"
  define m3 where "m3 = m\<lparr>fs_result := SUCCESS, header := h1, meta_disk := d1\<rparr>"
  have m3: "meta_ok m3" "unat (1 + meta_blk_0 m3) < length (blocks (meta_disk m3))"
    using m1(2) m(2) a1 by (simp_all add: m3_def d1_def uart_simps)
  define x where "x = blocks (meta_disk m3) ! unat (1 + meta_blk_0 m3)"
  have x: "length x = 4096"
    using m3 by (simp add: x_def meta_ok_def disk_ok_def blocks_def)
  have same: "stored (1 + meta_blk_0 m3) x (meta_disk m3) = meta_disk m3"
    unfolding x_def by (simp only: stored_def blocks_def list_update_id) simp
  have again: "m3\<lparr>fs_result := SUCCESS\<rparr> = m3" by (simp add: m3_def)
  have "iblock_index_to_disk_index (m\<lparr>header := h\<rparr>) 0 = Some (1, m3)"
    unfolding index by (simp add: m3_def d1_def)
  then have save: "save_irecord (m\<lparr>header := h\<rparr>) r 0 = Some (True, m3)" for r
    using read_full_block_ok [OF m3] write_full_block_ok [OF m3 x]
    by (simp add: save_irecord_def memcpy_iblock_def set_result_def IRECORDS_PER_BLOCK_def x_def [symmetric] same again)
  have sel: "next_irecord h = 0" "header m3 = h1" "next_irecord h1 = 0"
    "h1\<lparr>next_irecord := 0\<rparr> = h1" by (simp_all add: m3_def h1_def h_def)
  have fmt: "format_volume junk m n ids fds pd = Some (None, m3\<lparr>header := h1\<lparr>next_irecord := 1\<rparr>\<rparr>)"
    using n(1) save sel
    by (simp add: format_volume_def h_def [symmetric] create_root_def add_irecord_def not_less)
  have same_ident: "strncmp_eq 8 cwfs1_ident (ident h1)" by (simp add: h1_def h_def cwfs1_ident_matches)
  have loaded: "load_volume m4 = Some (True, m4\<lparr>header := h1\<rparr>)"
    if "m4 = m3\<lparr>header := g\<rparr>" "fs1_hblock_ok g" for m4 g
  proof -
    have "meta_ok m4" "unat (0 + meta_blk_0 m4) < length (blocks (meta_disk m4))"
      using m3(1) m(2) that by (simp_all add: meta_ok_def m3_def d1_def uart_simps)
    from read_full_block_ok [OF this] show ?thesis
      using m(2) ok fs1_hblock_roundtrip [OF ok] that
      by (simp add: load_volume_def load_hblock_def m3_def d1_def uart_simps same_ident)
  qed
  show ?thesis
    using loaded [OF refl, of "h1\<lparr>next_irecord := 1\<rparr>"] ok sel
    by (intro exI [of _ "m3\<lparr>header := h1\<lparr>next_irecord := 1\<rparr>\<rparr>"] exI [of _ "m3\<lparr>header := h1\<rparr>"])
      (simp add: fmt sel(4) fs1_hblock_ok_def m3_def d1_def uart_simps)
qed

definition blank_irecord :: irecord where
  "blank_irecord = \<lparr>ir_name = replicate 18 0, permissions = 0, ir_type = 0, ir_parent = 0, payload = replicate 104 0\<rparr>"

definition blank_meta :: fs_meta where
  "blank_meta = \<lparr>meta_blk_0 = 0, fs_result = NO_SUCH_FILE,
     header = \<lparr>nblocks = 0, next_blk = 0, next_irecord = 0, ident = replicate 8 0, ireg_ds = 0, freg_ds = 0,
       perms_d = 0, unused = replicate 73 0, ireg_start = replicate 800 0, ireg_size = replicate 800 0\<rparr>,
     meta_disk = \<lparr>rx = [], peer = \<lparr>block_num = 4, block_len = 4096,
       disk_img = replicate 4 (replicate 4096 0), shorts = [], dead = False, line = []\<rparr>\<rparr>\<rparr>"

lemma fs1_root_never_written_witness:
  "\<exists>m' m''. format_volume blank_irecord blank_meta 4 1 1 7 = Some (None, m') \<and> fs_result m' = SUCCESS
    \<and> next_irecord (header m') = 1
    \<and> blocks (meta_disk m') = (blocks (meta_disk blank_meta))
        [unat (meta_blk_0 blank_meta) := fs1_hblock_bytes ((header m')\<lparr>next_irecord := 0\<rparr>)]
    \<and> load_volume m' = Some (True, m'') \<and> next_irecord (header m'') = 0"
  by (rule fs1_root_never_written)
    (simp_all add: blank_meta_def meta_ok_def fs1_hblock_ok_def disk_ok_def ready_def blocks_def word_le_nat_alt
      word_less_nat_alt)

end
