(* ===== verification/Fs2_Blocks.thy ===== *)
theory Fs2_Blocks
  imports Fs2_Dir
begin

text \<open>
  Properties of the block layer as its clients use it: the header saved and loaded again, block
  addresses against the list of blocks the regions denote, and the regions handed out.
\<close>

section \<open>The header\<close>

text \<open>The invalid addresses a load leaves in the caches are those of no block.\<close>

definition uncached :: "fs2_volume \<Rightarrow> fs2_volume" where
  "uncached v = v\<lparr>icindex := -1, dcaddr := -1, xcaddr := -1, outcome := FS2_SUCCESS\<rparr>"

lemma strncmp_eq_refl: "n \<le> length s \<Longrightarrow> cstring s \<Longrightarrow> strncmp_eq n s (s @ t)"
proof (induction s arbitrary: n)
  case Nil
  then show ?case by simp
next
  case (Cons x s)
  then show ?case by (cases n) (auto simp: cstring_def)
qed

lemma cwfs_ident_matches: "strncmp_eq 8 cwfs_ident (cstr cwfs_ident)"
proof -
  have "cstring cwfs_ident" by (simp add: cwfs_ident_def cstring_def chars_def)
  then show ?thesis
    using strncmp_eq_refl [of 8 cwfs_ident "[0]"] by (simp add: length_cwfs_ident cstr_def)
qed

text \<open>
  C32: A volume survives a restart.  Whatever header is in memory, saving it and then loading the volume
  gives that header back, touches no other block of the disk, and leaves no block cached, so that
  nothing read before the restart is taken for the contents of the disk.
\<close>

theorem header_saved_and_loaded:
  assumes "vol_ok v" "quiet v" "on_disk v 0" "ident (hblock v) = cwfs_ident" "wf_hblock h"
  shows "\<exists>w. fs2_save_hblock v = Some w \<and> outcome w = FS2_SUCCESS
    \<and> (\<forall>a. on_disk v a \<longrightarrow> blk w a = (if a = 0 then hblock_bytes (hblock v) else blk v a))
    \<and> fs2_load_volume (w\<lparr>hblock := h\<rparr>) = Some (uncached w)"
proof -
  note wf = vol_ok_wf(1) [OF assms(1)]
  let ?w = "(put_blk 0 (hblock_bytes (hblock v)) v)\<lparr>outcome := FS2_SUCCESS\<rparr>"
  have save: "fs2_save_hblock v = Some ?w"
    using assms wf by (simp add: fs2_save_hblock_def fs2_wblk_ok layout_simps set_outcome_def)
  have ok: "vol_ok (?w\<lparr>hblock := h\<rparr>)" using assms wf by (simp add: layout_simps)
  have b: "blk ?w a = (if a = 0 then hblock_bytes (hblock v) else blk v a)" if "on_disk v a" for a
    using that by (simp add: blk_put_blk)
  have "fs2_rblk (?w\<lparr>hblock := h\<rparr>) 0 = Some (True, hblock_bytes (hblock v), ?w\<lparr>hblock := h\<rparr>)"
    using fs2_rblk_ok [OF ok, of 0] assms b [OF assms(3)] by simp
  then have "fs2_load_volume (?w\<lparr>hblock := h\<rparr>) = Some (uncached ?w)"
    using wf assms(4) cwfs_ident_matches
    by (simp add: fs2_load_volume_def layout_simps uncached_def put_blk_def)
  then show ?thesis using save b by (intro exI [of _ ?w]) (auto simp del: put_blk_sel)
qed

lemma header_saved_and_loaded_witness:
  "\<exists>w. fs2_save_hblock formatted_vol = Some w
    \<and> fs2_load_volume (w\<lparr>hblock := hblock_of_bytes zero_block\<rparr>) = Some (uncached w)"
proof -
  have "ident (hblock formatted_vol) = cwfs_ident" "wf_hblock (hblock_of_bytes zero_block)"
    by (simp_all add: formatted_vol_ok boot_hblock_def fresh_hblock_def layout_simps)
  then show ?thesis
    using header_saved_and_loaded [of formatted_vol "hblock_of_bytes zero_block"]
    by (auto simp: formatted_vol_ok)
qed

section \<open>Block addresses\<close>

text \<open>
  Block addresses.  The two search loops over region tables, \<open>find_blk\<close> over the 23 regions of a
  file and the loop of \<open>fs2_get_iblock\<close> over those of the header, give the entry of that index in the
  list of all blocks of the regions, taken in order up to the first unused one; past its end
  \<open>find_blk\<close> gives 0 and \<open>fs2_get_iblock\<close> the first unused entry of its table.
\<close>

lemma block_search_reference:
  assumes "wf_inode i" "0 \<le> b" "wf_hblock h" "unat (separator h) \<le> 800"
  shows "find_blk (reg_start i) (reg_len i) 23 b =
      (let bs = region_blocks (zip (reg_start i) (reg_len i))
       in if nat b < length bs then bs ! nat b else 0)
    \<and> find_iregion h ib 0 0 = Some (if unat ib < length (region_blocks (iregions h))
        then Inl (region_blocks (iregions h) ! unat ib)
        else Inr (length (used_regions (iregions h))))"
  using find_blk_eq [of "reg_start i" "reg_len i" b] find_iregion_eq [OF assms(3,4)] assms(1,2)
  by (simp add: wf_inode_def)

text \<open>An inode of two regions, of 2 and of 3 blocks.\<close>

definition sample_inode :: fs2_inode where
  "sample_inode = zero_inode\<lparr>reg_start := [10, 40] @ replicate 21 0, reg_len := [2, 3] @ replicate 21 0\<rparr>"

lemma block_search_reference_witness:
  "find_blk (reg_start sample_inode) (reg_len sample_inode) 23 3 = 41
   \<and> find_blk (reg_start sample_inode) (reg_len sample_inode) 23 5 = 0"
proof -
  have wf: "wf_inode sample_inode" by (simp add: wf_inode_def sample_inode_def zero_inode_def)
  have h: "wf_hblock boot_hblock" "unat (separator boot_hblock) \<le> 800"
    by (simp_all add: wf_hblock_def boot_hblock_def fresh_hblock_def zero_decoded length_cwfs_ident)
  have b: "region_blocks (zip (reg_start sample_inode) (reg_len sample_inode)) = [10, 11, 40, 41, 42]"
    by (simp add: sample_inode_def region_blocks_def used_regions_def region_addrs_def zip_replicate
        upt_rec [of _ 2] upt_rec [of _ 3])
  show ?thesis
    using block_search_reference [OF wf _ h, of 3] block_search_reference [OF wf _ h, of 5]
    unfolding b by simp
qed

section \<open>The allocator\<close>

text \<open>A client that asks for one region after another, until one is refused.\<close>

fun alloc_all :: "fs2_volume \<Rightarrow> u8 list \<Rightarrow> regions" where
  "alloc_all v [] = []"
| "alloc_all v (r # rs) =
     (case fs2_find_free_region v r False of
        None \<Rightarrow> []
      | Some (a, v1) \<Rightarrow> if a = 0 then [] else (a, r) # alloc_all v1 rs)"

lemma region_addrs_range:
  assumes "unat s + unat l < 2 ^ 32"
  shows "map unat (region_addrs (s, l)) = [unat s ..< unat s + unat l]"
proof (rule nth_equalityI)
  fix k assume "k < length (map unat (region_addrs (s, l)))"
  then have k: "k < unat l" by (simp add: region_addrs_def)
  then have "unat (word_of_nat k :: u32) = k"
    unfolding unat_of_nat using unat_u8_less [of l] by simp
  then show "map unat (region_addrs (s, l)) ! k = [unat s ..< unat s + unat l] ! k"
    using k assms by (simp add: region_addrs_def unat_add_no_wrap)
qed (simp add: region_addrs_def)

lemma alloc_all_blocks:
  assumes "alloc_ok (hblock v)"
  shows "distinct (concat (map region_addrs (alloc_all v rs)))
    \<and> (\<forall>b \<in> set (concat (map region_addrs (alloc_all v rs))).
         unat (next_block (hblock v)) \<le> unat b \<and> unat b < unat (nblocks (hblock v)))"
  using assms
proof (induction v rs rule: alloc_all.induct)
  case (1 v)
  then show ?case by simp
next
  case (2 v r rs)
  from 2(2) show ?case
  proof (cases rule: find_free_region_spec [where rsz = r])
    case full
    then show ?thesis by simp
  next
    case (given h')
    let ?v = "v\<lparr>hblock := h', outcome := FS2_SUCCESS\<rparr>" and ?a = "next_block (hblock v)"
    have a: "?a \<noteq> 0" using 2(2) by (auto simp: alloc_ok_def)
    have n: "unat ?a + unat r < 2 ^ 32"
      using given(5) unsigned_less [where 'a = nat, of "nblocks (hblock v)"] by simp
    note range = region_addrs_range [OF n]
    have "distinct (map unat (region_addrs (?a, r)))" unfolding range by simp
    then have d: "distinct (region_addrs (?a, r))" by (simp add: distinct_map)
    have s: "unat ` set (region_addrs (?a, r)) = {unat ?a ..< unat ?a + unat r}"
      using range by (metis atLeastLessThan_upt set_map)
    have IH: "distinct (concat (map region_addrs (alloc_all ?v rs)))"
      "\<forall>b \<in> set (concat (map region_addrs (alloc_all ?v rs))).
         unat ?a + unat r \<le> unat b \<and> unat b < unat (nblocks (hblock v))"
      using 2(1) [OF given(1) refl a] given(2-4) by simp_all
    have "alloc_all v (r # rs) = (?a, r) # alloc_all ?v rs" using given(1) a by simp
    moreover have low: "unat ?a \<le> unat b \<and> unat b < unat ?a + unat r" if "b \<in> set (region_addrs (?a, r))" for b
      using that s by (metis atLeastLessThan_iff imageI)
    ultimately show ?thesis
      using d IH given(5) by (force simp del: alloc_all.simps)
  qed
qed

text \<open>
  C33: No block is given out twice.  Whatever sizes are asked for, the regions \<open>fs2_find_free_region\<close>
  hands out share no block, contain none that was in use before and none past the end of the volume.
\<close>

theorem regions_never_overlap:
  assumes "alloc_ok (hblock v)"
  shows "distinct (concat (map region_addrs (alloc_all v rs)))
    \<and> (\<forall>b \<in> set (concat (map region_addrs (alloc_all v rs))).
         unat (next_block (hblock v)) \<le> unat b \<and> unat b < unat (nblocks (hblock v)))"
  by (rule alloc_all_blocks [OF assms])

lemma regions_never_overlap_witness:
  "distinct (concat (map region_addrs (alloc_all formatted_vol [4, 2, 200, 1])))"
proof -
  have "alloc_ok (hblock formatted_vol)"
    by (simp add: formatted_vol_ok alloc_ok_def boot_hblock_def fresh_hblock_def)
  then show ?thesis using regions_never_overlap [of formatted_vol "[4, 2, 200, 1]"] by blast
qed

end
