(* ===== verification/Fs2_Read.thy ===== *)
theory Fs2_Read
  imports Fs2_Blocks Fs2_File
begin

text \<open>
  Reading files, against the tree of files the blocks of the disk denote.  A
  volume satisfies \<open>fs_ok\<close> when its disk answers and its three caches agree with it; the operations
  that only read keep it and change no block.
\<close>

section \<open>What the disk holds\<close>

definition fs_ok :: "fs2_volume \<Rightarrow> bool" where
  "fs_ok v \<longleftrightarrow> vol_ok v \<and> quiet v \<and> unat (separator (hblock v)) \<le> 800
     \<and> ic_coherent v \<and> dblk.coherent v \<and> gp.coherent v"

text \<open>\<open>w\<close> is \<open>v\<close> up to the caches and the outcome.\<close>

definition same_disk :: "fs2_volume \<Rightarrow> fs2_volume \<Rightarrow> bool" where
  "same_disk v w \<longleftrightarrow> blk w = blk v \<and> on_disk w = on_disk v \<and> hblock w = hblock v \<and> fs_ok w"

text \<open>Inode number \<open>ix\<close> is \<open>i\<close>.\<close>

definition has_inode :: "fs2_volume \<Rightarrow> u32 \<Rightarrow> fs2_inode \<Rightarrow> bool" where
  "has_inode v ix i \<longleftrightarrow> (let k = unat (ix div 32) in k < length (iblocks v) \<and> on_disk v (iblocks v ! k)
     \<and> iblock_of_bytes (blk v (iblocks v ! k)) ! unat (ix mod 32) = i)"

definition file_blocks :: "fs2_inode \<Rightarrow> u32 list" where
  "file_blocks i = region_blocks (zip (reg_start i) (reg_len i))"

text \<open>Every block of the file is on the disk, none of them is the header, and they hold \<open>n\<close> bytes.\<close>

definition blocks_ok :: "fs2_volume \<Rightarrow> fs2_inode \<Rightarrow> nat \<Rightarrow> bool" where
  "blocks_ok v i n \<longleftrightarrow> wf_inode i \<and> (\<forall>a \<in> set (file_blocks i). on_disk v a \<and> a \<noteq> 0)
     \<and> n \<le> 4096 * length (file_blocks i)"

definition file_bytes :: "fs2_volume \<Rightarrow> fs2_inode \<Rightarrow> byte list" where
  "file_bytes v i = take (unat (eof i)) (concat (map (blk v) (file_blocks i)))"

lemma same_disk_refl: "fs_ok v \<Longrightarrow> same_disk v v"
  by (simp add: same_disk_def)

lemma same_disk_trans: "same_disk u v \<Longrightarrow> same_disk v w \<Longrightarrow> same_disk u w"
  by (simp add: same_disk_def)

lemma same_disk_ok: "same_disk v w \<Longrightarrow> fs_ok w"
  by (simp add: same_disk_def)

lemma same_disk_inode: "same_disk v w \<Longrightarrow> has_inode w = has_inode v"
  by (auto simp: same_disk_def has_inode_def iblocks_def Let_def fun_eq_iff)

lemma same_disk_blocks: "same_disk v w \<Longrightarrow> blocks_ok w = blocks_ok v"
  by (auto simp: same_disk_def blocks_ok_def fun_eq_iff)

lemma outcome_coherent [simp]:
  "ic_coherent (v\<lparr>outcome := oc\<rparr>) = ic_coherent v"
  "dblk.coherent (v\<lparr>outcome := oc\<rparr>) = dblk.coherent v"
  "gp.coherent (v\<lparr>outcome := oc\<rparr>) = gp.coherent v"
  by (simp_all add: ic_coherent_def iblocks_def dblk.coherent_def gp.coherent_def)

lemma fs_ok_outcome [simp]: "fs_ok (v\<lparr>outcome := oc\<rparr>) = fs_ok v"
  by (simp add: fs_ok_def)

lemma same_disk_outcome [simp]: "same_disk v (w\<lparr>outcome := oc\<rparr>) = same_disk v w"
  by (simp add: same_disk_def)

section \<open>Loads\<close>

lemma rblk_frame:
  "fs2_rblk v a = Some (ok, bs, w) \<Longrightarrow> w = v\<lparr>disk := disk w\<rparr>"
  by (auto simp: fs2_rblk_def split: Option.bind_splits)

lemma load_gp_frame:
  "fs2_load_gp_c v a dry = Some w \<Longrightarrow> hblock w = hblock v \<and> icindex w = icindex v \<and> icaddr w = icaddr v
     \<and> icache w = icache v \<and> dcaddr w = dcaddr v \<and> dcache w = dcache v"
  by (auto simp: fs2_load_gp_c_def fs2_rblk_def split: if_splits Option.bind_splits)

lemma load_dblock_frame:
  "fs2_load_dblock_c v a dry = Some w \<Longrightarrow> hblock w = hblock v \<and> icindex w = icindex v \<and> icaddr w = icaddr v
     \<and> icache w = icache v \<and> xcaddr w = xcaddr v \<and> xcache w = xcache v"
  by (auto simp: fs2_load_dblock_c_def fs2_rblk_def split: if_splits Option.bind_splits)

lemma load_gp:
  assumes "fs_ok v" "on_disk v a"
  obtains w where "fs2_load_gp_c v a False = Some w" "outcome w = FS2_SUCCESS" "xcache w = blk v a"
    "xcaddr w = a" "icache w = icache v" "same_disk v w"
proof -
  obtain w where w: "fs2_load_gp_c v a False = Some w" "outcome w = FS2_SUCCESS" "xcache w = blk v a"
      "xcaddr w = a" "blk w = blk v" "on_disk w = on_disk v" "gp.coherent w" "quiet w" "vol_ok w"
    using gp.load_coherent [of v a] assms unfolding fs_ok_def by metis
  have f: "hblock w = hblock v" "icindex w = icindex v" "icaddr w = icaddr v"
      "icache w = icache v" "dcaddr w = dcaddr v" "dcache w = dcache v"
    using load_gp_frame [OF w(1)] by simp_all
  have "ic_coherent w" "dblk.coherent w"
    using assms(1) f w by (simp_all add: fs_ok_def ic_coherent_def iblocks_def dblk.coherent_def)
  then have "same_disk v w" using w f assms(1) by (simp add: same_disk_def fs_ok_def)
  with w f that show ?thesis by simp
qed

lemma load_dblock:
  assumes "fs_ok v" "on_disk v a"
  obtains w where "fs2_load_dblock_c v a False = Some w" "outcome w = FS2_SUCCESS"
    "dcache w = dblock_of_bytes (blk v a)" "dcaddr w = a" "icache w = icache v" "same_disk v w"
proof -
  obtain w where w: "fs2_load_dblock_c v a False = Some w" "outcome w = FS2_SUCCESS"
      "dcache w = dblock_of_bytes (blk v a)" "dcaddr w = a" "blk w = blk v" "on_disk w = on_disk v"
      "dblk.coherent w" "quiet w" "vol_ok w"
    using dblk.load_coherent [of v a] assms unfolding fs_ok_def by metis
  have f: "hblock w = hblock v" "icindex w = icindex v" "icaddr w = icaddr v"
      "icache w = icache v" "xcaddr w = xcaddr v" "xcache w = xcache v"
    using load_dblock_frame [OF w(1)] by simp_all
  have "ic_coherent w" "gp.coherent w"
    using assms(1) f w by (simp_all add: fs_ok_def ic_coherent_def iblocks_def gp.coherent_def)
  then have "same_disk v w" using w f assms(1) by (simp add: same_disk_def fs_ok_def)
  with w f that show ?thesis by simp
qed

lemma load_inode:
  assumes "fs_ok v" "has_inode v ix i"
  obtains w where "fs2_get_iblock_c v (ix div 32) save_h False = Some w" "outcome w = FS2_SUCCESS"
    "icache w ! unat (ix mod 32) = i" "same_disk v w"
proof -
  let ?k = "ix div 32"
  let ?a = "iblocks v ! unat ?k"
  have k: "unat ?k < length (iblocks v)" "on_disk v ?a"
    and i: "iblock_of_bytes (blk v ?a) ! unat (ix mod 32) = i"
    using assms(2) by (simp_all add: has_inode_def Let_def)
  let ?w = "v\<lparr>icindex := ?k, icaddr := ?a, icache := iblock_of_bytes (blk v ?a), outcome := FS2_SUCCESS\<rparr>"
  have "fs2_get_iblock_c v ?k save_h False = Some ?w"
    using assms(1) k by (intro fs2_get_iblock_c_ok) (simp_all add: fs_ok_def)
  moreover have "ic_coherent ?w" by (simp add: ic_coherent_def iblocks_def)
  then have "same_disk v ?w"
    using assms(1) k
    by (auto simp: same_disk_def fs_ok_def dblk.coherent_def gp.coherent_def layout_simps)
  ultimately show ?thesis using that [of ?w] i by simp
qed

section \<open>Blocks of equal length\<close>

lemma drop_concat_blocks:
  assumes "\<forall>x \<in> set xs. length x = w"
  shows "drop (w * q) (concat xs) = concat (drop q xs)"
  using assms
proof (induction q arbitrary: xs)
  case 0
  then show ?case by simp
next
  case (Suc q)
  then show ?case by (cases xs) (simp_all add: drop_drop [symmetric] del: drop_drop)
qed

lemma take_concat_blocks:
  assumes "\<forall>x \<in> set xs. length x = w"
  shows "take (w * q) (concat xs) = concat (take q xs)"
  using assms
proof (induction q arbitrary: xs)
  case 0
  then show ?case by simp
next
  case (Suc q)
  then show ?case by (cases xs) simp_all
qed

lemma take_concat_rest:
  assumes "\<forall>x \<in> set xs. length x = w" "q < length xs" "r \<le> w"
  shows "take (w * q + r) (concat xs) = concat (take q xs) @ take r (xs ! q)"
proof -
  have "concat (drop q xs) = xs ! q @ concat (drop (Suc q) xs)"
    using assms(2) by (simp add: Cons_nth_drop_Suc [symmetric])
  then have "take r (concat (drop q xs)) = take r (xs ! q)" using assms by simp
  then show ?thesis
    using assms by (simp add: take_add take_concat_blocks drop_concat_blocks)
qed

lemma drop_concat_rest:
  assumes "\<forall>x \<in> set xs. length x = w" "q < length xs" "r \<le> w"
  shows "drop (w * q + r) (concat xs) = drop r (xs ! q) @ concat (drop (Suc q) xs)"
proof -
  have "concat (drop q xs) = xs ! q @ concat (drop (Suc q) xs)"
    using assms(2) by (simp add: Cons_nth_drop_Suc [symmetric])
  then have "drop r (concat (drop q xs)) = drop r (xs ! q) @ concat (drop (Suc q) xs)"
    using assms by simp
  then show ?thesis
    using assms by (simp add: drop_concat_blocks drop_drop [symmetric] add.commute del: drop_drop)
qed

section \<open>Reading\<close>

lemma find_file_blk:
  assumes "blocks_ok v i n" "0 \<le> b"
  shows "find_blk (reg_start i) (reg_len i) 23 b
      = (if nat b < length (file_blocks i) then file_blocks i ! nat b else 0)"
  using find_blk_eq [of "reg_start i" "reg_len i" b] assms
  by (simp add: blocks_ok_def wf_inode_def file_blocks_def Let_def)

lemma file_block_ok:
  assumes "blocks_ok v i n" "k < length (file_blocks i)"
  shows "on_disk v (file_blocks i ! k)" "file_blocks i ! k \<noteq> 0"
  using assms by (auto simp: blocks_ok_def)

lemma read_blocks_eq:
  assumes "fs_ok v" "blocks_ok v i n" "0 \<le> b" "rcount \<le> rbytes"
    "nat (rbytes - rcount) div 4096 \<le> length (file_blocks i) - nat (b + 1)"
  shows "\<exists>w. same_disk v w \<and> read_blocks v i rbytes rcount b out =
    (let m = nat (rbytes - rcount) div 4096
     in Some (True, rcount + 4096 * int m, b + int m,
          out @ concat (map (blk v) (take m (drop (nat (b + 1)) (file_blocks i)))), w))"
  using assms
proof (induction v i rbytes rcount b out rule: read_blocks.induct)
  case (1 v i rbytes rcount b out)
  note ok = 1(2) and blks = 1(3) and b = 1(4) and le = 1(5) and len = 1(6)
  show ?case
  proof (cases "rbytes - rcount \<ge> 0x1000")
    case False
    then have m: "nat (rbytes - rcount) div 4096 = 0" using le by simp
    have "read_blocks v i rbytes rcount b out = Some (True, rcount, b, out, v)"
      using False by (subst read_blocks.simps) (simp only: if_False)
    then show ?thesis using m same_disk_refl [OF ok] by auto
  next
    case True
    let ?bs = "file_blocks i" and ?q = "nat (b + 1)"
    let ?m = "nat (rbytes - (rcount + 4096)) div 4096"
    have nat: "nat (rbytes - rcount) = nat (rbytes - (rcount + 4096)) + 4096" using True by linarith
    then have m: "nat (rbytes - rcount) div 4096 = Suc ?m" by simp
    have q: "?q < length ?bs" using len unfolding m by linarith
    have blk: "find_blk (reg_start i) (reg_len i) 23 (b + 1) = ?bs ! ?q" "?bs ! ?q \<noteq> 0" "on_disk v (?bs ! ?q)"
      using find_file_blk [OF blks, of "b + 1"] file_block_ok [OF blks q] b q by simp_all
    obtain w where w: "fs2_load_gp_c v (?bs ! ?q) False = Some w" "outcome w = FS2_SUCCESS"
        "xcache w = blk v (?bs ! ?q)" "same_disk v w"
      using load_gp [OF ok blk(3)] by metis
    have step: "read_blocks v i rbytes rcount b out
        = read_blocks w i rbytes (rcount + 0x1000) (b + 1) (out @ xcache w)"
      using True blk w by (subst read_blocks.simps) (simp add: Let_def)
    have "\<exists>u. same_disk w u \<and> read_blocks w i rbytes (rcount + 0x1000) (b + 1) (out @ xcache w) =
      (let m = nat (rbytes - (rcount + 0x1000)) div 4096
       in Some (True, rcount + 0x1000 + 4096 * int m, b + 1 + int m,
          out @ xcache w @ concat (map (blk w) (take m (drop (nat (b + 1 + 1)) ?bs))), u))"
    proof -
      have "nat (b + 1 + 1) = Suc ?q" using b by simp
      then have "?m \<le> length ?bs - nat (b + 1 + 1)" using len unfolding m by linarith
      then show ?thesis
        using 1(1) [OF True refl refl, of w] blk(1,2) w same_disk_ok [OF w(4)]
          same_disk_blocks [OF w(4)] blks b True by simp
    qed
    then obtain u where u: "same_disk w u" "read_blocks w i rbytes (rcount + 0x1000) (b + 1) (out @ xcache w) =
        Some (True, rcount + 0x1000 + 4096 * int ?m, b + 1 + int ?m,
          out @ xcache w @ concat (map (blk w) (take ?m (drop (nat (b + 1 + 1)) ?bs))), u)"
      by (auto simp: Let_def)
    have "drop ?q ?bs = ?bs ! ?q # drop (nat (b + 1 + 1)) ?bs"
      using Cons_nth_drop_Suc [OF q] b by (simp add: Suc_nat_eq_nat_zadd1 add.commute)
    then have "take (Suc ?m) (drop ?q ?bs) = ?bs ! ?q # take ?m (drop (nat (b + 1 + 1)) ?bs)" by simp
    moreover have "blk w = blk v" using w(4) by (simp add: same_disk_def)
    ultimately show ?thesis
      using u w same_disk_trans [OF w(4) u(1)]
      by (intro exI [of _ u]) (simp add: step m Let_def algebra_simps)
  qed
qed

text \<open>A slice of the blocks, starting at offset \<open>off\<close> of block \<open>q\<close>.\<close>

lemma slice_within:
  assumes "\<forall>x \<in> set xs. length x = w" "q < length xs" "off \<le> w" "r \<le> w - off"
  shows "take r (drop (w * q + off) (concat xs)) = take r (drop off (xs ! q))"
proof -
  have "length (xs ! q) = w" using assms by simp
  then show ?thesis using assms by (simp add: drop_concat_rest)
qed

lemma slice_blocks:
  assumes "\<forall>x \<in> set xs. length x = w" "q < length xs" "off \<le> w"
  shows "take (w - off + w * m) (drop (w * q + off) (concat xs))
    = drop off (xs ! q) @ concat (take m (drop (Suc q) xs))"
proof -
  have "length (xs ! q) = w" "\<forall>x \<in> set (drop (Suc q) xs). length x = w"
    using assms by (auto dest: in_set_dropD)
  then show ?thesis using assms by (simp add: drop_concat_rest take_concat_blocks)
qed

lemma slice_rest:
  assumes "\<forall>x \<in> set xs. length x = w" "Suc q + m < length xs" "off \<le> w" "r \<le> w"
  shows "take (w - off + w * m + r) (drop (w * q + off) (concat xs))
    = drop off (xs ! q) @ concat (take m (drop (Suc q) xs)) @ take r (xs ! (Suc q + m))"
proof -
  have "length (xs ! q) = w" "\<forall>x \<in> set (drop (Suc q) xs). length x = w"
    using assms by (auto dest: in_set_dropD)
  then show ?thesis using assms by (simp add: drop_concat_rest take_concat_rest add.assoc)
qed

lemma no_permission_check:
  "fperm i AND (if FS2_U_READ = 0 then 1 else 0) = 0" "fperm i AND (if FS2_U_WRITE = 0 then 1 else 0) = 0"
  by (simp_all add: FS2_U_READ_def FS2_U_WRITE_def)

lemma read_count:
  fixes n e cursor :: u32
  assumes "unat e < 2 ^ 31" "unat cursor < unat e"
  shows "(if n < word_of_int (sint (e - cursor)) then sint n else sint (e - cursor))
    = int (min (unat n) (unat e - unat cursor))"
proof -
  have d: "sint (e - cursor) = int (unat e - unat cursor)" "unat (e - cursor) = unat e - unat cursor"
    using sint_diff_small [of e cursor] assms by (simp_all add: unat_sub word_le_nat_alt of_nat_diff)
  have w: "word_of_int (sint (e - cursor)) = e - cursor" by simp
  show ?thesis
  proof (cases "n < e - cursor")
    case True
    then have "unat n < unat e - unat cursor" using d by (simp add: word_less_nat_alt)
    moreover from this have "sint n = int (unat n)" using assms by (intro sint_below_31) linarith
    ultimately show ?thesis using True unfolding w by simp
  next
    case False
    then have "unat e - unat cursor \<le> unat n" using d by (simp add: word_less_nat_alt not_less)
    then show ?thesis unfolding w using False d by simp
  qed
qed

lemma length_blocks: "fs_ok v \<Longrightarrow> blocks_ok v i n \<Longrightarrow> \<forall>x \<in> set (map (blk v) (file_blocks i)). length x = 4096"
  by (auto simp: blocks_ok_def fs_ok_def)

text \<open>The rest of a read that does not end in its first block: the full blocks, then a part of one.\<close>

definition read_rest :: "fs2_volume \<Rightarrow> fs2_inode \<Rightarrow> int \<Rightarrow> int \<Rightarrow> int \<Rightarrow> byte list
    \<Rightarrow> (int \<times> byte list \<times> fs2_volume) option" where
  "read_rest vol inode rbytes read1 blkind out1 = do {
     (go, rcount, blkind2, out2, vol4) \<leftarrow> read_blocks vol inode rbytes read1 blkind out1;
     if \<not> go then Some (rcount, out2, vol4)
     else if rcount = rbytes then Some (rcount, out2, vol4)
     else do {
       let blk2 = find_blk (reg_start inode) (reg_len inode) 23 (blkind2 + 1);
       vol5 \<leftarrow> fs2_load_gp_c vol4 blk2 False;
       if outcome vol5 \<noteq> FS2_SUCCESS then Some (rcount, out2, vol5)
       else Some (rbytes, out2 @ take (nat (rbytes - rcount)) (xcache vol5), vol5)
     }
   }"

lemma read_rest_eq:
  assumes ok: "fs_ok v" and blks: "blocks_ok v i n" and off: "off < 4096" "4096 - off < R"
    and fit: "4096 * q + off + R \<le> 4096 * length (file_blocks i)"
  defines "C \<equiv> map (blk v) (file_blocks i)"
  shows "\<exists>w. read_rest v i (int R) (int (4096 - off)) (int q) (drop off (C ! q))
      = Some (int R, take R (drop (4096 * q + off) (concat C)), w) \<and> same_disk v w"
proof -
  let ?bs = "file_blocks i"
  have len: "\<forall>x \<in> set C. length x = 4096" unfolding C_def by (rule length_blocks [OF ok blks])
  define m r where "m = (R - (4096 - off)) div 4096" and "r = (R - (4096 - off)) mod 4096"
  have "R - (4096 - off) = 4096 * m + r" unfolding m_def r_def by (rule mult_div_mod_eq [symmetric])
  then have R: "R = 4096 - off + 4096 * m + r" using off(2) by linarith
  have r_less: "r \<le> 4096" by (simp add: r_def)
  have fit': "4096 * (Suc q + m) + r \<le> 4096 * length ?bs" using fit R off by simp
  then have "4096 * (Suc q + m) \<le> 4096 * length ?bs" by linarith
  then have mle: "Suc q + m \<le> length ?bs" by (simp only: mult_le_cancel1)
  have mm: "nat (int R - int (4096 - off)) div 4096 = m" by (simp add: m_def nat_minus_as_int)
  have Suc: "nat (int q + 1) = Suc q" by simp
  have le: "int (4096 - off) \<le> int R" unfolding of_nat_le_iff using off(2) by (rule less_imp_le)
  have le': "m \<le> length ?bs - Suc q" using mle by linarith
  obtain v4 where v4: "same_disk v v4" "read_blocks v i (int R) (int (4096 - off)) (int q) (drop off (C ! q)) =
      Some (True, int (4096 - off) + 4096 * int m, int q + int m,
        drop off (C ! q) @ concat (map (blk v) (take m (drop (Suc q) ?bs))), v4)"
    using read_blocks_eq [OF ok blks, of "int q" "int (4096 - off)" "int R" "drop off (C ! q)", unfolded mm Suc, OF _ le le']
    by (auto simp: Let_def)
  have full: "map (blk v) (take m (drop (Suc q) ?bs)) = take m (drop (Suc q) C)"
    by (simp add: C_def take_map drop_map)
  have count: "int (4096 - off) + 4096 * int m = int R - int r" using R by linarith
  note loop = v4(2) [unfolded full count]
  show ?thesis
  proof (cases "r = 0")
    case True
    have "take R (drop (4096 * q + off) (concat C)) = drop off (C ! q) @ concat (take m (drop (Suc q) C))"
      using slice_blocks [OF len, of q off m] mle off R True by (simp add: C_def)
    then show ?thesis using v4(1) True unfolding read_rest_def loop by auto
  next
    case False
    then have "4096 * (Suc q + m) < 4096 * length ?bs" using fit' by simp
    then have q': "Suc q + m < length ?bs" by (simp only: mult_less_cancel1)
    note blks4 = blks [folded same_disk_blocks [OF v4(1)]]
    have blk2: "find_blk (reg_start i) (reg_len i) 23 (int q + int m + 1) = ?bs ! (Suc q + m)"
      "on_disk v4 (?bs ! (Suc q + m))"
      using find_file_blk [OF blks, of "int q + int m + 1"] q' file_block_ok [OF blks4 q']
      by (simp_all add: nat_add_distrib)
    obtain v5 where v5: "fs2_load_gp_c v4 (?bs ! (Suc q + m)) False = Some v5" "outcome v5 = FS2_SUCCESS"
        "xcache v5 = blk v4 (?bs ! (Suc q + m))" "same_disk v4 v5"
      using load_gp [OF same_disk_ok [OF v4(1)] blk2(2)] by metis
    have "xcache v5 = C ! (Suc q + m)" using v5(3) v4(1) q' by (simp add: same_disk_def C_def)
    moreover have "take R (drop (4096 * q + off) (concat C))
        = drop off (C ! q) @ concat (take m (drop (Suc q) C)) @ take r (C ! (Suc q + m))"
      using slice_rest [OF len, of q m off r] q' off R r_less by (simp add: C_def)
    ultimately show ?thesis
      using False blk2(1) v5(1,2) same_disk_trans [OF v4(1) v5(4)] unfolding read_rest_def loop by simp
  qed
qed

text \<open>What \<open>fs2_read\<close> does once the inode has been fetched.\<close>

lemma fs2_read_inode:
  assumes "fs2_find_file v path = Some (ix, par, v1)" "outcome v1 = FS2_SUCCESS"
    and "fs2_get_iblock_c v1 (ix div 32) False False = Some v2" "outcome v2 = FS2_SUCCESS"
    and "icache v2 ! unat (ix mod 32) = i" "ftype i = FS2_FTYPE_FILE" "sint (eof i - cursor) > 0"
    and "find_blk (reg_start i) (reg_len i) 23 (int q) = a" "a \<noteq> 0"
    and "fs2_load_gp_c v2 a False = Some v3" "outcome v3 = FS2_SUCCESS"
    and "(if n < word_of_int (sint (eof i - cursor)) then sint n else sint (eof i - cursor)) = int R"
    and "unat (cursor mod 0x1000) = off" "uint (cursor div 0x1000) = int q" "off < 4096"
  shows "fs2_read v path n cursor =
    (if R \<le> 4096 - off then Some (int R, take R (drop off (xcache v3)), v3)
     else read_rest v3 i (int R) (int (4096 - off)) (int q) (take (4096 - off) (drop off (xcache v3))))"
proof -
  have pos: "\<not> sint (eof i - cursor) \<le> 0" using assms(7) by simp
  have "fs2_read v path n cursor =
     (let r1 = (if int R > 0x1000 - int off then 0x1000 - int off else int R);
          o1 = take (nat r1) (drop off (xcache v3))
      in if r1 = int R then Some (r1, o1, v3) else read_rest v3 i (int R) r1 (int q) o1)"
    by (simp only: fs2_read_def assms Let_def pos no_permission_check Option.bind_lunit prod.case if_False
        simp_thms read_rest_def)
  moreover have "int (4096 - off) = 4096 - int off" "R \<le> 4096 - off \<longleftrightarrow> int R \<le> 4096 - int off"
    using assms(15) by (simp_all add: of_nat_diff) linarith
  ultimately show ?thesis by (auto simp: Let_def nat_diff_distrib)
qed

lemma fs2_read_bytes:
  fixes n cursor :: u32
  assumes find: "fs2_find_file v path = Some (ix, par, v1)" "outcome v1 = FS2_SUCCESS"
    and fs: "fs_ok v1" "has_inode v1 ix i" "ftype i = FS2_FTYPE_FILE"
    and blks: "blocks_ok v1 i (unat (eof i))"
    and small: "unat (eof i) < 2 ^ 31" "unat cursor < 2 ^ 31"
  defines "out \<equiv> take (unat n) (drop (unat cursor) (file_bytes v1 i))"
  shows "\<exists>w. fs2_read v path n cursor = Some (int (length out), out, w) \<and> same_disk v1 w"
proof -
  obtain v2 where v2: "fs2_get_iblock_c v1 (ix div 32) False False = Some v2" "outcome v2 = FS2_SUCCESS"
      "icache v2 ! unat (ix mod 32) = i" "same_disk v1 v2"
    using load_inode [OF fs(1,2)] by metis
  note blks2 = blks [folded same_disk_blocks [OF v2(4)]]
  let ?bs = "file_blocks i" and ?C = "map (blk v1) (file_blocks i)"
  note len = length_blocks [OF fs(1) blks] and max = sint_diff_small [OF small]
  show ?thesis
  proof (cases "unat (eof i) \<le> unat cursor")
    case True
    then have "sint (eof i - cursor) \<le> 0" unfolding max by linarith
    then have "fs2_read v path n cursor = Some (0, [], v2)"
      using find v2(1-3) fs(3) by (simp add: fs2_read_def no_permission_check Let_def)
    then show ?thesis using True v2(4) by (simp add: out_def file_bytes_def)
  next
    case False
    define q off where "q = unat cursor div 4096" and "off = unat cursor mod 4096"
    define R where "R = min (unat n) (unat (eof i) - unat cursor)"
    have c: "unat cursor = 4096 * q + off" and off: "off < 4096" "off \<le> 4096" by (simp_all add: q_def off_def)
    have "unat (eof i) \<le> 4096 * length ?bs" using blks by (simp add: blocks_ok_def)
    then have fit: "4096 * q + off + R \<le> 4096 * length ?bs" and "4096 * q < 4096 * length ?bs"
      using False c by (simp_all add: R_def)
    then have q: "q < length ?bs" by simp
    have out: "out = take R (drop (4096 * q + off) (concat ?C))"
      unfolding out_def file_bytes_def R_def c by (simp add: drop_take min.commute)
    have "length (concat ?C) = 4096 * length ?bs"
      using length_concat_map [where enc = "blk v1" and xs = ?bs and w = 4096] len by simp
    then have olen: "length out = R" using fit unfolding out by simp
    have blk: "find_blk (reg_start i) (reg_len i) 23 (int q) = ?bs ! q" "?bs ! q \<noteq> 0" "on_disk v2 (?bs ! q)"
      using find_file_blk [OF blks2, of "int q"] file_block_ok [OF blks2 q] q by simp_all
    obtain v3 where v3: "fs2_load_gp_c v2 (?bs ! q) False = Some v3" "outcome v3 = FS2_SUCCESS"
        "xcache v3 = blk v2 (?bs ! q)" "same_disk v2 v3"
      using load_gp [OF same_disk_ok [OF v2(4)] blk(3)] by metis
    note d3 = same_disk_trans [OF v2(4) v3(4)]
    have x3: "xcache v3 = ?C ! q" "length (?C ! q) = 4096" and C3: "map (blk v3) ?bs = ?C"
      using v3(3) v2(4) d3 q len by (simp_all add: same_disk_def)
    have rc: "(if n < word_of_int (sint (eof i - cursor)) then sint n else sint (eof i - cursor)) = int R"
      unfolding R_def using False by (intro read_count [OF small(1)]) simp
    have pos: "sint (eof i - cursor) > 0" unfolding max using False by linarith
    have "unat (cursor mod 0x1000) = off" "uint (cursor div 0x1000) = int q"
      by (simp_all add: q_def off_def unat_mod unat_div uint_div zdiv_int)
    note read = fs2_read_inode [OF find v2(1-3) fs(3) pos blk(1,2) v3(1,2) rc this off(1), unfolded x3]
    show ?thesis
    proof (cases "R \<le> 4096 - off")
      case True
      have "out = take R (drop off (?C ! q))"
        unfolding out using slice_within [OF len, of q off R] True q off by simp
      then show ?thesis using d3 True olen read by auto
    next
      case far: False
      have "\<exists>w. read_rest v3 i (int R) (int (4096 - off)) (int q) (drop off (?C ! q)) = Some (int R, out, w) \<and> same_disk v3 w"
        unfolding out C3 [symmetric] using fit far off
        by (intro read_rest_eq [OF same_disk_ok [OF d3] blks [folded same_disk_blocks [OF d3]]]) simp_all
      then show ?thesis using far olen x3(2) off read same_disk_trans [OF d3] by auto
    qed
  qed
qed

end
