(* ===== verification/Fs2_Paths.thy ===== *)
theory Fs2_Paths
  imports Fs2_Read
begin

text \<open>
  The search of a directory and the resolution of paths against their references, and a small volume
  with one file on which the properties of reading and searching are exercised.
\<close>

section \<open>Searching a directory\<close>

definition dir_entries :: "fs2_volume \<Rightarrow> fs2_inode \<Rightarrow> fs2_dir_entry list" where
  "dir_entries v d = concat (map (\<lambda>a. dblock_of_bytes (blk v a)) (file_blocks d))"

text \<open>The entries the search of the code looks at: those of all blocks but the last.\<close>

definition searched :: "fs2_volume \<Rightarrow> fs2_inode \<Rightarrow> fs2_dir_entry list" where
  "searched v d = take (min (unat (eof d)) (128 * (length (file_blocks d) - 1))) (dir_entries v d)"

definition dir_ok :: "fs2_volume \<Rightarrow> fs2_inode \<Rightarrow> bool" where
  "dir_ok v d \<longleftrightarrow> ftype d = FS2_FTYPE_DIR \<and> blocks_ok v d (32 * unat (eof d))
     \<and> (\<forall>k < 23. reg_start d ! k \<noteq> 0 \<longrightarrow> reg_len d ! k \<noteq> 0)"

text \<open>The blocks still ahead of position \<open>j\<close> of region \<open>i\<close>.\<close>

definition ahead :: "fs2_inode \<Rightarrow> nat \<Rightarrow> nat \<Rightarrow> u32 list" where
  "ahead d i j = (if i < 23 \<and> reg_start d ! i \<noteq> 0
     then drop j (region_addrs (reg_start d ! i, reg_len d ! i))
          @ region_blocks (drop (Suc i) (zip (reg_start d) (reg_len d)))
     else [])"

lemma region_blocks_ahead:
  assumes "wf_inode d"
  shows "region_blocks (drop i (zip (reg_start d) (reg_len d))) = ahead d i 0"
proof (cases "i < 23")
  case True
  then have "i < length (zip (reg_start d) (reg_len d))" using assms by (simp add: wf_inode_def)
  moreover from this have "zip (reg_start d) (reg_len d) ! i = (reg_start d ! i, reg_len d ! i)" by simp
  ultimately show ?thesis
    using True used_regions_drop [of i "zip (reg_start d) (reg_len d)"]
    by (simp add: ahead_def region_blocks_def)
next
  case False
  then show ?thesis using assms by (simp add: ahead_def wf_inode_def region_blocks_def used_regions_def)
qed

lemma ahead_start: "wf_inode d \<Longrightarrow> ahead d 0 0 = file_blocks d"
  using region_blocks_ahead [of d 0] by (simp add: file_blocks_def)

lemma length_region_addrs [simp]: "length (region_addrs (s, l)) = unat l"
  by (simp add: region_addrs_def)

text \<open>Stepping to the next block.\<close>

lemma ahead_step:
  assumes d: "wf_inode d" and ij: "i < 23" "reg_start d ! i \<noteq> 0" "j < unat (reg_len d ! i)"
  shows "ahead d i j = (reg_start d ! i + word_of_nat j)
    # (if Suc j = unat (reg_len d ! i) then ahead d (Suc i) 0 else ahead d i (Suc j))"
proof -
  let ?r = "region_addrs (reg_start d ! i, reg_len d ! i)"
  have "drop j ?r = ?r ! j # drop (Suc j) ?r" using ij by (simp add: Cons_nth_drop_Suc)
  moreover have "?r ! j = reg_start d ! i + word_of_nat j" using ij by (simp add: region_addrs_def)
  ultimately show ?thesis
    using ij region_blocks_ahead [OF d, of "Suc i"] by (simp add: ahead_def)
qed

lemma ahead_Nil_iff:
  assumes "dir_ok v d"
  shows "ahead d i 0 = [] \<longleftrightarrow> i \<ge> 23 \<or> reg_start d ! i = 0"
proof -
  have "i < 23 \<Longrightarrow> reg_start d ! i \<noteq> 0 \<Longrightarrow> unat (reg_len d ! i) \<noteq> 0"
    using assms by (simp add: dir_ok_def unat_eq_0)
  then have "i < 23 \<Longrightarrow> reg_start d ! i \<noteq> 0 \<Longrightarrow> region_addrs (reg_start d ! i, reg_len d ! i) \<noteq> []"
    using length_region_addrs [of "reg_start d ! i" "reg_len d ! i"] by force
  then show ?thesis by (auto simp: ahead_def)
qed

lemma same_disk_dir: "same_disk v w \<Longrightarrow> dir_ok w = dir_ok v \<and> dir_entries w = dir_entries v \<and> searched w = searched v"
proof -
  assume s: "same_disk v w"
  then have "blk w = blk v" by (simp add: same_disk_def)
  then show ?thesis
    by (auto simp: dir_ok_def same_disk_blocks [OF s] dir_entries_def searched_def fun_eq_iff)
qed

lemma find_next_dblock_ahead:
  assumes v: "fs_ok v" and d: "dir_ok v d"
    and ij: "i < 23" "reg_start d ! i \<noteq> 0" "unat j < unat (reg_len d ! i)"
    and b: "ahead d i (unat j) = b # bs" and b': "on_disk v b"
  shows "\<exists>w. same_disk v w \<and> dcache w = dblock_of_bytes (blk v b) \<and>
    (if bs = [] then find_next_dblock v d i j = Some (Inl (w\<lparr>outcome := FS2_NO_FILE\<rparr>))
     else \<exists>i' j'. find_next_dblock v d i j = Some (Inr (i', j', w)) \<and> ahead d i' (unat j') = bs
        \<and> i' < 23 \<and> reg_start d ! i' \<noteq> 0 \<and> unat j' < unat (reg_len d ! i'))"
proof -
  have wf: "wf_inode d" using d by (simp add: dir_ok_def blocks_ok_def)
  note step = ahead_step [OF wf ij]
  have b_eq: "b = reg_start d ! i + j" using step b by simp
  obtain w where w: "fs2_load_dblock_c v b False = Some w" "outcome w = FS2_SUCCESS"
      "dcache w = dblock_of_bytes (blk v b)" "same_disk v w"
    using load_dblock [OF v b'] by metis
  have j1: "unat (j + 1) = Suc (unat j)"
    using ij(3) unat_u8_less [of "reg_len d ! i"] by (intro trans [OF unat_add_no_wrap]) simp_all
  then have "j + 1 = ucast (reg_len d ! i) \<longleftrightarrow> Suc (unat j) = unat (reg_len d ! i)"
    by (metis unat_ucast_u8 unsigned_word_eqI)
  then have next_eq: "find_next_dblock v d i j =
     (let (i', j') = (if Suc (unat j) = unat (reg_len d ! i) then (Suc i, 0) else (i, j + 1))
      in if i' = 23 \<or> reg_start d ! i' = 0 then Some (Inl (w\<lparr>outcome := FS2_NO_FILE\<rparr>))
         else Some (Inr (i', j', w)))"
    using ij w(1,2) by (simp add: find_next_dblock_def b_eq)
  show ?thesis
  proof (cases "Suc (unat j) = unat (reg_len d ! i)")
    case True
    then have bs: "bs = ahead d (Suc i) 0" using step b by simp
    then have nil: "bs = [] \<longleftrightarrow> Suc i = 23 \<or> reg_start d ! Suc i = 0"
      using ahead_Nil_iff [OF d, of "Suc i"] ij by auto
    have "Suc i \<noteq> 23 \<Longrightarrow> reg_start d ! Suc i \<noteq> 0 \<Longrightarrow> 0 < unat (reg_len d ! Suc i)"
      using d ij by (simp add: dir_ok_def unat_gt_0)
    then show ?thesis using True w nil bs ij next_eq by (intro exI [of _ w]) auto
  next
    case False
    then have "bs = ahead d i (unat (j + 1))" "unat (j + 1) < unat (reg_len d ! i)"
      using step b j1 ij(3) by simp_all
    moreover from this have "bs \<noteq> []" using ij by (simp add: ahead_def)
    ultimately show ?thesis using False w ij next_eq by (intro exI [of _ w]) auto
  qed
qed

lemma nth_concat_blocks:
  assumes "\<forall>x \<in> set xs. length x = w" "k < w * length xs" "0 < w"
  shows "concat xs ! k = xs ! (k div w) ! (k mod w)"
proof -
  have q: "k div w < length xs" using assms by (simp add: less_mult_imp_div_less mult.commute)
  have "concat xs ! k = drop (w * (k div w) + k mod w) (concat xs) ! 0"
    using length_concat_map [where enc = "\<lambda>x. x" and xs = xs and w = w] assms by simp
  also have "\<dots> = (drop (k mod w) (xs ! (k div w)) @ concat (drop (Suc (k div w)) xs)) ! 0"
    using assms q by (subst drop_concat_rest) (simp_all add: less_imp_le)
  also have "\<dots> = xs ! (k div w) ! (k mod w)"
    using assms q by (simp add: nth_append)
  finally show ?thesis .
qed

lemma length_dblock_of_bytes [simp]: "length (dblock_of_bytes bs) = 128"
  by (simp add: dblock_of_bytes_def length_array_of_bytes)

lemma length_dir_entries: "length (dir_entries v d) = 128 * length (file_blocks d)"
  using length_concat_map [where enc = "\<lambda>a. dblock_of_bytes (blk v a)" and xs = "file_blocks d" and w = 128]
  by (simp add: dir_entries_def)

lemma dir_ok_eof: "dir_ok v d \<Longrightarrow> unat (eof d) \<le> 128 * length (file_blocks d)"
  by (simp add: dir_ok_def blocks_ok_def)

lemma nth_searched:
  assumes "dir_ok v d" "k < length (searched v d)"
  shows "searched v d ! k = dblock_of_bytes (blk v (file_blocks d ! (k div 128))) ! (k mod 128)"
proof -
  have k: "k < 128 * length (file_blocks d)"
    using assms by (simp add: searched_def length_dir_entries) linarith
  then have "k div 128 < length (file_blocks d)" by (simp add: less_mult_imp_div_less mult.commute)
  then show ?thesis
    using k nth_concat_blocks [of "map (\<lambda>a. dblock_of_bytes (blk v a)) (file_blocks d)" 128 k] assms(2)
    by (simp add: searched_def dir_entries_def)
qed

text \<open>
  The position of the search before entry \<open>k\<close>: the regions ahead start at the block of entry \<open>k\<close>, or
  at the one after it when that block is already in the cache.
\<close>

definition at_entry :: "fs2_volume \<Rightarrow> fs2_inode \<Rightarrow> nat \<Rightarrow> bool \<Rightarrow> nat \<Rightarrow> u32 \<Rightarrow> bool" where
  "at_entry v d k loaded i j \<longleftrightarrow>
     (let bs = file_blocks d; p = (if loaded then Suc (k div 128) else k div 128)
      in p < length bs \<and> ahead d i (unat j) = drop p bs
         \<and> i < 23 \<and> reg_start d ! i \<noteq> 0 \<and> unat j < unat (reg_len d ! i)
         \<and> (loaded \<longrightarrow> dcache v = dblock_of_bytes (blk v (bs ! (k div 128)))))"

lemma at_entry_Suc:
  assumes "at_entry v d k True i j"
  shows "at_entry v d (Suc k) (Suc k mod 128 \<noteq> 0) i j"
proof -
  have "Suc k div 128 = (if Suc k mod 128 = 0 then Suc (k div 128) else k div 128)"
    by (simp add: div_Suc mod_Suc)
  then show ?thesis using assms by (auto simp: at_entry_def Let_def)
qed

lemma at_entry_searched:
  assumes "dir_ok v d" "at_entry v d k True i j" "k < unat (eof d)"
  shows "k < length (searched v d)" "dcache v ! (k mod 128) = searched v d ! k"
proof -
  have "Suc (k div 128) < length (file_blocks d)" using assms(2) by (simp add: at_entry_def Let_def)
  then have "128 * (k div 128) + 128 \<le> 128 * (length (file_blocks d) - 1)" by simp
  moreover have "k = 128 * (k div 128) + k mod 128" "k mod 128 < 128" by simp_all
  ultimately have "k < 128 * (length (file_blocks d) - 1)" by linarith
  then show k: "k < length (searched v d)"
    using assms(3) by (simp add: searched_def length_dir_entries)
  show "dcache v ! (k mod 128) = searched v d ! k"
    using nth_searched [OF assms(1) k] assms(2) by (simp add: at_entry_def Let_def)
qed

text \<open>Loading the next block of the directory, where there is another one after it.\<close>

lemma find_next_dblock_entry:
  assumes v: "fs_ok v" and d: "dir_ok v d" and at: "at_entry v d k False i j"
  shows "\<exists>w. same_disk v w \<and>
    (if Suc (k div 128) = length (file_blocks d)
     then find_next_dblock v d i j = Some (Inl (w\<lparr>outcome := FS2_NO_FILE\<rparr>))
     else \<exists>i' j'. find_next_dblock v d i j = Some (Inr (i', j', w)) \<and> at_entry w d k True i' j')"
proof -
  let ?bs = "file_blocks d"
  have q: "k div 128 < length ?bs" and ij: "i < 23" "reg_start d ! i \<noteq> 0" "unat j < unat (reg_len d ! i)"
    and a: "ahead d i (unat j) = ?bs ! (k div 128) # drop (Suc (k div 128)) ?bs"
    using at by (auto simp: at_entry_def Let_def Cons_nth_drop_Suc)
  have b: "on_disk v (?bs ! (k div 128))" using d q by (auto simp: dir_ok_def blocks_ok_def)
  obtain w where w: "same_disk v w" "dcache w = dblock_of_bytes (blk v (?bs ! (k div 128)))"
    and next': "if drop (Suc (k div 128)) ?bs = [] then find_next_dblock v d i j = Some (Inl (w\<lparr>outcome := FS2_NO_FILE\<rparr>))
     else \<exists>i' j'. find_next_dblock v d i j = Some (Inr (i', j', w)) \<and> ahead d i' (unat j') = drop (Suc (k div 128)) ?bs
        \<and> i' < 23 \<and> reg_start d ! i' \<noteq> 0 \<and> unat j' < unat (reg_len d ! i')"
    using find_next_dblock_ahead [OF v d ij a b] by blast
  have "blk w = blk v" using w(1) by (simp add: same_disk_def)
  then show ?thesis using w next' q by (intro exI [of _ w]) (auto simp: at_entry_def Let_def)
qed

definition find_result :: "fs2_dir_entry option \<Rightarrow> fs2_volume \<Rightarrow> u32 \<times> fs2_volume" where
  "find_result r w = (case r of
       Some e \<Rightarrow> (inode_index e, w\<lparr>outcome := FS2_SUCCESS\<rparr>)
     | None \<Rightarrow> (-1, w\<lparr>outcome := FS2_NO_FILE\<rparr>))"

lemma find_in_dir_loop_eq:
  assumes "fs_ok v" "dir_ok v d" "unat k < unat (eof d) \<Longrightarrow> at_entry v d (unat k) (unat k mod 128 \<noteq> 0) i j"
  shows "\<exists>w. same_disk v w \<and> find_in_dir_loop v d nm n k i j
    = Some (find_result (find (\<lambda>e. strncmp_eq n (name e) nm) (drop (unat k) (searched v d))) w)"
  using assms
proof (induction v d nm n k i j rule: find_in_dir_loop.induct)
  case (1 v d nm n k i j)
  note ok = 1(2) and d = 1(3) and at = 1(4)
  show ?case
  proof (cases "k < eof d")
    case False
    then have "length (searched v d) \<le> unat k"
      by (simp add: searched_def word_less_nat_alt length_dir_entries)
    moreover have "find_in_dir_loop v d nm n k i j = Some (-1, v\<lparr>outcome := FS2_NO_FILE\<rparr>)"
      using False by (subst find_in_dir_loop.simps) (simp only: if_False)
    ultimately show ?thesis using same_disk_refl [OF ok] by (auto simp: find_result_def)
  next
    case True
    then have k: "unat k < unat (eof d)" by (simp add: word_less_nat_alt)
    note at = at [OF k]
    have mod0: "k mod 128 = 0 \<longleftrightarrow> unat k mod 128 = 0" "unat (k mod 128) = unat k mod 128"
      by (simp_all add: unat_mod flip: unat_eq_0)
    let ?r = "if k mod 128 = 0 then find_next_dblock v d i j else Some (Inr (i, j, v))"
    have "\<exists>w. same_disk v w \<and> (?r = Some (Inl (w\<lparr>outcome := FS2_NO_FILE\<rparr>)) \<and> length (searched v d) \<le> unat k
      \<or> (\<exists>i' j'. ?r = Some (Inr (i', j', w)) \<and> at_entry w d (unat k) True i' j'))"
    proof (cases "unat k mod 128 = 0")
      case True
      then have "at_entry v d (unat k) False i j" using at by simp
      from find_next_dblock_entry [OF ok d this] obtain w where w: "same_disk v w"
        "if Suc (unat k div 128) = length (file_blocks d)
         then find_next_dblock v d i j = Some (Inl (w\<lparr>outcome := FS2_NO_FILE\<rparr>))
         else \<exists>i' j'. find_next_dblock v d i j = Some (Inr (i', j', w)) \<and> at_entry w d (unat k) True i' j'"
        by blast
      moreover have "Suc (unat k div 128) = length (file_blocks d) \<Longrightarrow> length (searched v d) \<le> unat k"
        using True by (simp add: searched_def length_dir_entries)
      ultimately show ?thesis using True mod0
        by (intro exI [of _ w]) (auto split: if_splits)
    next
      case False
      then show ?thesis using at mod0 same_disk_refl [OF ok] by (intro exI [of _ v]) auto
    qed
    then obtain w where w: "same_disk v w" and
      r: "?r = Some (Inl (w\<lparr>outcome := FS2_NO_FILE\<rparr>)) \<and> length (searched v d) \<le> unat k
        \<or> (\<exists>i' j'. ?r = Some (Inr (i', j', w)) \<and> at_entry w d (unat k) True i' j')" by blast
    have dw: "fs_ok w" "dir_ok w d" "searched w = searched v"
      using same_disk_ok [OF w] same_disk_dir [OF w] d by simp_all
    from r show ?thesis
    proof
      assume r: "?r = Some (Inl (w\<lparr>outcome := FS2_NO_FILE\<rparr>)) \<and> length (searched v d) \<le> unat k"
      then have "find_in_dir_loop v d nm n k i j = Some (-1, w\<lparr>outcome := FS2_NO_FILE\<rparr>)"
        using True by (subst find_in_dir_loop.simps) (simp only: if_True Option.bind_lunit sum.case)
      then show ?thesis using r w by (auto simp: find_result_def)
    next
      assume "\<exists>i' j'. ?r = Some (Inr (i', j', w)) \<and> at_entry w d (unat k) True i' j'"
      then obtain i' j' where r: "?r = Some (Inr (i', j', w))" and at: "at_entry w d (unat k) True i' j'" by blast
      note s = at_entry_searched [OF dw(2) at k, unfolded dw(3)]
      let ?e = "dcache w ! unat (k mod 128)"
      have e: "?e = searched v d ! unat k" using s(2) mod0 by simp
      have drop: "drop (unat k) (searched v d) = ?e # drop (Suc (unat k)) (searched v d)"
        unfolding e using s(1) by (simp add: Cons_nth_drop_Suc)
      have step: "find_in_dir_loop v d nm n k i j =
         (if strncmp_eq n (name ?e) nm then Some (inode_index ?e, w\<lparr>outcome := FS2_SUCCESS\<rparr>)
          else find_in_dir_loop w d nm n (k + 1) i' j')"
        using True r by (subst find_in_dir_loop.simps)
          (simp only: if_True Option.bind_lunit sum.case prod.case Let_def)
      show ?thesis
      proof (cases "strncmp_eq n (name ?e) nm")
        case True
        then show ?thesis using step drop w by (auto simp: find_result_def)
      next
        case nm: False
        have k1: "unat (k + 1) = Suc (unat k)" using True by (rule unat_plus_one_less)
        have "\<exists>u. same_disk w u \<and> find_in_dir_loop w d nm n (k + 1) i' j'
          = Some (find_result (find (\<lambda>e. strncmp_eq n (name e) nm) (drop (unat (k + 1)) (searched w d))) u)"
          using at_entry_Suc [OF at] k1 by (intro 1(1) [OF True r refl refl refl refl nm] dw) simp
        then show ?thesis
          using step drop nm same_disk_trans [OF w] unfolding k1 dw(3) by auto
      qed
    qed
  qed
qed

lemma find_in_dir_eq:
  assumes "fs_ok v" "has_inode v ix d" "dir_ok v d"
  shows "\<exists>w. same_disk v w \<and> fs2_find_in_dir_r v ix nm n
    = Some (find_result (find (\<lambda>e. strncmp_eq n (name e) nm) (searched v d)) w)"
proof -
  obtain u where u: "fs2_get_iblock_c v (ix div 32) False False = Some u" "outcome u = FS2_SUCCESS"
      "icache u ! unat (ix mod 32) = d" "same_disk v u"
    using load_inode [OF assms(1,2)] by metis
  have du: "fs_ok u" "dir_ok u d" "searched u = searched v"
    using same_disk_ok [OF u(4)] same_disk_dir [OF u(4)] assms(3) by simp_all
  have wf: "wf_inode d" using assms(3) by (simp add: dir_ok_def blocks_ok_def)
  have at: "at_entry u d 0 False 0 0" if "0 < unat (eof d)"
  proof -
    have ne: "file_blocks d \<noteq> []" using that dir_ok_eof [OF assms(3)] by auto
    then have "ahead d 0 0 \<noteq> []" using ahead_start [OF wf] by simp
    then have "reg_start d ! 0 \<noteq> 0" using ahead_Nil_iff [OF assms(3), of 0] by simp
    moreover from this have "0 < unat (reg_len d ! 0)" using assms(3) by (simp add: dir_ok_def unat_gt_0)
    ultimately show ?thesis using ne ahead_start [OF wf] by (simp add: at_entry_def Let_def)
  qed
  obtain w where "same_disk u w" "find_in_dir_loop u d nm n 0 0 0
      = Some (find_result (find (\<lambda>e. strncmp_eq n (name e) nm) (searched v d)) w)"
    using find_in_dir_loop_eq [OF du(1,2), of 0 0 0 nm n] at du(3) by auto
  then show ?thesis
    using u assms(3) same_disk_trans [OF u(4)]
    by (auto simp: fs2_find_in_dir_r_def dir_ok_def Let_def)
qed

section \<open>Paths\<close>

text \<open>
  The reference: a path is a list of components, followed from a directory; the comparison of a
  component with the name of an entry stops at the component's length.
\<close>

definition inode_no :: "fs2_volume \<Rightarrow> u32 \<Rightarrow> fs2_inode" where
  "inode_no v ix = iblock_of_bytes (blk v (iblocks v ! unat (ix div 32))) ! unat (ix mod 32)"

definition is_dir :: "fs2_volume \<Rightarrow> u32 \<Rightarrow> bool" where
  "is_dir v ix \<longleftrightarrow> has_inode v ix (inode_no v ix) \<and> dir_ok v (inode_no v ix)"

definition lookup :: "fs2_volume \<Rightarrow> u32 \<Rightarrow> byte list \<Rightarrow> u32 option" where
  "lookup v ix s = map_option inode_index
     (find (\<lambda>e. take (length s) (name e) = s) (searched v (inode_no v ix)))"

fun resolve :: "fs2_volume \<Rightarrow> u32 \<Rightarrow> byte list list \<Rightarrow> (u32 \<times> u32) option" where
  "resolve v dir [] = None"
| "resolve v dir [s] = map_option (\<lambda>ix. (ix, dir)) (lookup v dir s)"
| "resolve v dir (s # t # ss) =
     (case lookup v dir s of None \<Rightarrow> None | Some ix \<Rightarrow> resolve v ix (t # ss))"

text \<open>Every directory on the way is one, and no entry has the number the code uses for errors.\<close>

fun dirs_ok :: "fs2_volume \<Rightarrow> u32 \<Rightarrow> byte list list \<Rightarrow> bool" where
  "dirs_ok v dir [] = True"
| "dirs_ok v dir (s # ss) = (is_dir v dir \<and>
     (case lookup v dir s of None \<Rightarrow> True | Some ix \<Rightarrow> ix \<noteq> -1 \<and> dirs_ok v ix ss \<or> ss = [] \<and> ix \<noteq> -1))"

definition component :: "byte list \<Rightarrow> bool" where
  "component s \<longleftrightarrow> s \<noteq> [] \<and> length s \<le> 28 \<and> slash \<notin> set s \<and> cstring s"

fun join_path :: "byte list list \<Rightarrow> byte list" where
  "join_path [] = []"
| "join_path [s] = s"
| "join_path (s # t # ss) = s @ slash # join_path (t # ss)"

lemma same_disk_lookup:
  assumes "same_disk v w"
  shows "lookup w = lookup v" "is_dir w = is_dir v" "resolve w = resolve v" "dirs_ok w = dirs_ok v"
proof -
  have i: "inode_no w = inode_no v"
    using assms by (simp add: fun_eq_iff inode_no_def iblocks_def same_disk_def)
  show l: "lookup w = lookup v" "is_dir w = is_dir v"
    using same_disk_dir [OF assms] same_disk_inode [OF assms] i
    by (simp_all add: fun_eq_iff lookup_def is_dir_def)
  show "resolve w = resolve v"
  proof (intro ext)
    fix dir ss show "resolve w dir ss = resolve v dir ss"
      by (induction ss arbitrary: dir rule: induct_list012) (auto simp: l split: option.split)
  qed
  show "dirs_ok w = dirs_ok v"
  proof (intro ext)
    fix dir ss show "dirs_ok w dir ss = dirs_ok v dir ss"
      by (induction ss arbitrary: dir) (auto simp: l split: option.split)
  qed
qed

lemma searched_names: "is_dir v ix \<Longrightarrow> e \<in> set (searched v (inode_no v ix)) \<Longrightarrow> fs_ok v \<Longrightarrow> length (name e) = 28"
proof -
  assume d: "is_dir v ix" and e: "e \<in> set (searched v (inode_no v ix))" and ok: "fs_ok v"
  let ?d = "inode_no v ix"
  obtain a where a: "a \<in> set (file_blocks ?d)" "e \<in> set (dblock_of_bytes (blk v a))"
    using e in_set_takeD by (fastforce simp: searched_def dir_entries_def)
  then have "length (blk v a) = 4096"
    using d ok by (auto simp: is_dir_def dir_ok_def blocks_ok_def fs_ok_def)
  then show ?thesis using a(2) wf_dblock_of_bytes [of "blk v a"] by (auto simp: wf_dblock_def wf_entry_def)
qed

text \<open>One component, as the code asks for it: the array compared with is the rest of the path.\<close>

lemma find_component:
  assumes ok: "fs_ok v" and d: "is_dir v dir" and s: "component s"
  shows "\<exists>w. same_disk v w \<and> fs2_find_in_dir_r v dir (cstr (s @ rest)) (length s)
    = Some (case lookup v dir s of Some ix \<Rightarrow> (ix, w\<lparr>outcome := FS2_SUCCESS\<rparr>)
                                 | None \<Rightarrow> (-1, w\<lparr>outcome := FS2_NO_FILE\<rparr>))"
proof -
  let ?es = "searched v (inode_no v dir)"
  have "strncmp_eq (length s) (name e) (cstr (s @ rest)) = (take (length s) (name e) = s)"
    if "e \<in> set ?es" for e
    using strncmp_eq_prefix [of s "name e" "rest @ [0]"] searched_names [OF d that ok] s
    by (simp add: component_def cstr_def)
  then have "find (\<lambda>e. strncmp_eq (length s) (name e) (cstr (s @ rest))) ?es
      = find (\<lambda>e. take (length s) (name e) = s) ?es"
    by (intro find_cong) auto
  then show ?thesis
    using find_in_dir_eq [OF ok, of dir "inode_no v dir" "cstr (s @ rest)" "length s"] d
    by (auto simp: is_dir_def find_result_def lookup_def split: option.split)
qed

lemma find_file_loop_eq:
  assumes "fs_ok v" "ss \<noteq> []" "\<forall>s \<in> set ss. component s" "dirs_ok v dir ss"
  shows "\<exists>w. same_disk v w \<and> find_file_loop v dir (join_path ss)
    = Some (case resolve v dir ss of
              Some (ix, p) \<Rightarrow> (ix, Some p, w\<lparr>outcome := FS2_SUCCESS\<rparr>)
            | None \<Rightarrow> (-1, None, w\<lparr>outcome := FS2_NO_FILE\<rparr>))"
  using assms
proof (induction ss arbitrary: v dir rule: induct_list012)
  case 1
  then show ?case by simp
next
  case (2 s)
  have s: "takeWhile (\<lambda>c. c \<noteq> slash) s = s" "dropWhile (\<lambda>c. c \<noteq> slash) s = []"
    using 2(3) by (auto simp: component_def takeWhile_eq_all_conv dropWhile_eq_Nil_conv)
  obtain w where w: "same_disk v w" "fs2_find_in_dir_r v dir (cstr s) (length s)
    = Some (case lookup v dir s of Some ix \<Rightarrow> (ix, w\<lparr>outcome := FS2_SUCCESS\<rparr>)
                                 | None \<Rightarrow> (-1, w\<lparr>outcome := FS2_NO_FILE\<rparr>))"
    using find_component [OF 2(1), of dir s "[]"] 2 by auto
  then show ?case
    using 2(3,4) by (subst find_file_loop.simps)
      (auto simp: s component_def Let_def split: option.splits intro!: exI [of _ w])
next
  case (3 s t ss)
  let ?p = "join_path (t # ss)"
  have s: "takeWhile (\<lambda>c. c \<noteq> slash) (s @ slash # ?p) = s"
    "dropWhile (\<lambda>c. c \<noteq> slash) (s @ slash # ?p) = slash # ?p" "component s" "length s \<le> 28"
    using 3(5) by (auto simp: component_def takeWhile_append dropWhile_append)
  have p: "dropWhile (\<lambda>c. c = slash) ?p = ?p"
    using 3(5) by (cases ss; cases t) (auto simp: component_def)
  obtain w where w: "same_disk v w" "fs2_find_in_dir_r v dir (cstr (s @ slash # ?p)) (length s)
    = Some (case lookup v dir s of Some ix \<Rightarrow> (ix, w\<lparr>outcome := FS2_SUCCESS\<rparr>)
                                 | None \<Rightarrow> (-1, w\<lparr>outcome := FS2_NO_FILE\<rparr>))"
    using find_component [OF 3(3) _ s(3), of dir "slash # ?p"] 3(6) by auto
  show ?case
  proof (cases "lookup v dir s")
    case None
    then show ?thesis using w s(4) by (subst join_path.simps, subst find_file_loop.simps) (auto simp: s(1,2) Let_def)
  next
    case (Some ix)
    let ?w = "w\<lparr>outcome := FS2_SUCCESS\<rparr>"
    have same: "same_disk v ?w" using w(1) by simp
    have ix: "ix \<noteq> -1" "dirs_ok v ix (t # ss)" using 3(6) Some by auto
    have "find_file_loop v dir (s @ slash # ?p) = find_file_loop ?w ix ?p"
      using w(2) s(4) Some ix(1) by (subst find_file_loop.simps) (simp add: s(1,2) p Let_def)
    moreover obtain u where "same_disk ?w u" "find_file_loop ?w ix ?p
      = Some (case resolve v ix (t # ss) of Some (ix, p) \<Rightarrow> (ix, Some p, u\<lparr>outcome := FS2_SUCCESS\<rparr>)
            | None \<Rightarrow> (-1, None, u\<lparr>outcome := FS2_NO_FILE\<rparr>))"
      using 3(2) [of ?w ix] same_disk_ok [OF same] ix(2) 3(5) same_disk_lookup [OF same] by auto
    ultimately show ?thesis using Some same_disk_trans [OF same] by auto
  qed
qed

lemma find_file_eq:
  assumes "fs_ok v" "ss \<noteq> []" "\<forall>s \<in> set ss. component s" "dirs_ok v 0 ss"
  shows "\<exists>w. same_disk v w \<and> fs2_find_file v (join_path ss)
    = Some (case resolve v 0 ss of
              Some (ix, p) \<Rightarrow> (ix, Some p, w\<lparr>outcome := FS2_SUCCESS\<rparr>)
            | None \<Rightarrow> (-1, None, w\<lparr>outcome := FS2_NO_FILE\<rparr>))"
proof -
  have "has_inode v 0 (inode_no v 0)" using assms(2,4) by (cases ss) (auto simp: is_dir_def)
  from load_inode [OF assms(1) this, of False] obtain u where
    u: "fs2_get_iblock_c v 0 False False = Some u" "same_disk v u" by auto
  have "join_path ss \<noteq> []"
    using assms(2,3) by (cases ss rule: join_path.cases) (auto simp: component_def)
  moreover obtain w where "same_disk u w" "find_file_loop u 0 (join_path ss)
    = Some (case resolve u 0 ss of
              Some (ix, p) \<Rightarrow> (ix, Some p, w\<lparr>outcome := FS2_SUCCESS\<rparr>)
            | None \<Rightarrow> (-1, None, w\<lparr>outcome := FS2_NO_FILE\<rparr>))"
    using find_file_loop_eq [OF same_disk_ok [OF u(2)] assms(2,3)] assms(4) same_disk_lookup [OF u(2)] by auto
  ultimately show ?thesis
    using u same_disk_trans [OF u(2)] same_disk_lookup(3) [OF u(2)]
    by (intro exI [of _ w]) (simp add: fs2_find_file_def)
qed

section \<open>The tree of the volume\<close>

text \<open>
  What the comments of the code promise: an entry is found if it exists.  A directory holds all the
  entries up to its end, in whatever block they lie, and an entry has the name that its array holds as a
  string; a path is followed by these names.
\<close>

definition entry_name :: "fs2_dir_entry \<Rightarrow> byte list" where
  "entry_name e = takeWhile (\<lambda>c. c \<noteq> 0) (name e)"

definition dir_files :: "fs2_volume \<Rightarrow> u32 \<Rightarrow> fs2_dir_entry list" where
  "dir_files v ix = take (unat (eof (inode_no v ix))) (dir_entries v (inode_no v ix))"

definition child :: "fs2_volume \<Rightarrow> u32 \<Rightarrow> byte list \<Rightarrow> u32 option" where
  "child v ix s = map_option inode_index (find (\<lambda>e. entry_name e = s) (dir_files v ix))"

fun walk :: "fs2_volume \<Rightarrow> u32 \<Rightarrow> byte list list \<Rightarrow> (u32 \<times> u32) option" where
  "walk v dir [] = None"
| "walk v dir [s] = map_option (\<lambda>ix. (ix, dir)) (child v dir s)"
| "walk v dir (s # t # ss) = (case child v dir s of None \<Rightarrow> None | Some ix \<Rightarrow> walk v ix (t # ss))"

text \<open>
  Where the search of the code agrees with that: the last block of the directory holds no entry yet, and
  no entry before the one named \<open>s\<close> (no entry at all, if none has this name) has a name that starts
  with \<open>s\<close>.
\<close>

definition tidy :: "fs2_volume \<Rightarrow> u32 \<Rightarrow> byte list \<Rightarrow> bool" where
  "tidy v ix s \<longleftrightarrow> unat (eof (inode_no v ix)) \<le> 128 * (length (file_blocks (inode_no v ix)) - 1)
     \<and> (\<forall>e \<in> set (takeWhile (\<lambda>e. entry_name e \<noteq> s) (dir_files v ix)). take (length s) (name e) \<noteq> s)"

text \<open>Every directory on the way is one, is tidy, and has no entry with the number the code uses for errors.\<close>

fun tidy_path :: "fs2_volume \<Rightarrow> u32 \<Rightarrow> byte list list \<Rightarrow> bool" where
  "tidy_path v dir [] = True"
| "tidy_path v dir (s # ss) = (is_dir v dir \<and> tidy v dir s \<and>
     (case child v dir s of None \<Rightarrow> True | Some ix \<Rightarrow> ix \<noteq> -1 \<and> (ss = [] \<or> tidy_path v ix ss)))"

lemma find_before:
  assumes "\<And>e. e \<in> set es \<Longrightarrow> Q e \<Longrightarrow> P e" "\<forall>e \<in> set (takeWhile (\<lambda>e. \<not> Q e) es). \<not> P e"
  shows "find P es = find Q es"
  using assms by (induction es) (auto split: if_splits)

lemma lookup_child:
  assumes "tidy v ix s"
  shows "lookup v ix s = child v ix s"
proof -
  have es: "searched v (inode_no v ix) = dir_files v ix"
    using assms by (simp add: searched_def dir_files_def tidy_def)
  have "take (length s) (name e) = s" if "entry_name e = s" for e
    using that takeWhile_eq_take [of "\<lambda>c. c \<noteq> 0" "name e"] by (metis entry_name_def)
  then have "find (\<lambda>e. take (length s) (name e) = s) (dir_files v ix) = find (\<lambda>e. entry_name e = s) (dir_files v ix)"
    using assms by (intro find_before) (simp_all add: tidy_def)
  then show ?thesis by (simp add: lookup_def child_def es)
qed

lemma tidy_path_resolve: "tidy_path v dir ss \<Longrightarrow> dirs_ok v dir ss \<and> resolve v dir ss = walk v dir ss"
  by (induction ss arbitrary: dir rule: induct_list012) (auto simp: lookup_child split: option.splits)

section \<open>A volume with one file\<close>

definition log_name :: "byte list" where "log_name = [0x6C, 0x6F, 0x67]"

definition dir_inode :: fs2_inode where
  "dir_inode = zero_inode\<lparr>fperm := 3, eof := 3, reg_start := 5 # replicate 22 0, reg_len := 2 # replicate 22 0\<rparr>"

definition log_inode :: fs2_inode where
  "log_inode = zero_inode\<lparr>ftype := FS2_FTYPE_FILE, fperm := 3, eof := 5000, reg_start := 7 # replicate 22 0,
     reg_len := 2 # replicate 22 0\<rparr>"

definition log_dblock :: fs2_dblock where
  "log_dblock = [zero_entry\<lparr>name := strncpy 28 [0x2E]\<rparr>, zero_entry\<lparr>name := strncpy 28 [0x2E, 0x2E]\<rparr>,
     \<lparr>inode_index = 1, name = strncpy 28 log_name\<rparr>] @ replicate 125 zero_entry"

definition log_iblock :: fs2_iblock where
  "log_iblock = [dir_inode, log_inode] @ replicate 30 zero_inode"

definition log_hblock :: fs2_hblock where
  "log_hblock = boot_hblock\<lparr>next_block := 9, next_inode := 2, h_reg_start := 1 # replicate 799 0,
     h_reg_len := 4 # replicate 799 0\<rparr>"

definition log_vol :: fs2_volume where
  "log_vol = put_blk 8 (replicate 4096 0x42) (put_blk 7 (replicate 4096 0x41)
     (put_blk 5 (dblock_bytes log_dblock) (put_blk 1 (iblock_bytes log_iblock)
       (boot_vol\<lparr>hblock := log_hblock, icindex := -1, dcaddr := -1, xcaddr := -1\<rparr>))))"

lemma log_wf: "wf_inode dir_inode" "wf_inode log_inode" "wf_dblock log_dblock" "wf_iblock log_iblock" "wf_hblock log_hblock"
  by (auto simp: wf_inode_def dir_inode_def log_inode_def zero_inode_def wf_dblock_def wf_entry_def log_dblock_def
      wf_iblock_def log_iblock_def zero_entry_def wf_hblock_def log_hblock_def boot_hblock_def fresh_hblock_def
      zero_decoded length_cwfs_ident)

lemma log_on_disk [simp]: "on_disk log_vol a \<longleftrightarrow> unat a < 100"
  using boot_vol_blocks(1) [of a] by (simp add: log_vol_def)

lemma log_blk:
  "blk log_vol 8 = replicate 4096 0x42" "blk log_vol 7 = replicate 4096 0x41"
  "blk log_vol 5 = dblock_bytes log_dblock" "blk log_vol 1 = iblock_bytes log_iblock"
  by (simp_all add: log_vol_def blk_put_blk boot_vol_blocks)

lemma log_regions: "iblocks log_vol = [1, 2, 3, 4]"
  by (simp add: iblocks_def iregions_def log_vol_def log_hblock_def boot_hblock_def fresh_hblock_def
      region_blocks_def used_regions_def zip_replicate region_addrs_def upt_rec [of _ 4])

lemma log_files: "file_blocks dir_inode = [5, 6]" "file_blocks log_inode = [7, 8]"
  by (simp_all add: file_blocks_def dir_inode_def log_inode_def region_blocks_def used_regions_def zip_replicate
      region_addrs_def upt_rec [of _ 2])

lemma log_vol_ok: "fs_ok log_vol"
proof -
  have "vol_ok log_vol" "quiet log_vol"
    using log_wf boot_vol_ok by (simp_all add: log_vol_def layout_simps)
  moreover have "unat (separator (hblock log_vol)) \<le> 800" "icindex log_vol = -1" "dcaddr log_vol = -1" "xcaddr log_vol = -1"
    by (simp_all add: log_vol_def log_hblock_def boot_hblock_def fresh_hblock_def)
  ultimately show ?thesis
    by (simp add: fs_ok_def ic_coherent_def log_regions dblk.coherent_def gp.coherent_def unsigned_minus_1_eq_mask mask_eq_exp_minus_1)
qed

lemma log_inodes: "has_inode log_vol 0 dir_inode" "has_inode log_vol 1 log_inode" "inode_no log_vol 0 = dir_inode"
  using log_wf by (simp_all add: has_inode_def inode_no_def log_regions log_blk layout_simps log_iblock_def)

lemma log_inode_sel: "eof dir_inode = 3" "ftype dir_inode = FS2_FTYPE_DIR" "eof log_inode = 5000"
    "ftype log_inode = FS2_FTYPE_FILE"
  by (simp_all add: dir_inode_def log_inode_def zero_inode_def FS2_FTYPE_DIR_def)

lemma log_searched: "searched log_vol dir_inode = take 3 log_dblock"
proof -
  have "length log_dblock = 128" using log_wf by (simp add: wf_dblock_def)
  then show ?thesis
    using log_wf by (simp add: searched_def dir_entries_def log_files log_blk layout_simps log_inode_sel)
qed

lemma log_blocks_ok: "n \<le> 8192 \<Longrightarrow> blocks_ok log_vol dir_inode n" "n \<le> 8192 \<Longrightarrow> blocks_ok log_vol log_inode n"
  using log_wf by (simp_all add: blocks_ok_def log_files)

lemma log_dir: "is_dir log_vol 0"
proof -
  have "reg_start dir_inode ! k \<noteq> 0 \<longrightarrow> reg_len dir_inode ! k \<noteq> 0" if "k < 23" for k
    using that by (cases k) (simp_all add: dir_inode_def)
  then show ?thesis
    using log_inodes by (simp add: is_dir_def dir_ok_def log_blocks_ok log_inode_sel)
qed

lemma log_lookup: "lookup log_vol 0 log_name = Some 1" "component log_name"
proof -
  have d: "strncpy 28 [0x2E] = 0x2E # replicate 27 0" "strncpy 28 [0x2E, 0x2E] = 0x2E # 0x2E # replicate 26 0"
    "strncpy 28 log_name = log_name @ replicate 25 0"
    by (simp_all add: strncpy_def log_name_def)
  have n: "length log_name = 3" "take 3 log_name = log_name" by (simp_all add: log_name_def)
  show "lookup log_vol 0 log_name = Some 1"
    by (simp add: lookup_def log_inodes log_searched log_dblock_def d n) (simp add: log_name_def)
  show "component log_name" by (simp add: component_def log_name_def slash_def cstring_def)
qed

lemma log_names: "strncpy 28 [0x2E] = 0x2E # replicate 27 0" "strncpy 28 [0x2E, 0x2E] = 0x2E # 0x2E # replicate 26 0"
    "strncpy 28 log_name = log_name @ replicate 25 0"
  by (simp_all add: strncpy_def log_name_def)

section \<open>Properties\<close>

text \<open>
  C18: Searching a directory.  \<open>fs2_find_in_dir_r\<close> is a linear search: it returns the inode number of the
  first entry whose name starts with the \<open>n\<close> characters asked for, among the entries of all blocks of
  the directory but the last, wherever its regions lie, and \<open>FS2_NO_FILE\<close> if there is none; it changes
  nothing on the disk and keeps the caches in agreement with it.
\<close>

theorem dir_search_reference:
  assumes "fs_ok v" "has_inode v ix d" "dir_ok v d"
  shows "\<exists>w. same_disk v w \<and> fs2_find_in_dir_r v ix nm n =
    Some (case find (\<lambda>e. strncmp_eq n (name e) nm)
            (take (min (unat (eof d)) (128 * (length (file_blocks d) - 1))) (dir_entries v d)) of
            Some e \<Rightarrow> (inode_index e, w\<lparr>outcome := FS2_SUCCESS\<rparr>)
          | None \<Rightarrow> (-1, w\<lparr>outcome := FS2_NO_FILE\<rparr>))"
  using find_in_dir_eq [OF assms] by (simp add: find_result_def searched_def)

lemma dir_search_reference_witness:
  "\<exists>w. fs2_find_in_dir_r log_vol 0 (cstr log_name) 3 = Some (1, w\<lparr>outcome := FS2_SUCCESS\<rparr>)"
proof -
  have d: "dir_ok log_vol dir_inode" using log_dir log_inodes by (simp add: is_dir_def)
  have n: "length log_name = 3" "take 3 log_name = log_name" by (simp_all add: log_name_def)
  have "strncmp_eq 3 a (cstr log_name) = (take 3 a = log_name)" if "length a = 28" for a
    using strncmp_eq_prefix [of log_name a "[0]"] log_lookup(2) that by (simp add: component_def n cstr_def)
  then have "find (\<lambda>e. strncmp_eq 3 (name e) (cstr log_name)) (take 3 log_dblock)
      = Some \<lparr>inode_index = 1, name = strncpy 28 log_name\<rparr>"
    by (simp add: log_dblock_def log_names n) (simp add: log_name_def)
  moreover have "take (min (unat (eof dir_inode)) (128 * (length (file_blocks dir_inode) - 1)))
      (dir_entries log_vol dir_inode) = take 3 log_dblock"
    using log_searched by (simp add: searched_def)
  ultimately show ?thesis
    using dir_search_reference [OF log_vol_ok log_inodes(1) d, of "cstr log_name" 3] by auto
qed

text \<open>
  The last block of a directory is never searched.  The end-of-directory check runs right after
  a block is loaded and gives up when there is no block after it: in a directory of one block every
  search fails, even for \<open>"."\<close>, and a file whose entry lies in the last block cannot be found.
\<close>

lemma one_block_directory_finds_nothing:
  assumes "fs_ok v" "has_inode v ix d" "dir_ok v d" "length (file_blocks d) = 1"
  shows "\<exists>w. same_disk v w \<and> fs2_find_in_dir_r v ix nm n = Some (-1, w\<lparr>outcome := FS2_NO_FILE\<rparr>)"
  using find_in_dir_eq [OF assms(1-3), of nm n] assms(4) by (simp add: find_result_def searched_def)

definition small_dir :: fs2_inode where
  "small_dir = dir_inode\<lparr>reg_len := 1 # replicate 22 0\<rparr>"

definition small_vol :: fs2_volume where
  "small_vol = put_blk 1 (iblock_bytes (log_iblock[0 := small_dir])) log_vol"

lemma one_block_directory_finds_nothing_witness:
  "\<exists>w. fs2_find_in_dir_r small_vol 0 (cstr [0x2E]) 1 = Some (-1, w\<lparr>outcome := FS2_NO_FILE\<rparr>)"
proof -
  have wf: "wf_inode small_dir" using log_wf(1) by (simp add: small_dir_def wf_inode_def)
  then have wfi: "wf_iblock (log_iblock[0 := small_dir])"
    using log_wf(4) by (auto simp: wf_iblock_def dest!: set_update_subset_insert [THEN subsetD])
  have sel: "icindex log_vol = -1" "dcaddr log_vol = -1" "xcaddr log_vol = -1" "hblock log_vol = log_hblock"
    by (simp_all add: log_vol_def)
  have i: "iblocks small_vol = iblocks log_vol" by (simp add: iblocks_def small_vol_def)
  have ok: "vol_ok log_vol" "quiet log_vol" using log_vol_ok by (simp_all add: fs_ok_def)
  have "fs_ok small_vol"
    using ok wfi by (simp add: fs_ok_def ic_coherent_def i log_regions dblk.coherent_def gp.coherent_def)
      (simp add: small_vol_def sel layout_simps unsigned_minus_1_eq_mask mask_eq_exp_minus_1 log_hblock_def
        boot_hblock_def fresh_hblock_def)
  moreover have "has_inode small_vol 0 small_dir"
    using wfi by (simp add: has_inode_def i log_regions)
      (simp add: small_vol_def blk_put_blk layout_simps log_iblock_def)
  moreover have b: "file_blocks small_dir = [5]"
    by (simp add: small_dir_def dir_inode_def file_blocks_def region_blocks_def used_regions_def zip_replicate
        region_addrs_def)
  moreover have "reg_start small_dir ! k \<noteq> 0 \<longrightarrow> reg_len small_dir ! k \<noteq> 0" if "k < 23" for k
    using that by (cases k) (simp_all add: small_dir_def dir_inode_def)
  then have "dir_ok small_vol small_dir"
    using wf b log_inode_sel by (simp add: dir_ok_def blocks_ok_def) (simp add: small_dir_def small_vol_def)
  ultimately show ?thesis
    using one_block_directory_finds_nothing [of small_vol 0 small_dir "cstr [0x2E]" 1] by auto
qed

text \<open>
  C17: Resolving a path.  For a path of components of at most 28 characters, joined by slashes,
  \<open>fs2_find_file\<close> follows the directories of the volume from the root by the names of their entries: it
  returns the number of the last inode and of its parent directory, or \<open>FS2_NO_FILE\<close> if the component
  does not exist.  This needs directories that are tidy, because the search of the code stops before the
  last block of a directory and compares only as many characters as the component has: in every
  directory on the way the last block holds no entry, and no entry before the one looked for (no entry
  at all, if there is none) has a name that starts with the component.
\<close>

theorem path_resolution:
  assumes "fs_ok v" "ss \<noteq> []" "\<forall>s \<in> set ss. component s" "tidy_path v 0 ss"
  shows "\<exists>w. same_disk v w \<and> fs2_find_file v (join_path ss)
    = Some (case walk v 0 ss of
              Some (ix, p) \<Rightarrow> (ix, Some p, w\<lparr>outcome := FS2_SUCCESS\<rparr>)
            | None \<Rightarrow> (-1, None, w\<lparr>outcome := FS2_NO_FILE\<rparr>))"
  using find_file_eq [OF assms(1-3)] tidy_path_resolve [OF assms(4)] by simp

lemma log_entry_names:
  "entry_name (zero_entry\<lparr>name := strncpy 28 [0x2E]\<rparr>) = [0x2E]"
  "entry_name (zero_entry\<lparr>name := strncpy 28 [0x2E, 0x2E]\<rparr>) = [0x2E, 0x2E]"
  "entry_name \<lparr>inode_index = 1, name = strncpy 28 log_name\<rparr> = log_name"
  by (simp_all add: entry_name_def log_names takeWhile_replicate) (simp add: log_name_def)

lemma path_resolution_witness:
  "(\<exists>w. fs2_find_file log_vol log_name = Some (1, Some 0, w\<lparr>outcome := FS2_SUCCESS\<rparr>))
   \<and> (\<exists>w. fs2_find_file log_vol [0x78] = Some (-1, None, w\<lparr>outcome := FS2_NO_FILE\<rparr>))"
proof -
  have f: "dir_files log_vol 0 = take 3 log_dblock"
    using log_searched by (simp add: dir_files_def searched_def log_inodes log_inode_sel log_files)
  have n: "length log_name = 3" "[0x2E] \<noteq> log_name" "[0x2E, 0x2E] \<noteq> log_name" "log_name \<noteq> [0x78]" "hd log_name = 0x6C"
    by (simp_all add: log_name_def)
  have c: "child log_vol 0 log_name = Some 1" "child log_vol 0 [0x78] = None"
    by (simp_all add: child_def f log_dblock_def log_entry_names n)
  have "tidy log_vol 0 log_name" "tidy log_vol 0 [0x78]"
    by (simp_all add: tidy_def f log_dblock_def log_entry_names n log_inodes log_inode_sel log_files)
      (simp_all add: log_names, simp_all add: log_name_def)
  then have "tidy_path log_vol 0 [log_name]" "tidy_path log_vol 0 [[0x78]]"
    using log_dir c by simp_all
  moreover have "component [0x78]" by (simp add: component_def slash_def cstring_def)
  ultimately show ?thesis
    using path_resolution [OF log_vol_ok, of "[log_name]"] path_resolution [OF log_vol_ok, of "[[0x78]]"] log_lookup(2) c
    by auto
qed

lemma read_path_bytes:
  assumes "fs_ok v" "ss \<noteq> []" "\<forall>s \<in> set ss. component s" "dirs_ok v 0 ss"
    and "resolve v 0 ss = Some (ix, p)" "has_inode v ix i" "ftype i = FS2_FTYPE_FILE"
    and "blocks_ok v i (unat (eof i))" "unat (eof i) < 2 ^ 31" "unat cursor < 2 ^ 31"
  shows "\<exists>w out. fs2_read v (join_path ss) n cursor = Some (int (length out), out, w)
    \<and> out = take (unat n) (drop (unat cursor) (file_bytes v i)) \<and> same_disk v w"
proof -
  obtain u where u: "same_disk v u" "fs2_find_file v (join_path ss) = Some (ix, Some p, u\<lparr>outcome := FS2_SUCCESS\<rparr>)"
    using find_file_eq [OF assms(1-4)] assms(5) by auto
  let ?u = "u\<lparr>outcome := FS2_SUCCESS\<rparr>"
  have s: "same_disk v ?u" using u(1) by simp
  then have "file_bytes ?u i = file_bytes v i" by (simp add: file_bytes_def same_disk_def)
  then show ?thesis
    using fs2_read_bytes [OF u(2) _ same_disk_ok [OF s] _ assms(7) _ assms(9,10), of n]
      assms(6,8) same_disk_inode [OF s] same_disk_blocks [OF s] same_disk_trans [OF s] by auto
qed

text \<open>
  C15: Reading a file.  Reading \<open>n\<close> bytes at offset \<open>cursor\<close> of the file a path leads to returns exactly
  those bytes of its contents (the bytes of its blocks in the order of its regions, up to its end),
  fewer where the file ends, none from its end on, and changes nothing on the disk; this holds for any
  \<open>n\<close> and any offset, within a block or over several blocks and regions.
\<close>

theorem read_file_contents:
  assumes "fs_ok v" "ss \<noteq> []" "\<forall>s \<in> set ss. component s" "dirs_ok v 0 ss"
    and "resolve v 0 ss = Some (ix, p)" "has_inode v ix i" "ftype i = FS2_FTYPE_FILE"
    and "blocks_ok v i (unat (eof i))" "unat (eof i) < 2 ^ 31" "unat cursor < 2 ^ 31"
  shows "\<exists>w out. fs2_read v (join_path ss) n cursor = Some (int (length out), out, w)
    \<and> out = take (unat n) (drop (unat cursor) (file_bytes v i)) \<and> same_disk v w"
  by (rule read_path_bytes [OF assms])

lemma read_file_contents_witness:
  "\<exists>w. fs2_read log_vol log_name 10 4090 = Some (10, replicate 6 0x41 @ replicate 4 0x42, w)"
proof -
  have b: "file_bytes log_vol log_inode = replicate 4096 0x41 @ replicate 904 0x42"
    by (simp add: file_bytes_def log_files log_blk log_inode_sel)
  have t: "take (unat (10 :: u32)) (drop (unat (4090 :: u32)) (file_bytes log_vol log_inode)) = replicate 6 0x41 @ replicate 4 0x42"
    unfolding b by simp
  have r: "resolve log_vol 0 [log_name] = Some (1, 0)" "\<forall>s \<in> set [log_name]. component s" "dirs_ok log_vol 0 [log_name]"
    using log_dir by (simp_all add: log_lookup)
  have i: "blocks_ok log_vol log_inode (unat (eof log_inode))" "unat (eof log_inode) < 2 ^ 31" "unat (4090 :: u32) < 2 ^ 31"
    by (simp_all add: log_blocks_ok log_inode_sel)
  obtain w out where w: "fs2_read log_vol (join_path [log_name]) 10 4090 = Some (int (length out), out, w)"
    and out: "out = take (unat (10 :: u32)) (drop (unat (4090 :: u32)) (file_bytes log_vol log_inode))"
    using read_file_contents [OF log_vol_ok _ r(2,3,1) log_inodes(2) log_inode_sel(4) i, of 10] by blast
  show ?thesis using w unfolding out [unfolded t] by simp
qed

end
