(* ===== verification/Fs2_Listing.thy ===== *)
theory Fs2_Listing
  imports Fs2_Paths
begin

text \<open>
  Listings: \<open>fs2_ls\<close> against the entries a directory denotes, and the bound on what it stores in the
  caller's array.
\<close>

section \<open>The room for a listing\<close>

lemma put_name_bound:
  "put_name cs out n = (ok, out') \<Longrightarrow> int (length out) \<le> n \<Longrightarrow> int (length out') \<le> n + 1 \<and> (ok \<longrightarrow> int (length out') \<le> n)"
  by (induction cs arbitrary: out) (fastforce simp: Let_def split: if_splits)+

lemma ls_loop_bound:
  "ls_loop v d k i j out n = Some (ok, out', w) \<Longrightarrow> int (length out) \<le> n \<Longrightarrow>
   int (length out') \<le> n + 1 \<and> (ok \<longrightarrow> int (length out') \<le> n)"
proof (induction v d k i j out n rule: ls_loop.induct)
  case (1 v d k i j out n)
  show ?case
  proof (cases "k < unat (eof d)")
    case False
    then show ?thesis using "1.prems" by (subst (asm) ls_loop.simps) (auto split: if_splits)
  next
    case True
    then obtain r where r: "(if k mod 128 = 0 then next_dblock v d i j else Some (Inr (i, j, v))) = Some r"
      using "1.prems"(1) by (subst (asm) ls_loop.simps) (auto split: Option.bind_splits)
    show ?thesis
    proof (cases r)
      case (Inl v1)
      then show ?thesis using "1.prems" r True by (subst (asm) ls_loop.simps) auto
    next
      case (Inr x)
      then obtain i1 j1 v1 where x: "r = Inr (i1, j1, v1)" by (cases x) auto
      obtain ok1 out1 where p: "put_name (take 28 (name (dcache v1 ! (k mod 128)))) out n = (ok1, out1)" by fastforce
      note b = put_name_bound [OF p "1.prems"(2)]
      show ?thesis
      proof (cases "ok1 \<and> int (length out1) < n")
        case True
        then have "ls_loop v1 d (Suc k) i1 j1 (out1 @ [0x0A]) n = Some (ok, out', w)"
          using "1.prems"(1) r x p \<open>k < unat (eof d)\<close> by (subst (asm) ls_loop.simps) simp
        then show ?thesis using "1.IH" [OF \<open>k < unat (eof d)\<close> r x refl refl p [symmetric]] True by simp
      next
        case False
        then show ?thesis using "1.prems"(1) r x p b \<open>k < unat (eof d)\<close>
          by (subst (asm) ls_loop.simps) (auto split: if_splits)
      qed
    qed
  qed
qed

lemma next_dblock_ahead:
  assumes v: "fs_ok v" and d: "dir_ok v d" and ij: "ahead d i j = b # bs" "j = 0 \<or> j < unat (reg_len d ! i)" and b: "on_disk v b"
  shows "\<exists>w i' j'. next_dblock v d i j = Some (Inr (i', j', w)) \<and> same_disk v w \<and> dcache w = dblock_of_bytes (blk v b)
    \<and> ahead d i' j' = bs \<and> (j' = 0 \<or> j' < unat (reg_len d ! i'))"
proof -
  have wf: "wf_inode d" using d by (simp add: dir_ok_def blocks_ok_def)
  have i: "i < 23" "reg_start d ! i \<noteq> 0" using ij(1) by (auto simp: ahead_def split: if_splits)
  then have "reg_len d ! i \<noteq> 0" using d by (simp add: dir_ok_def)
  then have len: "j < unat (reg_len d ! i)" using ij(2) by (auto simp: unat_gt_0)
  note step = ahead_step [OF wf i len]
  have b_eq: "b = reg_start d ! i + word_of_nat j" using step ij(1) by simp
  obtain w where w: "fs2_load_dblock_c v b False = Some w" "outcome w = FS2_SUCCESS"
      "dcache w = dblock_of_bytes (blk v b)" "same_disk v w"
    using load_dblock [OF v b] by metis
  have "next_dblock v d i j = Some (Inr (if Suc j = unat (reg_len d ! i) then (Suc i, 0, w) else (i, Suc j, w)))"
    using i w(1,2) \<open>reg_len d ! i \<noteq> 0\<close> len by (simp add: next_dblock_def b_eq [symmetric])
  moreover have "Suc j \<noteq> unat (reg_len d ! i) \<Longrightarrow> Suc j < unat (reg_len d ! i)" using len by simp
  ultimately show ?thesis using step ij(1) w(3,4) by (cases "Suc j = unat (reg_len d ! i)") auto
qed

lemma put_name_room:
  "int (length out + length (c_chars cs)) < n \<Longrightarrow> put_name cs out n = (True, out @ c_chars cs)"
proof (induction cs arbitrary: out)
  case (Cons a cs)
  then show ?case using Cons.IH [of "out @ [a]"] by (cases "a = 0") (simp_all add: c_chars_def Let_def)
qed (simp add: c_chars_def)

text \<open>The lines of a listing.\<close>

definition listing :: "fs2_dir_entry list \<Rightarrow> byte list" where
  "listing es = concat (map (\<lambda>e. c_chars (name e) @ [0x0A]) es)"

lemma listing_Cons: "listing (e # es) = c_chars (name e) @ [0x0A] @ listing es"
  by (simp add: listing_def)

lemma blocks_before:
  fixes k :: nat
  shows "k mod 128 = 0 \<Longrightarrow> (k + 127) div 128 = k div 128" "k mod 128 = 0 \<Longrightarrow> (Suc k + 127) div 128 = Suc (k div 128)"
    "k mod 128 \<noteq> 0 \<Longrightarrow> (Suc k + 127) div 128 = (k + 127) div 128" "Suc k mod 128 \<noteq> 0 \<Longrightarrow> Suc k div 128 = k div 128"
proof -
  define q r where "q = k div 128" and "r = k mod 128"
  have k: "k = 128 * q + r" "r < 128" by (simp_all add: q_def r_def)
  show "(k + 127) div 128 = k div 128" "(Suc k + 127) div 128 = Suc (k div 128)" if "k mod 128 = 0"
    using that k unfolding q_def [symmetric] r_def [symmetric] by (intro div_nat_eqI; simp)+
  show "(Suc k + 127) div 128 = (k + 127) div 128" if "k mod 128 \<noteq> 0"
  proof -
    have "(Suc k + 127) div 128 = Suc q" "(k + 127) div 128 = Suc q"
      using that k unfolding r_def [symmetric] by (intro div_nat_eqI; simp)+
    then show ?thesis by simp
  qed
  show "Suc k div 128 = k div 128" if "Suc k mod 128 \<noteq> 0"
  proof -
    have "r \<noteq> 127" using that k by auto
    then show ?thesis using k unfolding q_def [symmetric] by (intro div_nat_eqI; simp)
  qed
qed

lemma ls_loop_lists:
  assumes "fs_ok v" "dir_ok v d"
    and "ahead d i j = drop ((k + 127) div 128) (file_blocks d)" "j = 0 \<or> j < unat (reg_len d ! i)" "k \<le> unat (eof d)"
    and "k mod 128 \<noteq> 0 \<longrightarrow> dcache v = dblock_of_bytes (blk v (file_blocks d ! (k div 128)))"
    and "int (length out + length (listing (drop k (take (unat (eof d)) (dir_entries v d))))) < n"
  shows "\<exists>w. ls_loop v d k i j out n = Some (True, out @ listing (drop k (take (unat (eof d)) (dir_entries v d))) @ [0], w)
    \<and> same_disk v w"
  using assms
proof (induction "unat (eof d) - k" arbitrary: v i j k out)
  case 0
  then have "k = unat (eof d)" by simp
  then show ?case using 0 same_disk_refl [of v] by (subst ls_loop.simps) (simp add: listing_def)
next
  case (Suc m)
  let ?E = "take (unat (eof d)) (dir_entries v d)" and ?q = "k div 128" and ?fb = "file_blocks d"
  have k: "k < unat (eof d)" using Suc.hyps(2) by simp
  have eof: "unat (eof d) \<le> 128 * length ?fb" by (rule dir_ok_eof [OF Suc.prems(2)])
  then have q: "?q < length ?fb" using k by (simp add: less_mult_imp_div_less mult.commute)
  have on: "on_disk v (?fb ! ?q)" using Suc.prems(2) q by (simp add: dir_ok_def blocks_ok_def)
  obtain w i' j' where w: "(if k mod 128 = 0 then next_dblock v d i j else Some (Inr (i, j, v))) = Some (Inr (i', j', w))"
      "same_disk v w" "dcache w = dblock_of_bytes (blk v (?fb ! ?q))" "ahead d i' j' = drop ((Suc k + 127) div 128) ?fb"
      "j' = 0 \<or> j' < unat (reg_len d ! i')"
  proof (cases "k mod 128 = 0")
    case True
    then have "(k + 127) div 128 = ?q" "(Suc k + 127) div 128 = Suc ?q" by (rule blocks_before; assumption)+
    then have "ahead d i j = ?fb ! ?q # drop ((Suc k + 127) div 128) ?fb"
      using Suc.prems(3) q by (simp add: Cons_nth_drop_Suc)
    from next_dblock_ahead [OF Suc.prems(1,2) this Suc.prems(4) on] show ?thesis using that True by auto
  next
    case False
    then have "(Suc k + 127) div 128 = (k + 127) div 128" by (rule blocks_before)
    then show ?thesis using that [of i j v] False Suc.prems same_disk_refl by auto
  qed
  have len: "length ?E = unat (eof d)" using eof by (simp add: length_dir_entries)
  have e: "dcache w ! (k mod 128) = ?E ! k"
    using k eof q nth_concat_blocks [of "map (\<lambda>a. dblock_of_bytes (blk v a)) ?fb" 128 k] by (simp add: w(3) dir_entries_def)
  have nm: "take 28 (name (?E ! k)) = name (?E ! k)"
  proof -
    have "wf_dblock (dblock_of_bytes (blk v (?fb ! ?q)))"
      using Suc.prems(1) on by (simp add: fs_ok_def layout_simps)
    then have "length (name (dcache w ! (k mod 128))) = 28" by (simp add: w(3) wf_dblock_def wf_entry_def)
    then show ?thesis by (simp only: e take_all order_refl)
  qed
  let ?e = "?E ! k"
  have E: "drop k ?E = ?e # drop (Suc k) ?E" using k len by (simp only: Cons_nth_drop_Suc)
  let ?out = "out @ c_chars (name ?e) @ [0x0A]"
  have p: "put_name (take 28 (name (dcache w ! (k mod 128)))) out n = (True, out @ c_chars (name ?e))"
    using put_name_room [of out "name ?e" n] Suc.prems(7) e nm unfolding E listing_Cons by simp
  have loop: "ls_loop v d k i j out n = ls_loop w d (Suc k) i' j' ?out n"
    using w(1) k p Suc.prems(7) unfolding E listing_Cons by (subst ls_loop.simps) simp
  have w': "fs_ok w" "dir_ok w d" "dir_entries w d = dir_entries v d" "blk w = blk v"
    using same_disk_ok [OF w(2)] same_disk_dir [OF w(2)] Suc.prems(2) w(2) by (simp_all add: same_disk_def)
  have "Suc k mod 128 \<noteq> 0 \<Longrightarrow> Suc k div 128 = ?q" by (rule blocks_before)
  then have "\<exists>x. ls_loop w d (Suc k) i' j' ?out n = Some (True, ?out @ listing (drop (Suc k) ?E) @ [0], x) \<and> same_disk w x"
    using Suc.hyps(1) [of "Suc k" w i' j' ?out] Suc.hyps(2) w w' k Suc.prems(7) unfolding E listing_Cons by simp
  then show ?case unfolding loop E listing_Cons using same_disk_trans [OF w(2)] by auto
qed

text \<open>
  C20: The room of a listing.  \<open>fs2_ls\<close> with room for \<open>n\<close> characters stores at most \<open>n\<close> of them when it
  succeeds, but possibly one more when it fails: after a line feed that fills the room it stores the
  first character of the next name before it looks.
\<close>

theorem ls_output_bound:
  assumes "fs2_ls v path n = Some (ok, out, w)" "0 \<le> n"
  shows "int (length out) \<le> n + 1 \<and> (ok \<longrightarrow> int (length out) \<le> n)"
  using assms by (auto simp: fs2_ls_def dest!: ls_loop_bound [where out = "[]", simplified] split: Option.bind_splits if_splits)

lemma put_name_zeros [simp]: "put_name (replicate m 0) out n = (True, out)"
  by (cases m) simp_all

lemma log_root_cached:
  obtains u where "fs2_get_iblock_c (log_vol\<lparr>outcome := FS2_SUCCESS\<rparr>) 0 False False = Some u" "outcome u = FS2_SUCCESS"
    "icache u ! 0 = dir_inode" "same_disk log_vol u"
proof -
  have s: "same_disk log_vol (log_vol\<lparr>outcome := FS2_SUCCESS\<rparr>)" using same_disk_refl [OF log_vol_ok] by simp
  have "has_inode (log_vol\<lparr>outcome := FS2_SUCCESS\<rparr>) 0 dir_inode" using same_disk_inode [OF s] log_inodes(1) by simp
  from load_inode [OF same_disk_ok [OF s] this, of False] show ?thesis
    using that same_disk_trans [OF s] by auto
qed

lemma ls_output_bound_witness:
  "\<exists>w. fs2_ls log_vol [] 2 = Some (False, [0x2E, 0x0A, 0x2E], w) \<and> int (length [0x2E, 0x0A, 0x2E :: byte]) \<le> 2 + 1"
proof -
  obtain u where u: "fs2_get_iblock_c (log_vol\<lparr>outcome := FS2_SUCCESS\<rparr>) 0 False False = Some u" "outcome u = FS2_SUCCESS"
      "icache u ! 0 = dir_inode" "same_disk log_vol u"
    by (rule log_root_cached)
  have d: "dir_ok u dir_inode" "ahead dir_inode 0 0 = 5 # [6]" "on_disk u 5" "blk u = blk log_vol"
    using same_disk_dir [OF u(4)] log_dir log_inodes log_wf(1) ahead_start log_files u(4)
    by (simp_all add: is_dir_def same_disk_def)
  obtain w i j where w: "next_dblock u dir_inode 0 0 = Some (Inr (i, j, w))" "dcache w = dblock_of_bytes (blk u 5)"
    using next_dblock_ahead [OF same_disk_ok [OF u(4)] d(1,2) _ d(3)] by auto
  have c: "dcache w = log_dblock" using w(2) log_wf by (simp add: d(4) log_blk layout_simps)
  have "put_name (take 28 (name (dcache w ! 0))) [] 2 = (True, [0x2E])"
    "put_name (take 28 (name (dcache w ! 1))) [0x2E, 0x0A] 2 = (False, [0x2E, 0x0A, 0x2E])"
    by (simp_all add: c log_dblock_def log_names)
  then have "ls_loop u dir_inode 0 0 0 [] 2 = Some (False, [0x2E, 0x0A, 0x2E], w)"
    using w(1) by (subst ls_loop.simps, subst ls_loop.simps) (simp add: log_inode_sel)
  then have ls: "fs2_ls log_vol [] 2 = Some (False, [0x2E, 0x0A, 0x2E], w)"
    using u by (simp add: fs2_ls_def fs2_find_file_def)
  show ?thesis using ls_output_bound [OF ls] ls by auto
qed

text \<open>
  C19: Listing a directory.  With room for all of it, \<open>fs2_ls\<close> stores the names of the entries of the
  directory, each followed by a line feed, in order over all its blocks and regions, and a NUL, and
  changes nothing on the disk.
\<close>

theorem ls_lists_directory:
  assumes v: "fs_ok v" "\<forall>s \<in> set ss. component s" "dirs_ok v 0 ss"
    and ix: "ss = [] \<and> ix = 0 \<or> (\<exists>p. resolve v 0 ss = Some (ix, p))" "has_inode v ix d" "dir_ok v d"
    and n: "int (length (listing (take (unat (eof d)) (dir_entries v d)))) < n"
  shows "\<exists>w. fs2_ls v (join_path ss) n = Some (True, listing (take (unat (eof d)) (dir_entries v d)) @ [0], w) \<and> same_disk v w"
proof -
  obtain u q where u: "fs2_find_file v (join_path ss) = Some (ix, q, u\<lparr>outcome := FS2_SUCCESS\<rparr>)" "same_disk v u"
  proof (cases "ss = []")
    case True
    then show ?thesis using that [of None v] ix(1) same_disk_refl [OF v(1)] by (auto simp: fs2_find_file_def)
  next
    case False
    then show ?thesis using that find_file_eq [OF v(1) _ v(2,3)] ix(1) by auto
  qed
  let ?u = "u\<lparr>outcome := FS2_SUCCESS\<rparr>"
  have s: "same_disk v ?u" using u(2) by simp
  then have "has_inode ?u ix d" using same_disk_inode ix(2) by simp
  then obtain x where x: "fs2_get_iblock_c ?u (ix div 32) False False = Some x" "outcome x = FS2_SUCCESS"
      "icache x ! unat (ix mod 32) = d" "same_disk ?u x"
    using load_inode [OF same_disk_ok [OF s]] by metis
  have sx: "same_disk v x" by (rule same_disk_trans [OF s x(4)])
  then have d: "fs_ok x" "dir_ok x d" "dir_entries x d = dir_entries v d"
    using same_disk_ok same_disk_dir [OF sx] ix(3) by auto
  have "wf_inode d" using ix(3) by (simp add: dir_ok_def blocks_ok_def)
  then have "\<exists>w. ls_loop x d 0 0 0 [] n = Some (True, listing (take (unat (eof d)) (dir_entries v d)) @ [0], w) \<and> same_disk x w"
    using ls_loop_lists [OF d(1,2), of 0 0 0 "[]" n] ahead_start n by (simp add: d(3))
  then show ?thesis using u(1) x same_disk_trans [OF sx] by (auto simp: fs2_ls_def)
qed

lemma ls_lists_directory_witness:
  "\<exists>w. fs2_ls log_vol [] 100 = Some (True, [0x2E, 0x0A, 0x2E, 0x2E, 0x0A, 0x6C, 0x6F, 0x67, 0x0A, 0], w)"
proof -
  have "unat (eof dir_inode) \<le> 128 * (length (file_blocks dir_inode) - 1)" by (simp add: log_inode_sel log_files)
  then have "take (unat (eof dir_inode)) (dir_entries log_vol dir_inode) = take 3 log_dblock"
    using log_searched by (simp add: searched_def min_def)
  then have l: "listing (take (unat (eof dir_inode)) (dir_entries log_vol dir_inode))
      = [0x2E, 0x0A, 0x2E, 0x2E, 0x0A, 0x6C, 0x6F, 0x67, 0x0A]"
    by (simp add: log_dblock_def log_names listing_def c_chars_def) (simp add: log_name_def)
  show ?thesis
    using ls_lists_directory [OF log_vol_ok, of "[]" 0 dir_inode 100] log_inodes(1,3) log_dir unfolding l
    by (auto simp: is_dir_def)
qed

end
