(* ===== verification/Fs2_Write.thy ===== *)
theory Fs2_Write
  imports Fs2_Paths
begin

text \<open>
  Writing to a file: what a write that stays within the blocks of the file, and ends in its first block
  or the one after it, leaves in the file and on the disk.
\<close>

section \<open>Stores\<close>

lemma blk_upd [simp]:
  "blk (v\<lparr>icache := c\<rparr>) = blk v" "on_disk (v\<lparr>icache := c\<rparr>) = on_disk v" "quiet (v\<lparr>icache := c\<rparr>) = quiet v"
  by (simp_all add: fun_eq_iff blk_def on_disk_def quiet_def)

text \<open>A partial change of the block in the cache, written back.\<close>

lemma store_gp:
  assumes "vol_ok v" "quiet v" "on_disk v (xcaddr v)" "length bs = 4096"
  obtains w where "fs2_save_gp_c (v\<lparr>xcache := bs\<rparr>) = Some w" "outcome w = FS2_SUCCESS" "vol_ok w" "quiet w"
    "on_disk w = on_disk v" "hblock w = hblock v" "icaddr w = icaddr v" "icache w = icache v"
    "\<And>b. on_disk v b \<Longrightarrow> blk w b = (if b = xcaddr v then bs else blk v b)"
proof -
  let ?v = "v\<lparr>xcache := bs\<rparr>"
  let ?w = "(put_blk (xcaddr v) bs ?v)\<lparr>outcome := FS2_SUCCESS\<rparr>"
  have v: "vol_ok ?v" "quiet ?v" "on_disk ?v = on_disk v" "blk ?v = blk v"
    using assms by (simp_all add: gp.change_frame)
  have "fs2_save_gp_c ?v = Some ?w" using gp.save_writes [of ?v] assms v by simp
  moreover have "on_disk ?w = on_disk v" using v(3) by (simp add: fun_eq_iff)
  moreover have "blk ?w b = (if b = xcaddr v then bs else blk v b)" if "on_disk v b" for b
    using that v(3,4) by (auto simp: blk_put_blk)
  ultimately show ?thesis using that [of ?w] v assms(4) by simp
qed

lemma finish_write_ok:
  fixes c :: u32 and n :: int
  assumes "vol_ok v" "quiet v" "on_disk v (icaddr v)" "x < 32"
    and bs: "bs = iblock_bytes ((icache v)[x := (icache v ! x)\<lparr>eof := c + word_of_int n\<rparr>])"
  obtains w where "finish_write v x c n = Some (n, w)" "on_disk w = on_disk v" "hblock w = hblock v"
    "\<And>b. on_disk v b \<Longrightarrow> blk w b = (if b = icaddr v then bs else blk v b)"
proof -
  let ?ic = "(icache v)[x := (icache v ! x)\<lparr>eof := c + word_of_int n\<rparr>]"
  let ?v = "v\<lparr>icache := ?ic\<rparr>"
  let ?w = "(put_blk (icaddr v) bs ?v)\<lparr>outcome := FS2_SUCCESS\<rparr>"
  have ic: "wf_iblock (icache v)" using assms(1) by (simp add: vol_ok_def)
  then have "wf_inode (icache v ! x)" using assms(4) by (simp add: wf_iblock_def)
  then have "wf_inode ((icache v ! x)\<lparr>eof := c + word_of_int n\<rparr>)" by (simp add: wf_inode_def)
  then have "wf_iblock ?ic"
    using ic assms(4) set_update_subset_insert [of "icache v" x] by (fastforce simp: wf_iblock_def)
  then have v: "vol_ok ?v" "length bs = 4096" using assms(1) bs by (simp_all add: vol_ok_def layout_simps)
  then have "fs2_save_iblock_c ?v = Some ?w"
    using assms(2,3) bs by (simp add: fs2_save_iblock_c_def fs2_wblk_ok set_outcome_def)
  then have "finish_write v x c n = Some (n, ?w)" by (simp add: finish_write_def upd_inode_def)
  moreover have "blk ?w b = (if b = icaddr v then bs else blk v b)" if "on_disk v b" for b
    using that by (auto simp: blk_put_blk)
  ultimately show ?thesis using that [of ?w] by (simp add: fun_eq_iff)
qed

section \<open>The contents after a write\<close>

lemma all_updated: "\<forall>x \<in> set xs. P x \<Longrightarrow> P y \<Longrightarrow> \<forall>x \<in> set (xs[q := y]). P x"
  using set_update_subset_insert [of xs q y] by blast

lemma contents_within:
  assumes "\<forall>x \<in> set xs. length x = w" "q < length xs" "length new = w" "off + n \<le> w"
    and "take (off + n) new = take off (xs ! q) @ bs"
  shows "take (w * q + (off + n)) (concat (xs[q := new])) = take (w * q + off) (concat xs) @ bs"
proof -
  have "take (w * q + (off + n)) (concat (xs[q := new])) = concat (take q xs) @ take (off + n) new"
    using take_concat_rest [OF all_updated [OF assms(1,3)], of q q "off + n"] assms(2,4) by simp
  moreover have "take (w * q + off) (concat xs) = concat (take q xs) @ take off (xs ! q)"
    using take_concat_rest [OF assms(1,2), of off] assms(4) by simp
  ultimately show ?thesis using assms(5) by simp
qed

text \<open>The next block starts with \<open>cs\<close>.\<close>

lemma contents_across:
  assumes "\<forall>x \<in> set xs. length x = w" "Suc q < length xs" "length new1 = w" "length new2 = w" "off \<le> w" "m \<le> w"
    and "new1 = take off (xs ! q) @ bs" "take m new2 = cs"
  shows "take (w * Suc q + m) (concat (xs[q := new1, Suc q := new2])) = take (w * q + off) (concat xs) @ bs @ cs"
proof -
  have "take (w * Suc q + (0 + m)) (concat (xs[q := new1, Suc q := new2])) = take (w * Suc q + 0) (concat (xs[q := new1])) @ cs"
    using assms by (intro contents_within all_updated) simp_all
  moreover have "take (w * q + (off + (w - off))) (concat (xs[q := new1])) = take (w * q + off) (concat xs) @ bs"
    using assms by (intro contents_within) simp_all
  moreover have "w * q + (off + (w - off)) = w * Suc q" using assms(5) by simp
  ultimately show ?thesis by simp
qed

section \<open>The write\<close>

text \<open>What follows the first block: the full blocks, the rest, and the end of the file.\<close>

definition write_rest :: "fs2_volume \<Rightarrow> nat \<Rightarrow> byte list \<Rightarrow> int \<Rightarrow> int \<Rightarrow> int \<Rightarrow> u32 \<Rightarrow> (int \<times> fs2_volume) option" where
  "write_rest vol x src n write1 blkind cursor = do {
     (go, wcount, blkind2, vol7) \<leftarrow> write_blocks vol x src n write1 blkind;
     if \<not> go then finish_write vol7 x cursor wcount
     else if wcount = n then finish_write vol7 x cursor wcount
     else do {
       (ok2, blk2, vol8) \<leftarrow> block_or_grow vol7 x (blkind2 + 1) (default_freg_len (hblock vol7));
       if \<not> ok2 then finish_write vol8 x cursor wcount
       else do {
         vol9 \<leftarrow> fs2_load_gp_c vol8 blk2 True;
         let m = nat (n - wcount);
         let vol10 = vol9\<lparr>xcache := take m src @ drop m (xcache vol9)\<rparr>;
         vol11 \<leftarrow> fs2_save_gp_c vol10;
         finish_write vol11 x cursor (if outcome vol11 = FS2_SUCCESS then n else wcount)
       }
     }
   }"

text \<open>Once the file has been found and its inode loaded, the first block of the write is stored.\<close>

lemma fs2_write_first:
  fixes n cursor :: u32
  assumes find: "fs2_find_file v path = Some (ix, par, v1)" "outcome v1 = FS2_SUCCESS"
    and v2: "fs2_get_iblock_c v1 (ix div 32) False False = Some v2" "outcome v2 = FS2_SUCCESS" "fs_ok v2"
      "icache v2 ! unat (ix mod 32) = i" "ftype i = FS2_FTYPE_FILE"
    and blks: "blocks_ok v2 i k" "q < length (file_blocks i)" and c: "unat cursor = 4096 * q + off" "off < 4096"
    and n: "unat n \<le> length src" "unat n < 2 ^ 31" "n1 = min (unat n) (4096 - off)"
    and a: "a = file_blocks i ! q" "new = take off (blk v2 a) @ take n1 src @ drop (off + n1) (blk v2 a)"
  obtains v6 where "fs2_write v path src n cursor = write_rest v6 (unat (ix mod 32)) src (uint n) (int n1) (int q) cursor"
    "vol_ok v6" "quiet v6" "on_disk v6 = on_disk v2" "hblock v6 = hblock v2" "icaddr v6 = icaddr v2" "icache v6 = icache v2"
    "\<And>b. on_disk v2 b \<Longrightarrow> blk v6 b = (if b = a then new else blk v2 b)" "length new = 4096"
proof -
  have od: "on_disk v2 a" "a \<noteq> 0" using file_block_ok [OF blks] a(1) by simp_all
  obtain v4 where v4: "fs2_load_gp_c v2 a False = Some v4" "outcome v4 = FS2_SUCCESS" "xcache v4 = blk v2 a"
      "xcaddr v4 = a" "icache v4 = icache v2" "same_disk v2 v4"
    using load_gp [OF v2(3) od(1)] by metis
  have s: "vol_ok v4" "quiet v4" "on_disk v4 = on_disk v2" "hblock v4 = hblock v2" "blk v4 = blk v2" "icaddr v4 = icaddr v2"
    using v4(6) load_gp_frame [OF v4(1)] by (simp_all add: same_disk_def fs_ok_def)
  have old: "length (blk v2 a) = 4096" using v2(3) od(1) by (simp add: fs_ok_def)
  have "n1 \<le> length src" using n by simp
  then have len: "length new = 4096" using old c(2) n(3) by (simp add: a(2))
  obtain v6 where v6: "fs2_save_gp_c (v4\<lparr>xcache := new\<rparr>) = Some v6" "outcome v6 = FS2_SUCCESS" "vol_ok v6" "quiet v6"
      "on_disk v6 = on_disk v4" "hblock v6 = hblock v4" "icaddr v6 = icaddr v4" "icache v6 = icache v4"
      "\<And>b. on_disk v4 b \<Longrightarrow> blk v6 b = (if b = xcaddr v4 then new else blk v4 b)"
    using store_gp [OF s(1,2) _ len] od(1) v4(4) s(3) by metis
  have q: "uint (cursor div 0x1000) = int q" "unat (cursor mod 0x1000) = off"
  proof -
    have "q = unat cursor div 4096" "off = unat cursor mod 4096" using c by simp_all
    then show "uint (cursor div 0x1000) = int q" "unat (cursor mod 0x1000) = off"
      by (simp_all add: unat_mod unat_div uint_div zdiv_int)
  qed
  have f: "find_blk (reg_start i) (reg_len i) 23 (int q) = a" using find_file_blk [OF blks(1), of "int q"] blks(2) a(1) by simp
  have w1: "(if uint n > 0x1000 - int off then 0x1000 - int off else uint n) = int n1"
  proof -
    have u: "uint n = int (unat n)" by simp
    show ?thesis
    proof (cases "unat n \<le> 4096 - off")
      case True
      then have "\<not> uint n > 0x1000 - int off" using u c(2) by linarith
      then show ?thesis using True n(3) by simp
    next
      case False
      then have "uint n > 0x1000 - int off" using u c(2) by linarith
      then show ?thesis using False n(3) c(2) by (simp add: of_nat_diff)
    qed
  qed
  have u: "\<not> length src < unat n" "\<not> 2147483648 \<le> unat n" using n(1,2) by simp_all
  show ?thesis
  proof (rule that [OF _ v6(3,4) _ _ _ _ _ len])
    show "on_disk v6 = on_disk v2" "hblock v6 = hblock v2" "icaddr v6 = icaddr v2" "icache v6 = icache v2"
      using v6(5-8) s v4(5) by simp_all
    show "blk v6 b = (if b = a then new else blk v2 b)" if "on_disk v2 b" for b
      using v6(9) [of b] that s(3,5) v4(4) by simp
  qed (use find v2(1,2,4,5) f od(2) v4(1-3) v6(1,2) in \<open>simp add: fs2_write_def block_or_grow_def no_permission_check
      write_rest_def Let_def q w1 u a(2) [symmetric]\<close>)
qed

text \<open>The part of the write in the block after the first one: it starts with the bytes of \<open>src\<close> again.\<close>

lemma write_rest_next:
  assumes "vol_ok v" "quiet v" "icache v ! x = i" "x < 32" "blocks_ok v i k" "Suc q < length (file_blocks i)"
    and "n1 < n" "n - n1 < 4096" "n \<le> length src" "on_disk v (icaddr v)"
    and a: "a = file_blocks i ! Suc q" and bs: "bs = iblock_bytes ((icache v)[x := i\<lparr>eof := cursor + word_of_nat n\<rparr>])"
  obtains w new where "write_rest v x src (int n) (int n1) (int q) cursor = Some (int n, w)"
    "on_disk w = on_disk v" "hblock w = hblock v" "length new = 4096" "take (n - n1) new = take (n - n1) src"
    "\<And>b. on_disk v b \<Longrightarrow> blk w b = (if b = icaddr v then bs else if b = a then new else blk v b)"
proof -
  have od: "on_disk v a" "a \<noteq> 0" using file_block_ok [OF assms(5,6)] a by simp_all
  obtain v9 where v9: "fs2_load_gp_c v a True = Some v9" "xcaddr v9 = a" "blk v9 = blk v" "on_disk v9 = on_disk v"
      "quiet v9" "vol_ok v9" "outcome v9 = FS2_SUCCESS"
    using gp.load_dry [of v a] assms(1,2) by metis
  note f = load_gp_frame [OF v9(1)]
  define new where "new = take (n - n1) src @ drop (n - n1) (xcache v9)"
  have len: "length new = 4096" using v9(6) assms(8,9) by (simp add: new_def vol_ok_wf)
  obtain u where u: "fs2_save_gp_c (v9\<lparr>xcache := new\<rparr>) = Some u" "outcome u = FS2_SUCCESS" "vol_ok u" "quiet u"
      "on_disk u = on_disk v9" "hblock u = hblock v9" "icaddr u = icaddr v9" "icache u = icache v9"
      "\<And>b. on_disk v9 b \<Longrightarrow> blk u b = (if b = xcaddr v9 then new else blk v9 b)"
    using store_gp [OF v9(6,5) _ len] od(1) v9(2,4) by metis
  obtain w where w: "finish_write u x cursor (int n) = Some (int n, w)" "on_disk w = on_disk u" "hblock w = hblock u"
      "\<And>b. on_disk u b \<Longrightarrow> blk w b = (if b = icaddr u then bs else blk u b)"
    using finish_write_ok [OF u(3,4) _ assms(4), of bs cursor "int n"] u(5,7,8) f v9(4) assms(3,10) bs
    by (metis of_int_of_nat_eq)
  have b: "write_blocks v x src (int n) (int n1) (int q) = Some (True, int n1, int q, v)"
  proof -
    have "\<not> int n - int n1 \<ge> 0x1000" using assms(7,8) by linarith
    then show ?thesis by (subst write_blocks.simps) (simp only: if_False)
  qed
  have "find_blk (reg_start i) (reg_len i) 23 (int q + 1) = a"
    using find_file_blk [OF assms(5), of "int q + 1"] assms(6) a by (simp add: nat_add_distrib)
  then have "block_or_grow v x (int q + 1) sz = Some (True, a, v)" for sz
    using assms(3) od(2) by (simp add: block_or_grow_def Let_def)
  moreover have "nat (int n - int n1) = n - n1" by simp
  ultimately have "write_rest v x src (int n) (int n1) (int q) cursor = Some (int n, w)"
    using b v9(1) u(1,2) w(1) assms(7) by (simp add: write_rest_def Let_def new_def)
  then show ?thesis
  proof (rule that [OF _ _ _ len])
    show "on_disk w = on_disk v" "hblock w = hblock v" using w(2,3) u(5,6) v9(4) f by simp_all
    show "take (n - n1) new = take (n - n1) src" using assms(9) by (simp add: new_def)
    show "blk w b = (if b = icaddr v then bs else if b = a then new else blk v b)" if "on_disk v b" for b
      using that w(4) u(5,7,9) v9(2,3,4) f by simp
  qed
qed

text \<open>A write that ends in its first block.\<close>

lemma write_rest_here:
  assumes "vol_ok v" "quiet v" "icache v ! x = i" "x < 32" "on_disk v (icaddr v)"
    and bs: "bs = iblock_bytes ((icache v)[x := i\<lparr>eof := cursor + word_of_nat n\<rparr>])"
  obtains w where "write_rest v x src (int n) (int n) q cursor = Some (int n, w)" "on_disk w = on_disk v" "hblock w = hblock v"
    "\<And>b. on_disk v b \<Longrightarrow> blk w b = (if b = icaddr v then bs else blk v b)"
proof -
  have "write_blocks v x src (int n) (int n) q = Some (True, int n, q, v)" by (subst write_blocks.simps) simp
  then show ?thesis
    using finish_write_ok [OF assms(1,2,5,4), of bs cursor "int n"] bs assms(3) that by (auto simp: write_rest_def)
qed

lemma load_iblock:
  assumes "fs_ok v" "has_inode v ix i"
  obtains w where "fs2_get_iblock_c v (ix div 32) False False = Some w" "outcome w = FS2_SUCCESS"
    "icaddr w = iblocks v ! unat (ix div 32)" "icache w = iblock_of_bytes (blk v (iblocks v ! unat (ix div 32)))" "same_disk v w"
proof -
  let ?k = "ix div 32"
  let ?a = "iblocks v ! unat ?k"
  have k: "unat ?k < length (iblocks v)" "on_disk v ?a" using assms(2) by (simp_all add: has_inode_def Let_def)
  let ?w = "v\<lparr>icindex := ?k, icaddr := ?a, icache := iblock_of_bytes (blk v ?a), outcome := FS2_SUCCESS\<rparr>"
  have g: "fs2_get_iblock_c v ?k False False = Some ?w"
    using assms(1) k by (intro fs2_get_iblock_c_ok) (simp_all add: fs_ok_def)
  obtain u where "fs2_get_iblock_c v ?k False False = Some u" "same_disk v u" using load_inode [OF assms] by metis
  then have "same_disk v ?w" using g by simp
  with g show ?thesis using that [of ?w] by simp
qed

text \<open>The inode is on the disk once its block has been written.\<close>

lemma inode_written:
  assumes "has_inode v ix i" "fs_ok v" "wf_inode i'" "hblock w = hblock v" "on_disk w = on_disk v"
    and "blk w (iblocks v ! unat (ix div 32))
      = iblock_bytes ((iblock_of_bytes (blk v (iblocks v ! unat (ix div 32))))[unat (ix mod 32) := i'])"
  shows "has_inode w ix i'"
proof -
  let ?a = "iblocks v ! unat (ix div 32)" and ?x = "unat (ix mod 32)"
  let ?I = "iblock_of_bytes (blk v ?a)"
  have a: "unat (ix div 32) < length (iblocks v)" "on_disk v ?a" using assms(1) by (simp_all add: has_inode_def Let_def)
  have "length (blk v ?a) = 4096" using a(2) assms(2) by (simp add: fs_ok_def)
  then have I: "wf_iblock ?I" by (simp add: layout_simps)
  then have "wf_iblock (?I[?x := i'])" using all_updated [of ?I wf_inode i' ?x] assms(3) by (simp add: wf_iblock_def)
  moreover have "?x < 32" by (simp add: unat_mod)
  ultimately show ?thesis using a assms(4-6) I by (simp add: has_inode_def iblocks_def Let_def layout_simps wf_iblock_def)
qed

lemma map_blk_updated:
  assumes "distinct bs" "\<forall>b \<in> set bs. g b = (if b = bs ! q then y else f b)" "q < length bs"
  shows "map g bs = (map f bs)[q := y]"
  using assms by (auto intro!: nth_equalityI simp: nth_list_update nth_eq_iff_index_eq)

text \<open>The state after the first block, in terms of the volume before the call.\<close>

lemma write_file_start:
  fixes n cursor :: u32
  assumes "fs_ok v" "ss \<noteq> []" "\<forall>s \<in> set ss. component s" "dirs_ok v 0 ss"
    and "resolve v 0 ss = Some (ix, p)" "has_inode v ix i" "ftype i = FS2_FTYPE_FILE"
    and "blocks_ok v i k" "q < length (file_blocks i)" and c: "unat cursor = 4096 * q + off" "off < 4096"
    and n: "unat n \<le> length src" "unat n < 2 ^ 31" "n1 = min (unat n) (4096 - off)"
  defines "ia \<equiv> iblocks v ! unat (ix div 32)" and "a \<equiv> file_blocks i ! q"
  obtains v6 new where
    "fs2_write v (join_path ss) src n cursor = write_rest v6 (unat (ix mod 32)) src (uint n) (int n1) (int q) cursor"
    "vol_ok v6" "quiet v6" "on_disk v6 = on_disk v" "hblock v6 = hblock v" "icaddr v6 = ia" "icache v6 = iblock_of_bytes (blk v ia)"
    "\<And>b. on_disk v b \<Longrightarrow> blk v6 b = (if b = a then new else blk v b)" "length new = 4096"
    "new = take off (blk v a) @ take n1 src @ drop (off + n1) (blk v a)"
proof -
  obtain u where u: "same_disk v u" "fs2_find_file v (join_path ss) = Some (ix, Some p, u\<lparr>outcome := FS2_SUCCESS\<rparr>)"
    using find_file_eq [OF assms(1-4)] assms(5) by auto
  let ?u = "u\<lparr>outcome := FS2_SUCCESS\<rparr>"
  have s: "same_disk v ?u" using u(1) by simp
  have ih: "has_inode ?u ix i" using same_disk_inode [OF s] assms(6) by simp
  have same: "blk ?u = blk v" "iblocks ?u = iblocks v" using s by (simp_all add: same_disk_def iblocks_def)
  obtain v2 where v2: "fs2_get_iblock_c ?u (ix div 32) False False = Some v2" "outcome v2 = FS2_SUCCESS"
      "icaddr v2 = ia" "icache v2 = iblock_of_bytes (blk v ia)" "same_disk ?u v2"
    using load_iblock [OF same_disk_ok [OF s] ih] unfolding same ia_def by metis
  have d2: "same_disk v v2" by (rule same_disk_trans [OF s v2(5)])
  have b2: "blk v2 = blk v" "on_disk v2 = on_disk v" "hblock v2 = hblock v" using d2 by (simp_all add: same_disk_def)
  have I: "icache v2 ! unat (ix mod 32) = i" using assms(6) v2(4) by (simp add: has_inode_def Let_def ia_def)
  have blks: "blocks_ok v2 i k" using same_disk_blocks [OF d2] assms(8) by simp
  define new where "new = take off (blk v2 a) @ take n1 src @ drop (off + n1) (blk v2 a)"
  obtain v6 where "fs2_write v (join_path ss) src n cursor = write_rest v6 (unat (ix mod 32)) src (uint n) (int n1) (int q) cursor"
      "vol_ok v6" "quiet v6" "on_disk v6 = on_disk v2" "hblock v6 = hblock v2" "icaddr v6 = icaddr v2" "icache v6 = icache v2"
      "\<And>b. on_disk v2 b \<Longrightarrow> blk v6 b = (if b = a then new else blk v2 b)" "length new = 4096"
    using fs2_write_first [OF u(2) _ v2(1,2) same_disk_ok [OF d2] I assms(7) blks assms(9) c n a_def [THEN meta_eq_to_obj_eq] new_def]
    by auto
  then show ?thesis using that [of v6 new] b2 v2(3,4) by (simp add: new_def)
qed

text \<open>
  C16: Writing a file.  A write of \<open>n\<close> bytes at offset \<open>cursor\<close> of the file a path leads to, which stays
  within the blocks of the file and ends in its first block or in the next one, returns \<open>n\<close>, keeps what
  is before \<open>cursor\<close> and touches no block but those of the file and that of its inode.  The file ends
  where the write ends, as the comment of the code announces, so a write in the middle cuts off the
  rest.  What goes to the second block is not what a caller expects: it is the beginning of the array
  again instead of the bytes that follow.
\<close>

theorem write_file_contents:
  assumes "fs_ok v" "ss \<noteq> []" "\<forall>s \<in> set ss. component s" "dirs_ok v 0 ss"
    and "resolve v 0 ss = Some (ix, p)" "has_inode v ix i" "ftype i = FS2_FTYPE_FILE"
    and "blocks_ok v i (unat (eof i))" "distinct (file_blocks i)" "iblocks v ! unat (ix div 32) \<notin> set (file_blocks i)"
    and "unat cursor \<le> unat (eof i)" "unat cursor + unat n \<le> 4096 * length (file_blocks i)"
    and "unat (cursor mod 4096) + unat n < 2 * 4096" "unat cursor < 4096 * length (file_blocks i)"
    and "unat n \<le> length src" "unat cursor + unat n < 2 ^ 32"
  defines "i' \<equiv> i\<lparr>eof := cursor + n\<rparr>" and "room \<equiv> 4096 - unat (cursor mod 4096)"
  shows "\<exists>w. fs2_write v (join_path ss) src n cursor = Some (uint n, w) \<and> has_inode w ix i'
    \<and> file_bytes w i' = take (unat cursor) (file_bytes v i)
        @ (if unat n \<le> room then take (unat n) src else take room src @ take (unat n - room) src)
    \<and> (\<forall>b. on_disk v b \<and> b \<notin> set (file_blocks i) \<and> b \<noteq> iblocks v ! unat (ix div 32) \<longrightarrow> blk w b = blk v b)"
proof -
  let ?bs = "file_blocks i" and ?C = "map (blk v) (file_blocks i)" and ?x = "unat (ix mod 32)" and ?ia = "iblocks v ! unat (ix div 32)"
  define q off n1 where "q = unat cursor div 4096" and "off = unat cursor mod 4096" and "n1 = min (unat n) (4096 - off)"
  have c: "unat cursor = 4096 * q + off" "off < 4096" by (simp_all add: q_def off_def)
  have room: "room = 4096 - off" by (simp add: room_def off_def unat_mod)
  have q: "q < length ?bs" using assms(14) c(1) by linarith
  let ?I = "iblock_of_bytes (blk v ?ia)"
  have I: "?I ! ?x = i" "on_disk v ?ia" using assms(6) by (simp_all add: has_inode_def Let_def)
  have x: "?x < 32" by (simp add: unat_mod)
  have n31: "unat n < 2 ^ 31" using assms(13) by simp
  obtain v6 new where v6: "fs2_write v (join_path ss) src n cursor = write_rest v6 ?x src (uint n) (int n1) (int q) cursor"
      "vol_ok v6" "quiet v6" "on_disk v6 = on_disk v" "hblock v6 = hblock v" "icaddr v6 = ?ia" "icache v6 = ?I"
      "\<And>b. on_disk v b \<Longrightarrow> blk v6 b = (if b = ?bs ! q then new else blk v b)" "length new = 4096"
    and new: "new = take off (blk v (?bs ! q)) @ take n1 src @ drop (off + n1) (blk v (?bs ! q))"
    by (rule write_file_start [OF assms(1-8) q c assms(15) n31 n1_def]) (rule that; assumption)
  have i': "i' = i\<lparr>eof := cursor + word_of_nat (unat n)\<rparr>" "file_blocks i' = ?bs" "wf_inode i'"
    using assms(8) by (simp_all add: i'_def file_blocks_def blocks_ok_def wf_inode_def)
  have len: "\<forall>y \<in> set ?C. length y = 4096" by (rule length_blocks [OF assms(1,8)])
  have C: "?C ! q = blk v (?bs ! q)" "q < length ?C" using q by simp_all
  have endc: "unat (cursor + n) = unat cursor + unat n" using assms(16) by (simp add: unat_plus_if')
  have old: "take (unat cursor) (file_bytes v i) = take (4096 * q + off) (concat ?C)"
    using assms(11) c(1) by (simp add: file_bytes_def min_def)
  let ?b = "iblock_bytes (?I[?x := i'])"
  have on: "\<forall>b \<in> set ?bs. on_disk v b \<and> b \<noteq> ?ia" using assms(8,10) by (auto simp: blocks_ok_def)
  have hyps: "icache v6 ! ?x = i" "on_disk v6 (icaddr v6)" "icaddr v6 = ?ia" "?b = iblock_bytes ((icache v6)[?x := i\<lparr>eof := cursor + word_of_nat (unat n)\<rparr>])"
    using v6(4,6,7) I i'(1) by simp_all
  show ?thesis
  proof (cases "unat n \<le> room")
    case True
    then have n1: "n1 = unat n" by (simp add: n1_def room)
    obtain w where w: "write_rest v6 ?x src (int (unat n)) (int (unat n)) (int q) cursor = Some (int (unat n), w)"
        "on_disk w = on_disk v6" "hblock w = hblock v6" "\<And>b. on_disk v6 b \<Longrightarrow> blk w b = (if b = ?ia then ?b else blk v6 b)"
      using write_rest_here [OF v6(2,3) hyps(1) x hyps(2,4)] hyps(3) by metis
    have bw: "blk w b = (if b = ?ia then ?b else if b = ?bs ! q then new else blk v b)" if "on_disk v b" for b
      using w(4) v6(4,8) that by simp
    have "map (blk w) ?bs = ?C[q := new]" using bw on by (intro map_blk_updated [OF assms(9) _ q]) simp
    then have "file_bytes w i' = take (4096 * q + (off + n1)) (concat (?C[q := new]))"
      unfolding file_bytes_def i'(2) using endc c(1) n1 by (simp add: i'_def add.assoc)
    also have "\<dots> = take (4096 * q + off) (concat ?C) @ take (unat n) src"
    proof (rule contents_within [OF len C(2) v6(9)])
      show "off + n1 \<le> 4096" using True c(2) n1 room by simp
      show "take (off + n1) new = take off (?C ! q) @ take (unat n) src"
        using C len c(2) assms(15) n1 by (simp add: new)
    qed
    finally have "file_bytes w i' = take (unat cursor) (file_bytes v i) @ take (unat n) src" using old by simp
    moreover have "has_inode w ix i'"
      using w(2,3) v6(4,5) bw [OF I(2)] by (intro inode_written [OF assms(6,1) i'(3)]) simp_all
    ultimately show ?thesis using True v6(1) w(1) n1 bw q by (intro exI [of _ w]) simp
  next
    case False
    then have n1: "n1 = room" "n1 < unat n" "off + n1 = 4096" using c(2) by (simp_all add: n1_def room)
    have m: "unat n - n1 < 4096" using assms(13) n1 c(2) by (simp add: room off_def unat_mod)
    have q': "Suc q < length ?bs" using assms(12) n1 c by simp
    have b6: "blocks_ok v6 i (unat (eof i))" using assms(8) v6(4) by (simp add: blocks_ok_def)
    obtain w new2 where w: "write_rest v6 ?x src (int (unat n)) (int n1) (int q) cursor = Some (int (unat n), w)"
        "on_disk w = on_disk v6" "hblock w = hblock v6" "length new2 = 4096" "take (unat n - n1) new2 = take (unat n - n1) src"
        "\<And>b. on_disk v6 b \<Longrightarrow> blk w b = (if b = ?ia then ?b else if b = ?bs ! Suc q then new2 else blk v6 b)"
      by (rule write_rest_next [OF v6(2,3) hyps(1) x b6 q' n1(2) m assms(15) hyps(2) refl hyps(4), unfolded hyps(3)]) (rule that; assumption)
    have bw: "blk w b = (if b = ?ia then ?b else if b = ?bs ! Suc q then new2 else if b = ?bs ! q then new else blk v b)"
      if "on_disk v b" for b
      using w(6) v6(4,8) that by simp
    have "map (blk v6) ?bs = ?C[q := new]" using v6(8) on by (intro map_blk_updated [OF assms(9) _ q]) simp
    moreover have "map (blk w) ?bs = (map (blk v6) ?bs)[Suc q := new2]"
      using w(6) v6(4) on by (intro map_blk_updated [OF assms(9) _ q']) simp
    ultimately have mb: "map (blk w) ?bs = ?C[q := new, Suc q := new2]" by simp
    have "unat (eof i') = 4096 * q + off + unat n" using endc c(1) by (simp add: i'_def)
    also have "\<dots> = 4096 * Suc q + (unat n - n1)" using n1(2,3) by simp
    finally have "file_bytes w i' = take (4096 * Suc q + (unat n - n1)) (concat (?C[q := new, Suc q := new2]))"
      by (simp only: file_bytes_def i'(2) mb)
    also have "\<dots> = take (4096 * q + off) (concat ?C) @ take n1 src @ take (unat n - n1) src"
      using len q' v6(9) w(4,5) c(2) m C n1(3) by (intro contents_across) (simp_all add: new)
    finally have "file_bytes w i' = take (unat cursor) (file_bytes v i) @ take room src @ take (unat n - room) src"
      using old n1(1) by simp
    moreover have "has_inode w ix i'"
      using w(2,3) v6(4,5) bw [OF I(2)] by (intro inode_written [OF assms(6,1) i'(3)]) simp_all
    ultimately show ?thesis using False v6(1) w(1) bw q q' by (intro exI [of _ w]) simp
  qed
qed

lemma write_file_contents_witness:
  "\<exists>w. fs2_write log_vol log_name [1, 2, 3] 3 10 = Some (3, w)
    \<and> file_bytes w (log_inode\<lparr>eof := 13\<rparr>) = replicate 10 0x41 @ [1, 2, 3]"
proof -
  have b: "file_bytes log_vol log_inode = replicate 4096 0x41 @ replicate 904 0x42"
    by (simp add: file_bytes_def log_files log_blk log_inode_sel)
  have r: "resolve log_vol 0 [log_name] = Some (1, 0)" "\<forall>s \<in> set [log_name]. component s" "dirs_ok log_vol 0 [log_name]"
    using log_dir by (simp_all add: log_lookup)
  have i: "blocks_ok log_vol log_inode (unat (eof log_inode))" by (simp add: log_blocks_ok log_inode_sel)
  have "join_path [log_name] = log_name" by simp
  then show ?thesis
    using write_file_contents [OF log_vol_ok _ r(2,3,1) log_inodes(2) log_inode_sel(4) i, of 10 3 "[1, 2, 3]"]
    by (simp add: log_files log_regions log_inode_sel b) blast
qed

end
