(* ===== verification/User_Calls.thy ===== *)
theory User_Calls
  imports Lifecycle
begin

text \<open>
  The system calls as programs make them, \<^verbatim>\<open>user/libc.c\<close> and \<^verbatim>\<open>user/xlibc.c\<close>: every function loads its
  arguments into the first registers, executes \<open>svc\<close> with its number and returns what is then in
  register 0.  A machine is the context of the processor and the state of the kernel.  When the call
  has switched to another process, the registers afterwards are those of that process, and the caller
  goes on when it is scheduled again.
\<close>

type_synonym machine = "ctx \<times> kstate"

definition load_regs :: "u32 list \<Rightarrow> ctx \<Rightarrow> ctx" where
  "load_regs args c = c\<lparr>gpr := args @ drop (length args) (gpr c)\<rparr>"

definition trap :: "env \<Rightarrow> u32 \<Rightarrow> u32 list \<Rightarrow> machine \<Rightarrow> machine option" where
  "trap E number args m = hilevel_handler_svc E number (load_regs args (fst m)) (snd m)"

definition result :: "machine \<Rightarrow> u32" where
  "result m = gpr (fst m) ! 0"

definition SYS_YIELD :: u32 where "SYS_YIELD = 0x00"
definition SYS_WRITE :: u32 where "SYS_WRITE = 0x01"
definition SYS_READ :: u32 where "SYS_READ = 0x02"
definition SYS_FORK :: u32 where "SYS_FORK = 0x03"
definition SYS_EXIT :: u32 where "SYS_EXIT = 0x04"
definition SYS_EXEC :: u32 where "SYS_EXEC = 0x05"
definition SYS_KILL :: u32 where "SYS_KILL = 0x06"
definition SYS_NICE :: u32 where "SYS_NICE = 0x07"
definition SEM_OPEN :: u32 where "SEM_OPEN = 0x08"
definition SEM_POST :: u32 where "SEM_POST = 0x09"
definition SEM_WAIT :: u32 where "SEM_WAIT = 0x0A"
definition OPEN :: u32 where "OPEN = 0x0B"
definition CLOSE :: u32 where "CLOSE = 0x0C"
definition FD_SWAP :: u32 where "FD_SWAP = 0x0D"
definition PIPE :: u32 where "PIPE = 0x0E"
definition EXECX :: u32 where "EXECX = 0x0F"
definition ISFILE :: u32 where "ISFILE = 0x10"
definition ISDIR :: u32 where "ISDIR = 0x11"
definition CD :: u32 where "CD = 0x12"
definition LS :: u32 where "LS = 0x13"
definition RM :: u32 where "RM = 0x14"
definition MKFILE :: u32 where "MKFILE = 0x15"
definition MKDIR :: u32 where "MKDIR = 0x16"
definition GETWD :: u32 where "GETWD = 0x18"

lemmas call_numbers = SYS_YIELD_def SYS_WRITE_def SYS_READ_def SYS_FORK_def SYS_EXIT_def SYS_EXEC_def SYS_KILL_def SYS_NICE_def SEM_OPEN_def SEM_POST_def SEM_WAIT_def OPEN_def CLOSE_def FD_SWAP_def PIPE_def EXECX_def ISFILE_def ISDIR_def CD_def LS_def RM_def MKFILE_def MKDIR_def GETWD_def

definition yield :: "env \<Rightarrow> machine \<Rightarrow> machine option" where
  "yield E = trap E SYS_YIELD []"

definition write_call :: "env \<Rightarrow> u32 \<Rightarrow> u32 \<Rightarrow> u32 \<Rightarrow> machine \<Rightarrow> machine option" where
  "write_call E fd x n = trap E SYS_WRITE [fd, x, n]"

definition read_call :: "env \<Rightarrow> u32 \<Rightarrow> u32 \<Rightarrow> u32 \<Rightarrow> machine \<Rightarrow> machine option" where
  "read_call E fd x n = trap E SYS_READ [fd, x, n]"

definition fork :: "env \<Rightarrow> machine \<Rightarrow> machine option" where
  "fork E = trap E SYS_FORK []"

definition exit :: "env \<Rightarrow> u32 \<Rightarrow> machine \<Rightarrow> machine option" where
  "exit E x = trap E SYS_EXIT [x]"

definition exec :: "env \<Rightarrow> u32 \<Rightarrow> machine \<Rightarrow> machine option" where
  "exec E x = trap E SYS_EXEC [x]"

definition kill :: "env \<Rightarrow> u32 \<Rightarrow> u32 \<Rightarrow> machine \<Rightarrow> machine option" where
  "kill E p x = trap E SYS_KILL [p, x]"

definition nice :: "env \<Rightarrow> u32 \<Rightarrow> u32 \<Rightarrow> machine \<Rightarrow> machine option" where
  "nice E p x = trap E SYS_NICE [p, x]"

definition sem_init :: "env \<Rightarrow> u32 \<Rightarrow> u32 \<Rightarrow> machine \<Rightarrow> machine option" where
  "sem_init E sem_id init = trap E SEM_OPEN [sem_id, init]"

definition sem_post :: "env \<Rightarrow> u32 \<Rightarrow> u32 \<Rightarrow> machine \<Rightarrow> machine option" where
  "sem_post E sem_id x = trap E SEM_POST [sem_id, x]"

definition sem_wait :: "env \<Rightarrow> u32 \<Rightarrow> u32 \<Rightarrow> machine \<Rightarrow> machine option" where
  "sem_wait E sem_id x = trap E SEM_WAIT [sem_id, x]"

definition open_call :: "env \<Rightarrow> u32 \<Rightarrow> u8 \<Rightarrow> machine \<Rightarrow> machine option" where
  "open_call E path flags = trap E OPEN [path, ucast flags]"

definition close :: "env \<Rightarrow> u32 \<Rightarrow> machine \<Rightarrow> machine option" where
  "close E fd = trap E CLOSE [fd]"

definition fd_swap :: "env \<Rightarrow> u32 \<Rightarrow> u32 \<Rightarrow> machine \<Rightarrow> machine option" where
  "fd_swap E fd1 fd2 = trap E FD_SWAP [fd1, fd2]"

definition pipe_call :: "env \<Rightarrow> u32 \<Rightarrow> machine \<Rightarrow> machine option" where
  "pipe_call E pfds = trap E PIPE [pfds]"

definition execx :: "env \<Rightarrow> u32 \<Rightarrow> u32 \<Rightarrow> machine \<Rightarrow> machine option" where
  "execx E addr a = trap E EXECX [addr, a]"

definition cd :: "env \<Rightarrow> u32 \<Rightarrow> machine \<Rightarrow> machine option" where
  "cd E path = trap E CD [path]"

definition ls :: "env \<Rightarrow> u32 \<Rightarrow> u32 \<Rightarrow> u32 \<Rightarrow> machine \<Rightarrow> machine option" where
  "ls E path out nchars = trap E LS [path, out, nchars]"

definition rm :: "env \<Rightarrow> u32 \<Rightarrow> machine \<Rightarrow> machine option" where
  "rm E path = trap E RM [path]"

definition isfile :: "env \<Rightarrow> u32 \<Rightarrow> machine \<Rightarrow> machine option" where
  "isfile E path = trap E ISFILE [path]"

definition isdir :: "env \<Rightarrow> u32 \<Rightarrow> machine \<Rightarrow> machine option" where
  "isdir E path = trap E ISDIR [path]"

definition mkfile :: "env \<Rightarrow> u32 \<Rightarrow> machine \<Rightarrow> machine option" where
  "mkfile E path = trap E MKFILE [path]"

definition mkdir :: "env \<Rightarrow> u32 \<Rightarrow> machine \<Rightarrow> machine option" where
  "mkdir E path = trap E MKDIR [path]"

definition getwd :: "env \<Rightarrow> u32 \<Rightarrow> u32 \<Rightarrow> machine \<Rightarrow> machine option" where
  "getwd E out nchars = trap E GETWD [out, nchars]"

lemmas user_calls = yield_def write_call_def read_call_def fork_def exit_def exec_def kill_def nice_def sem_init_def sem_post_def sem_wait_def open_call_def close_def fd_swap_def pipe_call_def execx_def cd_def ls_def rm_def isfile_def isdir_def mkfile_def mkdir_def getwd_def

text \<open>What a caller finds when a kernel operation with arguments \<open>args\<close> has returned \<open>r\<close> to it.\<close>

definition returns :: "u32 list \<Rightarrow> ctx \<Rightarrow> (u32 \<times> kstate) option \<Rightarrow> machine option" where
  "returns args c = map_option (\<lambda>(r, k). (set_reg 0 r (load_regs args c), k))"

definition of_int_result :: "(int \<times> kstate) option \<Rightarrow> (u32 \<times> kstate) option" where
  "of_int_result = map_option (\<lambda>(v, k). (word_of_int v, k))"

definition of_bool_result :: "(bool \<times> kstate) option \<Rightarrow> (u32 \<times> kstate) option" where
  "of_bool_result = map_option (\<lambda>(v, k). (bool_reg v, k))"

definition of_path_result :: "kstate \<Rightarrow> u32 \<Rightarrow> (fs2_volume \<Rightarrow> byte list \<Rightarrow> (bool \<times> fs2_volume) option) \<Rightarrow> (u32 \<times> kstate) option" where
  "of_path_result k path f = do {
     p \<leftarrow> abs_path k path;
     (b, v) \<leftarrow> f (vol k) p;
     Some (bool_reg b, k\<lparr>vol := v\<rparr>)
   }"

lemma load_regs_gpr [simp]: "gpr (load_regs args c) = args @ drop (length args) (gpr c)"
  by (simp add: load_regs_def)

lemma result_returns: "returns args c (Some (r, k)) = Some (set_reg 0 r (load_regs args c), k)"
  by (simp add: returns_def)

lemma result_set_reg: "gpr c \<noteq> [] \<Longrightarrow> result (set_reg 0 r c, k) = r"
  by (cases "gpr c") (simp_all add: result_def set_reg_def)

lemmas return_simps = returns_def of_int_result_def of_bool_result_def of_path_result_def ret_int_def ret_bool_def ret_def

text \<open>
  The call interface.  Every library function that returns a value reaches the kernel operation of
  its number with its arguments in the order of the operation's parameters, and finds the operation's
  result in register 0; the other registers keep their contents.
\<close>

lemma calls_reach_kernel:
  shows "write_call E fd x n (c, k) = returns [fd, x, n] c (of_int_result (do_write E (sint fd) x (sint n) k))
    \<and> read_call E fd x n (c, k) = returns [fd, x, n] c (of_int_result (do_read E (sint fd) x (sint n) k))
    \<and> close E fd (c, k) = returns [fd] c (of_bool_result (do_close (sint fd) k))
    \<and> cd E path (c, k) = returns [path] c (of_bool_result (do_cd path k))
    \<and> rm E path (c, k) = returns [path] c (of_path_result k path fs2_rm)
    \<and> isfile E path (c, k) = returns [path] c (of_path_result k path (\<lambda>v p. fs2_isftype v p FS2_FTYPE_FILE))
    \<and> isdir E path (c, k) = returns [path] c (of_path_result k path (\<lambda>v p. fs2_isftype v p FS2_FTYPE_DIR))
    \<and> mkfile E path (c, k)
        = returns [path] c (of_path_result k path (\<lambda>v p. fs2_create v FS2_FTYPE_FILE p (junk_n E) (junk_i E)))
    \<and> mkdir E path (c, k)
        = returns [path] c (of_path_result k path (\<lambda>v p. fs2_create v FS2_FTYPE_DIR p (junk_n E) (junk_i E)))"
proof -
  note [simp] = user_calls call_numbers trap_def hilevel_handler_svc_def return_simps on_path_def
  have w: "write_call E fd x n (c, k) = returns [fd, x, n] c (of_int_result (do_write E (sint fd) x (sint n) k))"
    by (cases "do_write E (sint fd) x (sint n) k") auto
  have r: "read_call E fd x n (c, k) = returns [fd, x, n] c (of_int_result (do_read E (sint fd) x (sint n) k))"
    by (cases "do_read E (sint fd) x (sint n) k") auto
  have cl: "close E fd (c, k) = returns [fd] c (of_bool_result (do_close (sint fd) k))"
    by (cases "do_close (sint fd) k") auto
  have cd: "cd E path (c, k) = returns [path] c (of_bool_result (do_cd path k))"
    by (cases "do_cd path k") auto
  have p: "map_option (\<lambda>(r, k). (set_reg 0 r (load_regs [path] c), k)) (of_path_result k path f)
      = on_path (load_regs [path] c) k f" for f
    by (cases "abs_path k path") (auto split: Option.bind_splits)
  show ?thesis
    by (intro conjI w r cl cd) (simp_all del: of_path_result_def on_path_def add: p)
qed

text \<open>
  Calls without an answer.  For \<open>kill\<close> and \<open>pipe\<close> the kernel leaves the registers as they were, so
  that the value the library returns as the result is the caller's own first argument, whatever happened.
\<close>

lemma unanswered_calls:
  "(kill E p x (c, k) = None \<or> (\<exists>m'. kill E p x (c, k) = Some m' \<and> result m' = p))
   \<and> (\<exists>m'. pipe_call E pfds (c, k) = Some m' \<and> result m' = pfds)"
  by (cases "do_kill (sint p) k")
    (simp_all add: user_calls call_numbers trap_def hilevel_handler_svc_def result_def)

section \<open>A pipe used through the library\<close>

lemma first_free_spec:
  assumes "s \<le> j" "j < length xs" "P (xs ! j)"
  shows "s \<le> first_free P xs s \<and> first_free P xs s \<le> j \<and> P (xs ! first_free P xs s)"
proof -
  let ?n = "length (takeWhile (\<lambda>x. \<not> P x) (drop s xs))"
  have "?n \<le> j - s"
  proof (rule ccontr)
    assume "\<not> ?n \<le> j - s"
    then have "takeWhile (\<lambda>x. \<not> P x) (drop s xs) ! (j - s) = drop s xs ! (j - s)" "j - s < ?n"
      by (simp_all add: takeWhile_nth)
    then show False using nth_mem [of "j - s" "takeWhile (\<lambda>x. \<not> P x) (drop s xs)"] set_takeWhileD assms by fastforce
  qed
  then have "?n < length (drop s xs)" using assms by simp
  then have "P (drop s xs ! ?n)" using nth_length_takeWhile by blast
  then show ?thesis using \<open>?n \<le> j - s\<close> assms by (simp add: first_free_def)
qed

lemma put_stores_from:
  "put_stores y (zip (map int [s..<s + length xs]) xs) m = mem_put (y + word_of_nat s) xs m"
proof (induction xs arbitrary: s m)
  case (Cons a xs)
  have "[s..<Suc s + length xs] = s # [Suc s..<Suc s + length xs]" by (rule upt_conv_Cons) simp
  moreover have "y + word_of_nat (Suc s) = y + word_of_nat s + 1" by simp
  ultimately show ?case using Cons [of "Suc s"] by (simp add: add.assoc fun_upd_def del: upt_Suc of_nat_Suc)
qed simp

text \<open>
  The kernel after \<open>pipe\<close>: descriptors \<open>rp\<close> and \<open>wp\<close> lead, through entries \<open>rg\<close> and \<open>wg\<close> of the file
  table, to the two ends of pipe \<open>i\<close>, which is \<open>q\<close>.
\<close>

definition end_of :: "kstate \<Rightarrow> nat \<Rightarrow> nat \<Rightarrow> nat \<Rightarrow> fmode \<Rightarrow> bool" where
  "end_of k fd g i m \<longleftrightarrow> fd < 32 \<and> fdt (cpcb k) ! fd = int g \<and> g < 64 \<and> openft k ! g \<noteq> 0 \<and> openft k ! g \<noteq> pipes k ! i
     \<and> (\<exists>f. heap k (openft k ! g) = Some (Fdte f) \<and> fd_mode f = m \<and> fd_type f = FT_PIPE \<and> unat (fd_id f) = i)"

definition piped :: "kstate \<Rightarrow> nat \<Rightarrow> nat \<Rightarrow> nat \<Rightarrow> nat \<Rightarrow> nat \<Rightarrow> pipe \<Rightarrow> bool" where
  "piped k rp wp rg wg i q \<longleftrightarrow> i < PCB_SIZE \<and> heap k (pipes k ! i) = Some (Pipe q)
     \<and> end_of k rp rg i FM_R \<and> end_of k wp wg i FM_W"

lemma piped_store:
  "piped k rp wp rg wg i q \<Longrightarrow> piped (store (pipes k ! i) (Pipe q') (k\<lparr>mem := m\<rparr>)) rp wp rg wg i q'"
  by (auto simp: piped_def end_of_def store_def)

lemma do_write_piped:
  assumes "piped k rp wp rg wg i q" "pipe_write q (mem_bytes (mem k) src (nat n)) n (junk_pipe_i E) = Some (r, q')"
  shows "\<exists>k'. do_write E (int wp) src n k = Some (r, k') \<and> piped k' rp wp rg wg i q' \<and> mem k' = mem k"
proof -
  have "do_write E (int wp) src n k = Some (r, store (pipes k ! i) (Pipe q') k)"
    using assms by (auto simp: piped_def end_of_def do_write_def fdt_at_def openft_at_def load_fdte_def pipe_at_def load_pipe_def Let_def)
  moreover have "piped (store (pipes k ! i) (Pipe q') k) rp wp rg wg i q'"
    using piped_store [OF assms(1), of q' "mem k"] by simp
  ultimately show ?thesis by (simp add: store_def)
qed

lemma do_read_piped:
  assumes "piped k rp wp rg wg i q" "pipe_read q n (junk_pipe_i E) = Some (r, stores, q')"
  shows "\<exists>k'. do_read E (int rp) out n k = Some (r, k') \<and> piped k' rp wp rg wg i q' \<and> mem k' = put_stores out stores (mem k)"
proof -
  let ?k = "store (pipes k ! i) (Pipe q') (k\<lparr>mem := put_stores out stores (mem k)\<rparr>)"
  have "do_read E (int rp) out n k = Some (r, ?k)"
    using assms by (auto simp: piped_def end_of_def do_read_def fdt_at_def openft_at_def load_fdte_def pipe_at_def load_pipe_def Let_def)
  moreover have "piped ?k rp wp rg wg i q'" by (rule piped_store [OF assms(1)])
  ultimately show ?thesis by (simp add: store_def)
qed

text \<open>What \<open>pipe\<close> needs: two free descriptors, a free pipe, two free entries and memory for three objects.\<close>

definition pipe_room :: "env \<Rightarrow> kstate \<Rightarrow> bool" where
  "pipe_room E k \<longleftrightarrow>
     (\<exists>j1 j2. j1 < j2 \<and> j2 < 32 \<and> fdt (cpcb k) ! j1 = -1 \<and> fdt (cpcb k) ! j2 = -1)
     \<and> (\<exists>i < PCB_SIZE. pipes k ! i = 0)
     \<and> (\<exists>g1 g2. g1 < g2 \<and> g2 < 64 \<and> openft k ! g1 = 0 \<and> openft k ! g2 = 0)
     \<and> (let h = heap k; a = malloc_at E h 0x1018; h1 = h(a \<mapsto> Raw 0x1018); b = malloc_at E h1 20; h2 = h1(b \<mapsto> Raw 20)
        in a \<noteq> 0 \<and> b \<noteq> 0 \<and> malloc_at E h2 20 \<noteq> 0)"

lemma do_pipe_piped:
  assumes k: "kernel_inv k" "malloc_ok E" "pipe_room E k"
  shows "\<exists>k' rp wp rg wg i. do_pipe E a k = (True, k') \<and> piped k' rp wp rg wg i (pipe_reset (junk_pipe E))
    \<and> mem k' = mem_put a (le32s [word_of_nat rp, word_of_nat wp]) (mem k)"
proof -
  let ?fds = "fdt (cpcb k)"
  have len: "length ?fds = 32" "length (pipes k) = PCB_SIZE" "length (openft k) = 64" "cur k < length (pcbs k)"
    using k(1) by (auto simp: kernel_inv_def others_idle_def procs_ok_def pcb_ok_def)
  obtain j1 j2 i0 g1 g2 where room: "j1 < j2" "j2 < 32" "?fds ! j1 = -1" "?fds ! j2 = -1" "i0 < PCB_SIZE" "pipes k ! i0 = 0"
      "g1 < g2" "g2 < 64" "openft k ! g1 = 0" "openft k ! g2 = 0"
    using k(3) by (auto simp: pipe_room_def)
  have two: "first_free P xs 0 < first_free P xs (first_free P xs 0 + 1) \<and> first_free P xs (first_free P xs 0 + 1) < length xs
      \<and> P (xs ! first_free P xs 0)" if "x < y" "y < length xs" "P (xs ! x)" "P (xs ! y)" for P :: "'b \<Rightarrow> bool" and xs x y
  proof -
    have f: "first_free P xs 0 \<le> x \<and> P (xs ! first_free P xs 0)" using first_free_spec [of 0 x xs P] that by simp
    then have "first_free P xs 0 + 1 \<le> first_free P xs (first_free P xs 0 + 1) \<and> first_free P xs (first_free P xs 0 + 1) \<le> y"
      using first_free_spec [of "first_free P xs 0 + 1" y xs P] that by linarith
    then show ?thesis using f that by linarith
  qed
  define rp where "rp = first_free (\<lambda>x. x = -1) ?fds 0"
  define wp where "wp = first_free (\<lambda>x. x = -1) ?fds (rp + 1)"
  define i where "i = first_free (\<lambda>x. x = 0) (pipes k) 0"
  define rg where "rg = first_free (\<lambda>x. x = 0) (openft k) 0"
  define wg where "wg = first_free (\<lambda>x. x = 0) (openft k) (rg + 1)"
  have p: "rp < wp" "wp < 32" using two [of j1 j2 ?fds "\<lambda>x. x = -1"] room len by (simp_all add: rp_def wp_def)
  have g: "rg < wg" "wg < 64" using two [of g1 g2 "openft k" "\<lambda>x. x = 0"] room len by (simp_all add: rg_def wg_def)
  have i: "i < PCB_SIZE" using first_free_spec [of 0 i0 "pipes k" "\<lambda>x. x = 0"] room len by (simp add: i_def)
  define pp where "pp = malloc_at E (heap k) 0x1018"
  define h1 where "h1 = (heap k)(pp \<mapsto> Raw 0x1018)"
  define re where "re = malloc_at E h1 20"
  define h2 where "h2 = h1(re \<mapsto> Raw 20)"
  define we where "we = malloc_at E h2 20"
  have nz: "pp \<noteq> 0" "re \<noteq> 0" "we \<noteq> 0"
    using k(3) by (simp_all add: pipe_room_def Let_def pp_def re_def we_def h1_def h2_def)
  have fresh: "h1 re = None" "h2 we = None" using k(2) nz by (auto simp: malloc_ok_def re_def we_def)
  then have ne: "re \<noteq> pp" "we \<noteq> pp" "we \<noteq> re" by (auto simp: h1_def h2_def split: if_splits)
  let ?k8 = "k\<lparr>pipes := (pipes k)[i := pp],
      heap := h2(we \<mapsto> Raw 20, pp \<mapsto> Pipe (pipe_reset (junk_pipe E)),
        re \<mapsto> Fdte \<lparr>open_count = 1, fd_type = FT_PIPE, fd_mode = FM_R, fd_id = word_of_nat i, fd_cursor = word_of_nat wg\<rparr>,
        we \<mapsto> Fdte \<lparr>open_count = 1, fd_type = FT_PIPE, fd_mode = FM_W, fd_id = word_of_nat i, fd_cursor = word_of_nat rg\<rparr>),
      openft := (openft k)[rg := re, wg := we]\<rparr>"
  let ?k' = "put_words a [word_of_nat rp, word_of_nat wp] (set_fdt wp (int wg) (set_fdt rp (int rg) ?k8))"
  have "do_pipe E a k = (True, ?k')"
  proof -
    have m1: "malloc E k 0x1018 = (pp, k\<lparr>heap := h1\<rparr>)" using nz by (simp add: malloc_def Let_def pp_def h1_def)
    have m2: "malloc E (k\<lparr>heap := h1, pipes := ps\<rparr>) 20 = (re, k\<lparr>pipes := ps, heap := h2\<rparr>)" for ps
      using nz by (simp add: malloc_def Let_def re_def h2_def)
    have m3: "malloc E (k\<lparr>pipes := ps, heap := h2\<rparr>) 20 = (we, k\<lparr>pipes := ps, heap := h2(we \<mapsto> Raw 20)\<rparr>)" for ps
      using nz by (simp add: malloc_def Let_def we_def)
    have lt: "\<not> 32 \<le> wp" "i \<noteq> PCB_SIZE" "rg \<noteq> 64" "wg \<noteq> 64" using p g i by auto
    show ?thesis
      unfolding do_pipe_def Let_def rp_def [symmetric] wp_def [symmetric] i_def [symmetric] rg_def [symmetric] wg_def [symmetric]
      using nz lt by (simp add: m1 m2 m3 store_def)
  qed
  moreover have "piped ?k' rp wp rg wg i (pipe_reset (junk_pipe E))"
    using p g i len nz ne
    by (simp add: piped_def end_of_def put_words_def set_fdt_def PCB_SIZE_def unat_of_nat nth_list_update)
  moreover have "mem ?k' = mem_put a (le32s [word_of_nat rp, word_of_nat wp]) (mem k)"
    by (simp add: put_words_def set_fdt_def)
  ultimately show ?thesis by blast
qed

lemma do_write_piped_undefined:
  assumes "piped k rp wp rg wg i q" "pipe_write q (mem_bytes (mem k) src (nat n)) n (junk_pipe_i E) = None"
  shows "do_write E (int wp) src n k = None"
  using assms by (auto simp: piped_def end_of_def do_write_def fdt_at_def openft_at_def load_fdte_def pipe_at_def load_pipe_def Let_def)

text \<open>
  What the two loops do to an empty pipe when their counters start at \<open>iw\<close> and \<open>ir\<close>: the bytes from
  position \<open>iw\<close> on go in, and at most \<open>n - ir\<close> of them come out, to position \<open>ir\<close> on.
\<close>

lemma pipe_write_read:
  fixes iw ir n :: nat
  assumes q: "pipe_ok q" "contents q = []" and n: "length bs = n" "n \<le> PIPE_SIZE"
    and b_def: "b = min (n - iw) (n - ir)"
  obtains q2 q3 where "pipe_write q bs (int n) (int iw) = Some (int (max iw n), q2)"
    and "pipe_read q2 (int n) (int ir) = Some (int (ir + b), zip (map int [ir..<ir + b]) (take b (drop iw bs)), q3)"
proof -
  have w: "\<exists>q2. pipe_write q bs (int n) (int iw) = Some (int (max iw n), q2) \<and> pipe_ok q2 \<and> contents q2 = drop iw bs"
  proof (cases "iw \<le> n")
    case True
    let ?q = "ring.fill (drop iw bs) q"
    have f: "pipe_ok ?q" "contents ?q = drop iw bs" using ring.fill_elems [OF q(1), of "drop iw bs"] q(2) n by simp_all
    have "length (contents ?q) = n - iw" unfolding f(2) using n by simp
    then have "pipe_count ?q = n - iw" by simp
    then show ?thesis
      using pipe_write_fill [of "int iw" "int n" bs q] q n True f by (simp add: Let_def max_def nat_diff_distrib of_nat_diff)
  next
    case False
    then show ?thesis using q n by (subst pipe_write.simps) (simp add: max_def)
  qed
  then obtain q2 where q2: "pipe_write q bs (int n) (int iw) = Some (int (max iw n), q2)" "pipe_ok q2" "contents q2 = drop iw bs"
    by blast
  have r: "\<exists>q3. pipe_read q2 (int n) (int ir) = Some (int (ir + b), zip (map int [ir..<ir + b]) (take b (drop iw bs)), q3)"
  proof (cases "ir \<le> n")
    case True
    obtain xs q3 where d: "ring.drain (n - ir) q2 = (xs, q3)" by fastforce
    then have xs: "xs = take b (drop iw bs)"
      using ring.drain_elems [OF q2(2), of "n - ir"] q2(3) n by (simp add: b_def min_def)
    then have "length xs = b" using n by (simp add: b_def)
    moreover have "map (\<lambda>k. int ir + int k) [0..<b] = map int [ir..<ir + b]"
      by (rule nth_equalityI) simp_all
    ultimately show ?thesis
      using pipe_read_drain [of "int ir" "int n" q2] d True xs by (simp add: nat_diff_distrib)
  next
    case False
    then show ?thesis by (subst pipe_read.simps) (simp add: b_def)
  qed
  then show thesis using that q2(1) by blast
qed

text \<open>
  C26: A pipe from end to end.  A process that has room for a pipe (two free descriptors, a free pipe,
  two free entries in the file table and memory for three objects) creates one, writes \<open>n\<close> bytes to the
  second descriptor that \<open>pipe\<close> stored and reads \<open>n\<close> bytes from the first, with \<open>n\<close> at most the size of
  a pipe.  The counters of the kernel's two loops are not initialised; let them start at \<open>iw\<close> and \<open>ir\<close>.
  When both happen to be 0, both calls return \<open>n\<close> and the bytes read are those written.  In general the
  bytes from position \<open>iw\<close> on arrive, from position \<open>ir\<close> on and as many as then fit, and the results are
  the final counters; a negative counter makes the write read outside its buffer.
\<close>

theorem pipe_end_to_end:
  assumes k: "kernel_inv k" "malloc_ok E" "pipe_room E k" "length (gpr c) = 13"
    and junk: "length (buffer (junk_pipe E)) = PIPE_SIZE" and n: "0 < n" "n \<le> PIPE_SIZE"
  shows "\<exists>r w m1. pipe_call E pfds (c, k) = Some m1 \<and> mem_bytes (mem (snd m1)) pfds 8 = le32s [r, w]
    \<and> (junk_pipe_i Ew < 0 \<longrightarrow> write_call Ew w src (word_of_nat n) m1 = None)
    \<and> (\<forall>iw ir. junk_pipe_i Ew = int iw \<and> junk_pipe_i Er = int ir \<longrightarrow>
        (\<exists>m2 m3. write_call Ew w src (word_of_nat n) m1 = Some m2 \<and> result m2 = word_of_nat (max iw n)
          \<and> read_call Er r out (word_of_nat n) m2 = Some m3 \<and> result m3 = word_of_nat (ir + min (n - iw) (n - ir))
          \<and> mem_bytes (mem (snd m3)) (out + word_of_nat ir) (min (n - iw) (n - ir))
            = mem_bytes (mem (snd m1)) (src + word_of_nat iw) (min (n - iw) (n - ir))))"
proof -
  let ?q = "pipe_reset (junk_pipe E)"
  have q: "pipe_ok ?q" "contents ?q = []" "\<not> full ?q"
    using junk by (simp_all add: pipe_ok_def pipe_reset_def contents_def pipe_count_def PIPE_SIZE_def)
  obtain k1 rp wp rg wg i where k1: "do_pipe E pfds k = (True, k1)" "piped k1 rp wp rg wg i ?q"
      "mem k1 = mem_put pfds (le32s [word_of_nat rp, word_of_nat wp]) (mem k)"
    using do_pipe_piped [OF k(1-3)] by blast
  have small: "sint (word_of_nat m :: u32) = int m" if "m \<le> 4096" for m
    using sint_below_31 [of "word_of_nat m"] that by (simp add: unat_of_nat)
  have fd: "rp \<le> 4096" "wp \<le> 4096" "n \<le> 4096"
    using k1(2) n by (auto simp: piped_def end_of_def PIPE_SIZE_def)
  note sint = small [OF fd(1)] small [OF fd(2)] small [OF fd(3)]
  note calls = user_calls call_numbers trap_def hilevel_handler_svc_def ret_int_def ret_def
  define m1 where "m1 = (load_regs [pfds] c, k1)"
  have c1: "pipe_call E pfds (c, k) = Some m1" using k1(1) by (simp add: calls m1_def)
  have fds: "mem_bytes (mem (snd m1)) pfds 8 = le32s [word_of_nat rp, word_of_nat wp]"
    using mem_bytes_put [of "le32s [word_of_nat rp, word_of_nat wp]" pfds "mem k"] by (simp add: m1_def k1(3))
  let ?bs = "mem_bytes (mem k1) src n"
  have neg: "write_call Ew (word_of_nat wp) src (word_of_nat n) m1 = None" if "junk_pipe_i Ew < 0"
  proof -
    have "pipe_write ?q ?bs (int n) (junk_pipe_i Ew) = None"
      using that q(3) n by (subst pipe_write.simps) simp
    then show ?thesis
      using do_write_piped_undefined [OF k1(2), of src "int n" Ew] sint by (simp add: calls m1_def)
  qed
  have pos: "\<exists>m2 m3. write_call Ew (word_of_nat wp) src (word_of_nat n) m1 = Some m2 \<and> result m2 = word_of_nat (max iw n)
      \<and> read_call Er (word_of_nat rp) out (word_of_nat n) m2 = Some m3 \<and> result m3 = word_of_nat (ir + b)
      \<and> mem_bytes (mem (snd m3)) (out + word_of_nat ir) b = mem_bytes (mem (snd m1)) (src + word_of_nat iw) b"
    if j: "junk_pipe_i Ew = int iw" "junk_pipe_i Er = int ir" and b: "b = min (n - iw) (n - ir)" for iw ir b
  proof -
    let ?xs = "take b (drop iw ?bs)"
    have xs: "?xs = mem_bytes (mem k1) (src + word_of_nat iw) b" "length ?xs = b"
      by (rule nth_equalityI) (auto simp: mem_bytes_def b add.assoc drop_map)
    obtain q2 q3 where w: "pipe_write ?q ?bs (int n) (int iw) = Some (int (max iw n), q2)"
      and r: "pipe_read q2 (int n) (int ir) = Some (int (ir + b), zip (map int [ir..<ir + b]) ?xs, q3)"
      using pipe_write_read [OF q(1,2) _ n(2) b, of ?bs] by auto
    obtain k2 where k2: "do_write Ew (int wp) src (int n) k1 = Some (int (max iw n), k2)" "piped k2 rp wp rg wg i q2" "mem k2 = mem k1"
      using do_write_piped [OF k1(2), of src "int n" Ew "int (max iw n)" q2] j w by auto
    obtain k3 where k3: "do_read Er (int rp) out (int n) k2 = Some (int (ir + b), k3)"
        "mem k3 = mem_put (out + word_of_nat ir) ?xs (mem k2)"
      using do_read_piped [OF k2(2), of "int n" Er "int (ir + b)" _ q3 out] j r put_stores_from [of out ir ?xs] xs(2) by auto
    define m2 where "m2 = (set_reg 0 (word_of_nat (max iw n)) (load_regs [word_of_nat wp, src, word_of_nat n] (fst m1)), k2)"
    define m3 where "m3 = (set_reg 0 (word_of_nat (ir + b)) (load_regs [word_of_nat rp, out, word_of_nat n] (fst m2)), k3)"
    have "write_call Ew (word_of_nat wp) src (word_of_nat n) m1 = Some m2"
      "read_call Er (word_of_nat rp) out (word_of_nat n) m2 = Some m3"
      using k2(1) k3(1) sint by (simp_all add: calls m1_def m2_def m3_def)
    moreover have "result m2 = word_of_nat (max iw n)" "result m3 = word_of_nat (ir + b)"
      by (simp_all add: m2_def m3_def result_set_reg)
    moreover have "mem_bytes (mem (snd m3)) (out + word_of_nat ir) b = ?xs"
      using mem_bytes_put [of ?xs "out + word_of_nat ir" "mem k2"] xs(2) fd(3) b by (simp add: m3_def k3(2))
    ultimately show ?thesis using xs(1) by (intro exI [of _ m2] exI [of _ m3]) (simp add: m1_def)
  qed
  show ?thesis using c1 fds neg pos by (intro exI [of _ "word_of_nat rp"] exI [of _ "word_of_nat wp"] exI [of _ m1]) blast
qed

text \<open>An allocator that hands out the first free one of three places.\<close>

definition three_blocks :: env where
  "three_blocks = sample_env\<lparr>malloc_at := \<lambda>h n. if h 0x1000 = None then 0x1000 else if h 0x3000 = None then 0x3000
     else if h 0x4000 = None then 0x4000 else 0\<rparr>"

lemma three_blocks_room: "malloc_ok three_blocks" "pipe_room three_blocks sample_kernel"
proof -
  show "malloc_ok three_blocks" by (auto simp: malloc_ok_def three_blocks_def sample_env_def)
  have "fdt (cpcb sample_kernel) = replicate 32 (-1)" by (rule sample_kernel_fds)
  then have "fdt (cpcb sample_kernel) ! 0 = -1" "fdt (cpcb sample_kernel) ! Suc 0 = -1" by simp_all
  moreover have "pipes sample_kernel ! 0 = 0" "openft sample_kernel ! 0 = 0" "openft sample_kernel ! Suc 0 = 0"
    by (simp_all add: sample_kernel_def boot_kernel_def)
  moreover have "heap sample_kernel = Map.empty" by (simp add: sample_kernel_def boot_kernel_def)
  ultimately show "pipe_room three_blocks sample_kernel"
    unfolding pipe_room_def Let_def
    by (intro conjI exI [of _ "0 :: nat"] exI [of _ "Suc 0"]) (simp_all add: PCB_SIZE_def three_blocks_def)
qed

lemma pipe_end_to_end_witness:
  "\<exists>r w m1 m2 m3. pipe_call three_blocks 0x8000 (zero_ctx, sample_kernel) = Some m1
    \<and> write_call three_blocks w 0x9000 3 m1 = Some m2 \<and> read_call three_blocks r 0xA000 3 m2 = Some m3 \<and> result m3 = 3"
proof -
  have c: "length (gpr zero_ctx) = 13" "length (buffer (junk_pipe three_blocks)) = PIPE_SIZE" "0 < (3 :: nat)" "3 \<le> PIPE_SIZE"
    by (simp_all add: zero_ctx_def three_blocks_def sample_env_def PIPE_SIZE_def)
  have j: "junk_pipe_i three_blocks = int 0" by (simp add: three_blocks_def sample_env_def)
  then have j2: "junk_pipe_i three_blocks = int 0 \<and> junk_pipe_i three_blocks = int 0" by simp
  obtain r w m1 where 1: "pipe_call three_blocks 0x8000 (zero_ctx, sample_kernel) = Some m1"
      "\<exists>m2 m3. write_call three_blocks w 0x9000 (word_of_nat 3) m1 = Some m2 \<and> result m2 = word_of_nat (max 0 3)
        \<and> read_call three_blocks r 0xA000 (word_of_nat 3) m2 = Some m3 \<and> result m3 = word_of_nat (0 + min (3 - 0) (3 - 0))"
    using pipe_end_to_end [OF sample_kernel_inv(1) three_blocks_room c, of "0x8000" three_blocks "0x9000" three_blocks "0xA000"] j2
    by blast
  from 1(2) have "\<exists>m2 m3. write_call three_blocks w 0x9000 3 m1 = Some m2 \<and> read_call three_blocks r 0xA000 3 m2 = Some m3 \<and> result m3 = 3"
    by (simp del: split_paired_Ex) blast
  then show ?thesis using 1(1) by blast
qed

end
