(* ===== verification/User_Text.thy ===== *)
theory User_Text
  imports Prelude
begin

text \<open>
  The text routines of the user programs: \<open>atoi\<close> and \<open>itoa\<close> of \<^verbatim>\<open>user/libc.c\<close>, and the hexadecimal
  formatting of \<^verbatim>\<open>user/strformat.c\<close>.  An \<open>int\<close> of the source is an integer whose range is checked:
  signed overflow has no result, and neither has a store outside an array.
\<close>

definition in_int :: "int \<Rightarrow> bool" where
  "in_int x \<longleftrightarrow> - (2 ^ 31) \<le> x \<and> x < 2 ^ 31"

definition put_at :: "byte list \<Rightarrow> int \<Rightarrow> byte \<Rightarrow> byte list option" where
  "put_at r p b = (if 0 \<le> p \<and> p < int (length r) then Some (r[nat p := b]) else None)"

section \<open>Decimal numbers\<close>

text \<open>The argument is the string without its NUL.\<close>

fun atoi_loop :: "bool \<Rightarrow> int \<Rightarrow> byte list \<Rightarrow> int option" where
  "atoi_loop s r [] = Some r"
| "atoi_loop s r (c # cs) =
     (let t = r * 10; d = uint c - 0x30; r' = (if s then t - d else t + d)
      in if in_int t \<and> in_int r' then atoi_loop s r' cs else None)"

definition atoi :: "byte list \<Rightarrow> int option" where
  "atoi x = (case x of
       [] \<Rightarrow> Some 0
     | c # cs \<Rightarrow> if c = 0x2D then atoi_loop True 0 cs
                 else if c = 0x2B then atoi_loop False 0 cs
                 else atoi_loop False 0 x)"

text \<open>
  \<open>itoa\<close> first walks to the end of the number, then writes it backwards; \<open>p\<close> is the index of the
  pointer in the array \<open>r\<close>.  The loops are \<open>do ... while\<close>, so that 0 has one digit.
\<close>

fun itoa_end :: "nat \<Rightarrow> nat \<Rightarrow> nat" where
  "itoa_end n p = (if n div 10 = 0 then p + 1 else itoa_end (n div 10) (p + 1))"

fun itoa_digits :: "byte list \<Rightarrow> int \<Rightarrow> nat \<Rightarrow> (byte list \<times> int) option" where
  "itoa_digits r p t = do {
     r1 \<leftarrow> put_at r p (0x30 + word_of_nat (t mod 10));
     if t div 10 = 0 then Some (r1, p - 1) else itoa_digits r1 (p - 1) (t div 10)
   }"

declare itoa_end.simps [simp del] itoa_digits.simps [simp del]

definition itoa :: "byte list \<Rightarrow> int \<Rightarrow> byte list option" where
  "itoa r x =
     (if \<not> in_int (- x) then None
      else do {
        let t = nat \<bar>x\<bar>;
        let p = itoa_end t (if x < 0 then 1 else 0);
        r1 \<leftarrow> put_at r (int p) 0;
        (r2, q) \<leftarrow> itoa_digits r1 (int p - 1) t;
        if x < 0 then put_at r2 q 0x2D else Some r2
      })"

text \<open>The decimal numeral, as a reference.\<close>

fun dec_nat :: "nat \<Rightarrow> byte list" where
  "dec_nat n = (if n < 10 then [] else dec_nat (n div 10)) @ [0x30 + word_of_nat (n mod 10)]"

declare dec_nat.simps [simp del]

definition dec_int :: "int \<Rightarrow> byte list" where
  "dec_int x = (if x < 0 then [0x2D] else []) @ dec_nat (nat \<bar>x\<bar>)"

lemma itoa_end_length: "itoa_end n p = p + length (dec_nat n)"
proof (induction n p rule: itoa_end.induct)
  case (1 n p)
  then show ?case
    by (subst itoa_end.simps, subst dec_nat.simps) (auto simp: div_eq_0_iff)
qed

lemma itoa_digits_text:
  "length b = length (dec_nat t) \<Longrightarrow>
   itoa_digits (a @ b @ c) (int (length a + length b) - 1) t = Some (a @ dec_nat t @ c, int (length a) - 1)"
proof (induction t arbitrary: b c rule: dec_nat.induct)
  case (1 t)
  obtain y b' where b: "b = b' @ [y]"
    using 1(2) by (cases b rule: rev_cases) (simp_all add: dec_nat.simps [of t])
  let ?d = "0x30 + word_of_nat (t mod 10) :: byte"
  have put: "put_at (a @ b @ c) (int (length a + length b) - 1) ?d = Some (a @ b' @ ?d # c)"
    by (simp add: put_at_def b list_update_append nat_add_distrib)
  show ?case
  proof (cases "t < 10")
    case True
    then have "b' = []" using 1(2) b by (simp add: dec_nat.simps [of t])
    then show ?thesis using True put b by (simp add: itoa_digits.simps [of _ _ t] dec_nat.simps [of t])
  next
    case False
    then have len: "length b' = length (dec_nat (t div 10))"
      using 1(2) b by (simp add: dec_nat.simps [of t])
    have "int (length a + length b) - 1 - 1 = int (length a + length b') - 1" using b by simp
    then have "itoa_digits (a @ b @ c) (int (length a + length b) - 1) t
        = itoa_digits (a @ b' @ ?d # c) (int (length a + length b') - 1) (t div 10)"
      using False put by (subst itoa_digits.simps) (simp add: div_eq_0_iff)
    then show ?thesis using 1(1) [OF False len] False by (simp add: dec_nat.simps [of t])
  qed
qed

lemma itoa_text:
  assumes "in_int (- x)" "length (dec_int x) < length r"
  shows "itoa r x = Some (cstr (dec_int x) @ drop (length (dec_int x) + 1) r)"
proof -
  define s where "s = (if x < 0 then 1 else 0 :: nat)"
  define ds where "ds = dec_nat (nat \<bar>x\<bar>)"
  have len: "length (dec_int x) = s + length ds" by (simp add: dec_int_def s_def ds_def)
  define a b c where "a = take s r" and "b = take (length ds) (drop s r)" and "c = drop (s + length ds + 1) r"
  have lt: "s + length ds < length r" using assms(2) len by simp
  then have la: "length a = s" "length b = length ds" by (simp_all add: a_def b_def)
  have "r[s + length ds := 0] = take (s + length ds) r @ 0 # c"
    using lt by (simp add: upd_conv_take_nth_drop c_def)
  also have "take (s + length ds) r = a @ b" by (simp add: a_def b_def take_add)
  finally have put: "put_at r (int (itoa_end (nat \<bar>x\<bar>) s)) 0 = Some (a @ b @ 0 # c)"
    using lt by (simp add: put_at_def itoa_end_length nat_add_distrib flip: ds_def)
  have dig: "itoa_digits (a @ b @ 0 # c) (int (itoa_end (nat \<bar>x\<bar>) s) - 1) (nat \<bar>x\<bar>) = Some (a @ ds @ 0 # c, int s - 1)"
    using itoa_digits_text [of b "nat \<bar>x\<bar>" a "0 # c"] la by (simp add: itoa_end_length ds_def)
  show ?thesis
  proof (cases "x < 0")
    case True
    then have "s = 1" by (simp add: s_def)
    then obtain y where "a = [y]" using la(1) by (auto simp: length_Suc_conv)
    then show ?thesis using put dig assms(1) True \<open>s = 1\<close>
      by (simp add: itoa_def put_at_def dec_int_def cstr_def c_def ds_def Let_def)
  next
    case False
    then have "s = 0" "a = []" using la(1) by (simp_all add: s_def)
    then show ?thesis using put dig assms(1) False
      by (simp add: itoa_def dec_int_def cstr_def c_def ds_def Let_def)
  qed
qed

lemma uint_digit: "uint (0x30 + word_of_nat (n mod 10) :: byte) - 0x30 = int (n mod 10)"
proof -
  have "n mod 10 < 10" by simp
  then have "unat (0x30 + word_of_nat (n mod 10) :: byte) = 0x30 + n mod 10"
    by (simp add: unat_word_ariths unat_of_nat)
  from arg_cong [OF this, of int] show ?thesis by simp
qed

lemma in_int_0 [simp]: "in_int 0"
  by (simp add: in_int_def)

lemma atoi_loop_dec:
  assumes "in_int (if s then - int n else int n)"
  shows "atoi_loop s 0 (dec_nat n @ cs) = atoi_loop s (if s then - int n else int n) cs"
  using assms
proof (induction n arbitrary: cs rule: dec_nat.induct)
  case (1 n)
  define d where "d = n mod 10"
  have n: "int n = int (n div 10) * 10 + int d" unfolding d_def by (simp only: zdiv_int zmod_int of_nat_numeral div_mult_mod_eq)
  have "in_int (if s then - int (n div 10) else int (n div 10))"
    "in_int ((if s then - int (n div 10) else int (n div 10)) * 10)"
    using 1(2) n by (auto simp: in_int_def split: if_splits)
  moreover have "n < 10 \<Longrightarrow> n div 10 = 0" by simp
  ultimately have "atoi_loop s 0 (dec_nat n @ cs)
      = atoi_loop s (if s then - int (n div 10) else int (n div 10)) ((0x30 + word_of_nat d) # cs)"
    using 1(1) [of "(0x30 + word_of_nat d) # cs"] by (cases "n < 10") (simp_all add: dec_nat.simps [of n] d_def Let_def)
  moreover have "uint (0x30 + word_of_nat d :: byte) - 0x30 = int d" unfolding d_def by (rule uint_digit)
  ultimately show ?case
    using 1(2) \<open>in_int (_ * 10)\<close> by (cases s) (simp_all add: Let_def n)
qed

lemma dec_nat_head: "\<exists>c cs. dec_nat n = c # cs \<and> c \<noteq> 0x2D \<and> c \<noteq> 0x2B"
proof (induction n rule: dec_nat.induct)
  case (1 n)
  have digit: "w \<noteq> 0x2D \<and> w \<noteq> 0x2B" if "uint w - 0x30 = int (n mod 10)" for w :: byte
    using that by auto
  note digit [OF uint_digit]
  then show ?case using 1 by (cases "n < 10") (auto simp: dec_nat.simps [of n])
qed

lemma atoi_dec_int: "in_int x \<Longrightarrow> atoi (dec_int x) = Some x"
proof -
  assume x: "in_int x"
  obtain c cs where c: "dec_nat (nat \<bar>x\<bar>) = c # cs" "c \<noteq> 0x2D" "c \<noteq> 0x2B"
    using dec_nat_head by blast
  show ?thesis
    using atoi_loop_dec [of "x < 0" "nat \<bar>x\<bar>" "[]"] x c by (cases "x < 0") (simp_all add: atoi_def dec_int_def)
qed

lemma length_dec_nat: "n < 10 ^ k \<Longrightarrow> 0 < k \<Longrightarrow> length (dec_nat n) \<le> k"
proof (induction n arbitrary: k rule: dec_nat.induct)
  case (1 n)
  show ?case
  proof (cases "n < 10")
    case True
    then show ?thesis using 1(3) by (simp add: dec_nat.simps [of n])
  next
    case False
    then obtain j where j: "k = Suc j" "0 < j" using 1(2,3) by (cases k; cases "k - 1") auto
    have "n div 10 < 10 ^ j" using 1(2) j by (simp add: less_mult_imp_div_less mult.commute)
    then show ?thesis using 1(1) [OF False, of j] j False by (simp add: dec_nat.simps [of n])
  qed
qed

text \<open>
  C35: Numbers as text.  For every \<open>int\<close> but the smallest, whose negation overflows, \<open>itoa\<close> stores the
  decimal numeral and its terminator in any array of at least 12 characters, leaves the rest of the
  array alone, and \<open>atoi\<close> of that string is the number again.
\<close>

theorem itoa_atoi_roundtrip:
  assumes "in_int (- x)" "in_int x" "12 \<le> length r"
  shows "itoa r x = Some (cstr (dec_int x) @ drop (length (dec_int x) + 1) r) \<and> atoi (dec_int x) = Some x"
proof -
  have "nat \<bar>x\<bar> < 10 ^ 10" using assms(1,2) by (auto simp: in_int_def)
  from length_dec_nat [OF this] have "length (dec_int x) < length r" using assms(3) by (cases "x < 0") (simp_all add: dec_int_def)
  then show ?thesis using itoa_text [OF assms(1)] atoi_dec_int [OF assms(2)] by simp
qed

lemma itoa_atoi_roundtrip_witness:
  "\<exists>s. itoa (replicate 12 0xFF) (-2147483647) = Some s \<and> length s = 12 \<and> atoi (dec_int (-2147483647)) = Some (-2147483647)"
proof -
  have "length (dec_int (-2147483647)) < 12"
    using length_dec_nat [of 2147483647 10] by (simp add: dec_int_def)
  then show ?thesis
    using itoa_atoi_roundtrip [of "-2147483647" "replicate 12 0xFF"] by (simp add: in_int_def)
qed

section \<open>Hexadecimal formatting\<close>

definition hex_char :: "u32 \<Rightarrow> byte" where
  "hex_char value =
     (let v = value AND 0x0F in if v < 10 then ucast (0x30 + v) else ucast (0x41 + v - 10))"

text \<open>
  \<open>segment\<close> starts at index \<open>st\<close> of the array \<open>s\<close>, which contains it.  A shift by 32 or more places is
  undefined.
\<close>

definition hex :: "byte list \<Rightarrow> nat \<Rightarrow> nat \<Rightarrow> u32 \<Rightarrow> byte list option" where
  "hex s st n value =
     (if 4 * (n - 1) \<ge> 32 then None
      else Some (fold (\<lambda>i s. s[st + i := hex_char (word_of_int (drop_bit (4 * (n - 1 - i)) (sint value)))]) [0..<n] s))"

lemma length_hex: "hex s st n v = Some t \<Longrightarrow> length t = length s"
proof -
  have "length (fold (\<lambda>i s. s[st + i := f i]) is s) = length s" for f :: "nat \<Rightarrow> byte" and "is" and s
    by (induction "is" arbitrary: s) simp_all
  then show "hex s st n v = Some t \<Longrightarrow> ?thesis" by (auto simp: hex_def split: if_splits)
qed

text \<open>The character that marks a field.\<close>

definition at_sign :: byte where "at_sign = 0x40"

text \<open>
  The loop of \<open>format_hex\<close> with its counters \<open>i\<close> and \<open>val\<close>; \<open>j\<close> is where the run of \<open>@\<close> at \<open>i\<close> ends, and
  the next round starts one after it.
\<close>

function format_loop :: "byte list \<Rightarrow> u32 list \<Rightarrow> nat \<Rightarrow> nat \<Rightarrow> byte list option" where
  "format_loop s vals val i =
     (if i \<ge> length s then None
      else if s ! i = 0 then Some s
      else
        let j = i + length (takeWhile (\<lambda>c. c = at_sign) (drop i s))
        in if j \<ge> length s then None
           else if j \<noteq> i
           then if val \<ge> length vals then None
                else (case hex s i (j - i) (vals ! val) of
                        None \<Rightarrow> None
                      | Some s' \<Rightarrow> format_loop s' vals (val + 1) (j + 1))
           else format_loop s vals val (i + 1))"
  by pat_completeness auto
termination
  by (relation "measure (\<lambda>(s, vals, val, i). length s - i)") (auto dest: length_hex)

declare format_loop.simps [simp del]

definition format_hex :: "byte list \<Rightarrow> u32 list \<Rightarrow> byte list option" where
  "format_hex s vals = format_loop s vals 0 0"

text \<open>
  The characters \<open>print_hex\<close> writes: the array \<open>x\<close> of \<open>nchars\<close> characters after the copy and the
  formatting, \<open>junk\<close> being its contents before.
\<close>

definition print_hex :: "byte list \<Rightarrow> byte list \<Rightarrow> u32 list \<Rightarrow> byte list option" where
  "print_hex junk s vals = do { x \<leftarrow> strcpy_over junk s; format_hex x vals }"

text \<open>The digits of a value, and a string with its fields filled in, as a reference.\<close>

definition hex_digits :: "nat \<Rightarrow> u32 \<Rightarrow> byte list" where
  "hex_digits n v = map (\<lambda>i. hex_char (word_of_int (drop_bit (4 * (n - 1 - i)) (sint v)))) [0..<n]"

function fill :: "byte list \<Rightarrow> u32 list \<Rightarrow> byte list" where
  "fill [] vs = []"
| "fill (c # cs) vs =
     (if c \<noteq> at_sign then c # fill cs vs
      else let n = length (takeWhile (\<lambda>c. c = at_sign) (c # cs))
           in hex_digits n (hd vs) @ fill (drop n (c # cs)) (tl vs))"
  by pat_completeness auto
termination
  by (relation "measure (\<lambda>(cs, vs). length cs)") auto

text \<open>Each field is followed by another character, has at most 8 places and a value.\<close>

function fields_ok :: "byte list \<Rightarrow> u32 list \<Rightarrow> bool" where
  "fields_ok [] vs = True"
| "fields_ok (c # cs) vs =
     (if c \<noteq> at_sign then fields_ok cs vs
      else let n = length (takeWhile (\<lambda>c. c = at_sign) (c # cs))
           in n \<le> 8 \<and> vs \<noteq> [] \<and> drop n (c # cs) \<noteq> [] \<and> fields_ok (drop n (c # cs)) (tl vs))"
  by pat_completeness auto
termination
  by (relation "measure (\<lambda>(cs, vs). length cs)") auto

declare fill.simps [simp del] fields_ok.simps [simp del]

lemma hex_text:
  assumes "n \<le> 8" "0 < n" "length m = n"
  shows "hex (a @ m @ b) (length a) n v = Some (a @ hex_digits n v @ b)"
proof -
  have "fold (\<lambda>i s. s[length a + i := f i]) [0..<k] (a @ m @ b) = a @ map f [0..<k] @ drop k m @ b"
    if "k \<le> length m" for f :: "nat \<Rightarrow> byte" and k
    using that
  proof (induction k)
    case (Suc k)
    then show ?case by (simp add: list_update_append Cons_nth_drop_Suc [symmetric])
  qed simp
  from this [of n] show ?thesis using assms by (simp add: hex_def hex_digits_def)
qed

lemma length_hex_digits [simp]: "length (hex_digits n v) = n"
  by (simp add: hex_digits_def)

lemma takeWhile_run: "length (takeWhile (\<lambda>c. c = x) cs) = n \<Longrightarrow> take n cs = replicate n x"
proof -
  assume n: "length (takeWhile (\<lambda>c. c = x) cs) = n"
  have "replicate (length (takeWhile (\<lambda>c. c = x) cs)) x = takeWhile (\<lambda>c. c = x) cs"
    by (rule replicate_length_same) (auto dest: set_takeWhileD)
  then show ?thesis using takeWhile_eq_take [of "\<lambda>c. c = x" cs] by (simp add: n)
qed

lemma format_loop_field:
  assumes "i < length s" "s ! i \<noteq> 0" "length (takeWhile (\<lambda>c. c = at_sign) (drop i s)) = n" "0 < n"
    "i + n < length s" "val < length vals" "hex s i n (vals ! val) = Some s'"
  shows "format_loop s vals val i = format_loop s' vals (val + 1) (i + n + 1)"
  using assms by (subst format_loop.simps) (simp add: Let_def)

lemma format_loop_fill:
  assumes "fields_ok cs (drop val vals)" "cstring cs"
  shows "format_loop (pre @ cstr cs @ t) vals val (length pre) = Some (pre @ cstr (fill cs (drop val vals)) @ t)"
  using assms
proof (induction "length cs" arbitrary: cs pre val rule: less_induct)
  case less
  show ?case
  proof (cases cs)
    case Nil
    then show ?thesis by (subst format_loop.simps) (simp add: fill.simps cstr_def)
  next
    case (Cons c cs1)
    have c: "c \<noteq> 0" "cstring cs1" using less.prems(2) Cons by (simp_all add: cstring_def)
    show ?thesis
    proof (cases "c = at_sign")
      case False
      then have "fields_ok cs1 (drop val vals)" using less.prems(1) Cons by (simp add: fields_ok.simps)
      then have "format_loop ((pre @ [c]) @ cstr cs1 @ t) vals val (length (pre @ [c]))
          = Some ((pre @ [c]) @ cstr (fill cs1 (drop val vals)) @ t)"
        using less.hyps [of cs1 val "pre @ [c]"] c Cons by simp
      moreover have "format_loop (pre @ cstr cs @ t) vals val (length pre)
          = format_loop ((pre @ [c]) @ cstr cs1 @ t) vals val (length (pre @ [c]))"
        using False c Cons by (subst format_loop.simps) (simp add: cstr_def nth_append)
      ultimately show ?thesis using False Cons by (simp add: fill.simps cstr_def)
    next
      case True
      define n where "n = length (takeWhile (\<lambda>c. c = at_sign) cs)"
      have n: "0 < n" using Cons True by (simp add: n_def)
      have ok: "n \<le> 8" "drop val vals \<noteq> []" "drop n cs \<noteq> []" "fields_ok (drop n cs) (tl (drop val vals))"
        using less.prems(1) Cons True by (simp_all add: fields_ok.simps n_def Let_def)
      obtain d rest where d: "drop n cs = d # rest" using ok(3) by (cases "drop n cs") auto
      have cs: "cs = replicate n at_sign @ d # rest"
        using takeWhile_run [of at_sign cs n] append_take_drop_id [of n cs] d by (simp add: n_def)
      have nd: "d \<noteq> at_sign"
      proof
        assume "d = at_sign"
        then have "length (takeWhile (\<lambda>c. c = at_sign) cs) \<ge> n + 1" by (subst cs) (simp add: takeWhile_append)
        then show False by (simp add: n_def)
      qed
      have dz: "d \<noteq> 0" "cstring rest" using less.prems(2) cs by (auto simp: cstring_def)
      have len: "val < length vals" "hd (drop val vals) = vals ! val"
        using ok(2) by (simp_all add: hd_drop_conv_nth)
      have tl: "tl (drop val vals) = drop (val + 1) vals" by (simp add: drop_Suc tl_drop)
      have run: "length (takeWhile (\<lambda>c. c = at_sign) (cstr cs @ t)) = n"
        using nd by (subst cs) (simp add: cstr_def takeWhile_append)
      have cat: "pre @ cstr cs @ t = pre @ replicate n at_sign @ (d # cstr rest @ t)"
        by (subst cs) (simp add: cstr_def)
      have h: "hex (pre @ cstr cs @ t) (length pre) n (vals ! val)
          = Some ((pre @ hex_digits n (vals ! val) @ [d]) @ cstr rest @ t)"
        unfolding cat using hex_text [OF ok(1) n, of "replicate n at_sign" pre] by simp
      have "format_loop (pre @ cstr cs @ t) vals val (length pre)
          = format_loop ((pre @ hex_digits n (vals ! val) @ [d]) @ cstr rest @ t) vals (val + 1) (length pre + n + 1)"
      proof (rule format_loop_field [OF _ _ _ n _ len(1) h])
        show "(pre @ cstr cs @ t) ! length pre \<noteq> 0" using c(1) Cons by (simp add: cstr_def)
        show "length (takeWhile (\<lambda>c. c = at_sign) (drop (length pre) (pre @ cstr cs @ t))) = n" using run by simp
        have "length cs = n + 1 + length rest" using arg_cong [OF cs, of length] by simp
        then show "length pre < length (pre @ cstr cs @ t)" "length pre + n < length (pre @ cstr cs @ t)" by simp_all
      qed
      also have "\<dots> = Some ((pre @ hex_digits n (vals ! val) @ [d]) @ cstr (fill rest (drop (val + 1) vals)) @ t)"
      proof -
        have "fields_ok rest (drop (val + 1) vals)" using ok(4) d nd by (simp add: fields_ok.simps tl)
        then show ?thesis
          using less.hyps [of rest "val + 1" "pre @ hex_digits n (vals ! val) @ [d]"] arg_cong [OF cs, of length] dz(2)
          by (simp add: add.assoc)
      qed
      also have "fill cs (drop val vals) = hex_digits n (hd (drop val vals)) @ fill (drop n cs) (tl (drop val vals))"
        unfolding n_def using Cons True by (simp add: fill.simps Let_def)
      then have "fill cs (drop val vals) = hex_digits n (vals ! val) @ d # fill rest (drop (val + 1) vals)"
        using d nd len tl by (simp add: fill.simps)
      then have "(pre @ hex_digits n (vals ! val) @ [d]) @ cstr (fill rest (drop (val + 1) vals)) @ t
          = pre @ cstr (fill cs (drop val vals)) @ t" by (simp add: cstr_def)
      finally show ?thesis .
    qed
  qed
qed

text \<open>
  Formatting.  If every field of the string is followed by another character, has at most 8 places
  and a value, \<open>format_hex\<close> replaces each field by the digits of its value and nothing else.
\<close>

lemma format_hex_fills_fields:
  assumes "cstring s" "fields_ok s vals"
  shows "format_hex (cstr s @ t) vals = Some (cstr (fill s vals) @ t)"
  using format_loop_fill [of s 0 vals "[]" t] assms by (simp add: format_hex_def)

lemma format_hex_fills_fields_witness:
  "format_hex (cstr (chars ''abc @@:@@.'')) [23, 1] = Some (cstr (chars ''abc 17:01.''))"
proof -
  note [simp] = chars_def fields_ok.simps fill.simps hex_digits_def upt_rec [of _ 2] hex_char_def drop_bit_eq_div at_sign_def Let_def
  have "cstring (chars ''abc @@:@@.'')" by (simp add: cstring_def)
  moreover have "fields_ok (chars ''abc @@:@@.'') [23, 1]" by simp
  ultimately have "format_hex (cstr (chars ''abc @@:@@.'') @ []) [23, 1] = Some (cstr (fill (chars ''abc @@:@@.'') [23, 1]) @ [])"
    by (rule format_hex_fills_fields)
  moreover have "fill (chars ''abc @@:@@.'') [23, 1] = chars ''abc 17:01.''"
    by simp
  ultimately show ?thesis by simp
qed

lemma format_loop_skip:
  "cstring p \<Longrightarrow> at_sign \<notin> set p \<Longrightarrow>
   format_loop (pre @ p @ r) vals val (length pre) = format_loop (pre @ p @ r) vals val (length pre + length p)"
proof (induction p arbitrary: pre)
  case (Cons c p)
  have "c \<noteq> at_sign" using Cons.prems by auto
  then have "format_loop (pre @ (c # p) @ r) vals val (length pre) = format_loop (pre @ (c # p) @ r) vals val (length pre + 1)"
    using Cons.prems by (subst format_loop.simps) (simp add: cstring_def)
  also have "\<dots> = format_loop ((pre @ [c]) @ p @ r) vals val (length (pre @ [c]))" by simp
  also have "\<dots> = format_loop ((pre @ [c]) @ p @ r) vals val (length (pre @ [c]) + length p)"
    using Cons by (intro Cons.IH) (simp_all add: cstring_def)
  finally show ?case by simp
qed simp

text \<open>
  A field at the end of a string.  After a field the loop skips one character without looking at it,
  which is the terminator when the string ends there.  It then goes on with whatever follows in memory:
  past the end of the array if nothing does, and else the text found there is formatted as well.
\<close>

lemma format_hex_skips_terminator:
  assumes p: "cstring p" "at_sign \<notin> set p" and n: "0 < n" "n \<le> 8"
  shows "format_hex (cstr (p @ replicate n at_sign)) (v # vs) = None
    \<and> (cstring u \<longrightarrow> fields_ok u vs \<longrightarrow>
       format_hex (cstr (p @ replicate n at_sign) @ cstr u @ t) (v # vs)
         = Some (cstr (p @ hex_digits n v) @ cstr (fill u vs) @ t))"
proof -
  have step: "format_hex (cstr (p @ replicate n at_sign) @ r) (v # vs)
      = format_loop ((p @ hex_digits n v @ [0]) @ r) (v # vs) 1 (length (p @ hex_digits n v @ [0]))" for r
  proof -
    let ?s = "p @ replicate n at_sign @ [0] @ r"
    have "format_hex (cstr (p @ replicate n at_sign) @ r) (v # vs) = format_loop ?s (v # vs) 0 (length p)"
      using format_loop_skip [OF p, of "[]"] by (simp add: format_hex_def cstr_def)
    also have "\<dots> = format_loop (p @ hex_digits n v @ [0] @ r) (v # vs) (0 + 1) (length p + n + 1)"
    proof (rule format_loop_field [OF _ _ _ n(1)])
      obtain m where "n = Suc m" using n(1) by (cases n) auto
      then show "?s ! length p \<noteq> 0" by (simp add: at_sign_def)
      show "length (takeWhile (\<lambda>c. c = at_sign) (drop (length p) ?s)) = n"
        by (simp add: takeWhile_append at_sign_def)
      show "hex ?s (length p) n ((v # vs) ! 0) = Some (p @ hex_digits n v @ [0] @ r)"
        using hex_text [OF n(2,1), of "replicate n at_sign" p "[0] @ r" v] by simp
    qed simp_all
    finally show ?thesis by simp
  qed
  have "format_hex (cstr (p @ replicate n at_sign)) (v # vs) = None"
    using step [of "[]"] by (simp add: format_loop.simps [of "p @ hex_digits n v @ [0]"])
  moreover have "format_hex (cstr (p @ replicate n at_sign) @ cstr u @ t) (v # vs)
      = Some (cstr (p @ hex_digits n v) @ cstr (fill u vs) @ t)" if "cstring u" "fields_ok u vs"
    using step [of "cstr u @ t"] format_loop_fill [of u 1 "v # vs" "p @ hex_digits n v @ [0]" t] that
    by (simp add: cstr_def)
  ultimately show ?thesis by blast
qed

lemma format_hex_skips_terminator_witness:
  "format_hex (cstr (chars ''n=@@'')) [0x2A] = None
   \<and> format_hex (cstr (chars ''n=@@'') @ cstr (chars ''a'')) [0x2A] = Some (cstr (chars ''n=2A'') @ cstr (chars ''a''))"
proof -
  let ?n = "Suc (Suc 0)"
  have e: "chars ''n=@@'' = chars ''n='' @ replicate ?n at_sign" "chars ''n='' @ hex_digits ?n 0x2A = chars ''n=2A''"
    "fill (chars ''a'') [] = chars ''a''" "fields_ok (chars ''a'') []"
    by (simp_all add: chars_def at_sign_def hex_digits_def hex_char_def drop_bit_eq_div fill.simps fields_ok.simps)
  have "cstring (chars ''n='')" "at_sign \<notin> set (chars ''n='')" "cstring (chars ''a'')"
    by (simp_all add: cstring_def chars_def at_sign_def)
  from format_hex_skips_terminator [OF this(1,2), of ?n "0x2A" "[]" "chars ''a''" "[]"] this(3) show ?thesis
    unfolding e(1) by (simp add: e(2-4))
qed

end
