(* ===== verification/Terminal.thy ===== *)
theory Terminal
  imports User_Calls User_Text
begin

text \<open>
  The console, \<^verbatim>\<open>user/console.c\<close>, and what it shares with the shell: characters sent to and received
  from the second serial line, \<open>UART1\<close>, which these programs use without the kernel, and the string
  functions of the C library on the memory of the process.  A terminal session is the machine, the
  line, and the place where \<open>strtok\<close> goes on.  The process is followed while it runs; a result
  \<open>None\<close> inside a value means that control does not come back to it.
\<close>

record session =
  box :: machine
  uart1 :: "byte list uart"
  tok :: u32

abbreviation umem :: "session \<Rightarrow> u32 \<Rightarrow> byte" where
  "umem s \<equiv> mem (snd (box s))"

definition set_mem :: "(u32 \<Rightarrow> byte) \<Rightarrow> session \<Rightarrow> session" where
  "set_mem m s = s\<lparr>box := (fst (box s), (snd (box s))\<lparr>mem := m\<rparr>)\<rparr>"

definition sys :: "(machine \<Rightarrow> machine option) \<Rightarrow> session \<Rightarrow> (u32 \<times> session) option" where
  "sys f s = do { m \<leftarrow> f (box s); Some (result m, s\<lparr>box := m\<rparr>) }"

section \<open>The terminal\<close>

text \<open>\<open>x\<close> is the array of characters, of which \<open>n\<close> are sent.\<close>

definition puts :: "byte list \<Rightarrow> nat \<Rightarrow> session \<Rightarrow> session" where
  "puts x n s = s\<lparr>uart1 := put_all console (uart1 s) (take n x)\<rparr>"

text \<open>
  The loop of \<open>gets\<close> and \<open>xgets\<close>, with the number of characters before the line feed.  When the limit
  is reached no NUL is stored, and \<open>xgets\<close> ends without a \<open>return\<close>: its value is undefined (inner \<open>None\<close>).
  A line on which nothing arrives is waited for for ever (outer \<open>None\<close>).
\<close>

function gets_loop :: "u32 \<Rightarrow> int \<Rightarrow> int \<Rightarrow> session \<Rightarrow> (int option \<times> session) option" where
  "gets_loop x n i s =
     (if i < n then do {
        (c, u) \<leftarrow> PL011_getc (uart1 s);
        let a = x + word_of_int i;
        let s1 = set_mem ((umem s)(a := c)) (s\<lparr>uart1 := u\<rparr>);
        if c = 0x0A then Some (Some i, set_mem ((umem s1)(a := 0)) s1)
        else gets_loop x n (i + 1) s1
      }
      else Some (None, s))"
  by pat_completeness auto
termination
  by (relation "measure (\<lambda>(x, n, i, s). nat (n - i))") auto

declare gets_loop.simps [simp del]

definition gets :: "u32 \<Rightarrow> int \<Rightarrow> session \<Rightarrow> session option" where
  "gets x n s = map_option snd (gets_loop x n 0 s)"

section \<open>Strings of the C library\<close>

text \<open>\<open>strcmp(p, s) == 0\<close> for a constant string \<open>s\<close>, given without its NUL.\<close>

definition streq :: "(u32 \<Rightarrow> byte) \<Rightarrow> u32 \<Rightarrow> byte list \<Rightarrow> bool" where
  "streq m p s = (mem_bytes m p (length s + 1) = cstr s)"

partial_function (option) skip_spaces :: "(u32 \<Rightarrow> byte) \<Rightarrow> u32 \<Rightarrow> u32 option" where
  "skip_spaces m a = (if m a = 0x20 then skip_spaces m (a + 1) else Some a)"

partial_function (option) token_end :: "(u32 \<Rightarrow> byte) \<Rightarrow> u32 \<Rightarrow> u32 option" where
  "token_end m a = (if m a = 0 \<or> m a = 0x20 then Some a else token_end m (a + 1))"

text \<open>\<open>strtok(str, " ")\<close>; 0 is \<open>NULL\<close>.\<close>

definition strtok :: "u32 \<Rightarrow> session \<Rightarrow> (u32 \<times> session) option" where
  "strtok str s =
     (let p = (if str \<noteq> 0 then str else tok s)
      in if p = 0 then Some (0, s)
         else do {
           a \<leftarrow> skip_spaces (umem s) p;
           if umem s a = 0 then Some (0, s\<lparr>tok := 0\<rparr>)
           else do {
             e \<leftarrow> token_end (umem s) a;
             if umem s e = 0 then Some (a, s\<lparr>tok := 0\<rparr>)
             else Some (a, set_mem ((umem s)(e := 0)) (s\<lparr>tok := e + 1\<rparr>))
           }
         })"

text \<open>\<open>atoi(p)\<close>, which does not check for \<open>NULL\<close>.\<close>

definition atoi_at :: "u32 \<Rightarrow> session \<Rightarrow> u32 option" where
  "atoi_at p s = do { x \<leftarrow> cstr_at (umem s) p; v \<leftarrow> atoi x; Some (word_of_int v) }"

section \<open>The console\<close>

text \<open>The programs linked into the image; \<open>entry\<close> gives their addresses.\<close>

datatype program = Main_P1 | Main_P2 | Main_P3 | Main_P4 | Main_P5 | Main_semtest | Phil_spawner | Cat | Wc

definition load :: "(program \<Rightarrow> u32) \<Rightarrow> u32 \<Rightarrow> session \<Rightarrow> u32" where
  "load entry x s =
     (if streq (umem s) x (chars ''P3'') then entry Main_P3
      else if streq (umem s) x (chars ''P4'') then entry Main_P4
      else if streq (umem s) x (chars ''P5'') then entry Main_P5
      else 0)"

text \<open>
  \<open>console_child\<close> is the branch \<open>pid == 0\<close>, which the child takes when it is scheduled for the first
  time; \<open>exec\<close> does not come back.
\<close>

definition console_child :: "env \<Rightarrow> (program \<Rightarrow> u32) \<Rightarrow> session \<Rightarrow> session option" where
  "console_child E entry s = do {
     (a, s1) \<leftarrow> strtok 0 s;
     (r, s2) \<leftarrow> sys (exec E (load entry a s1)) s1;
     Some s2
   }"

text \<open>What follows the return of \<open>fork\<close> with the result \<open>r\<close>, in the parent and in the child.\<close>

definition console_forked :: "env \<Rightarrow> (program \<Rightarrow> u32) \<Rightarrow> u32 \<Rightarrow> session \<Rightarrow> (unit option \<times> session) option" where
  "console_forked E entry r s1 =
     (if r = 0 then do { s2 \<leftarrow> console_child E entry s1; Some (None, s2) } else Some (Some (), s1))"

definition console_execute :: "env \<Rightarrow> (program \<Rightarrow> u32) \<Rightarrow> session \<Rightarrow> (unit option \<times> session) option" where
  "console_execute E entry s = do {
     (r, s1) \<leftarrow> sys (fork E) s;
     console_forked E entry r s1
   }"

definition console_terminate :: "env \<Rightarrow> session \<Rightarrow> session option" where
  "console_terminate E s = do {
     (a, s1) \<leftarrow> strtok 0 s;
     pid \<leftarrow> atoi_at a s1;
     (b, s2) \<leftarrow> strtok 0 s1;
     x \<leftarrow> atoi_at b s2;
     (r, s3) \<leftarrow> sys (kill E pid x) s2;
     Some s3
   }"

text \<open>One round of the loop of \<open>main_console\<close>; \<open>x\<close> is the address of its array.\<close>

definition console_round :: "env \<Rightarrow> (program \<Rightarrow> u32) \<Rightarrow> u32 \<Rightarrow> session \<Rightarrow> (unit option \<times> session) option" where
  "console_round E entry x s = do {
     s1 \<leftarrow> gets x 1024 (puts (cstr (chars ''shell$ '')) 7 s);
     (p, s2) \<leftarrow> strtok x s1;
     if streq (umem s2) p (chars ''execute'') then console_execute E entry s2
     else if streq (umem s2) p (chars ''terminate'') then map_option (Pair (Some ())) (console_terminate E s2)
     else Some (Some (), puts (chars ''unknown command'' @ nl @ [0]) 16 s2)
   }"

text \<open>The first \<open>n\<close> rounds of the endless loop.\<close>

fun main_console :: "env \<Rightarrow> (program \<Rightarrow> u32) \<Rightarrow> u32 \<Rightarrow> nat \<Rightarrow> session \<Rightarrow> (unit option \<times> session) option" where
  "main_console E entry x 0 s = Some (Some (), s)"
| "main_console E entry x (Suc n) s = do {
     (r, s1) \<leftarrow> console_round E entry x s;
     case r of None \<Rightarrow> Some (None, s1) | Some _ \<Rightarrow> main_console E entry x n s1
   }"

section \<open>Text in memory\<close>

text \<open>The bytes \<open>bs\<close> are at \<open>a\<close>.\<close>

primrec holds :: "(u32 \<Rightarrow> byte) \<Rightarrow> u32 \<Rightarrow> byte list \<Rightarrow> bool" where
  "holds m a [] = True"
| "holds m a (b # bs) = (m a = b \<and> holds m (a + 1) bs)"

lemma holds_append: "holds m a (xs @ ys) \<longleftrightarrow> holds m a xs \<and> holds m (a + word_of_nat (length xs)) ys"
  by (induction xs arbitrary: a) (simp_all add: add.assoc)

lemma holds_nth: "holds m a bs \<longleftrightarrow> (\<forall>i < length bs. m (a + word_of_nat i) = bs ! i)"
proof (induction bs arbitrary: a)
  case (Cons b bs)
  show ?case by (simp add: Cons All_less_Suc2 add.assoc)
qed simp

lemma holds_mem_bytes: "mem_bytes m a (length bs) = bs \<longleftrightarrow> holds m a bs"
  by (subst list_eq_iff_nth_eq) (simp add: holds_nth mem_bytes_def)

lemma holds_put: "length bs \<le> 2 ^ 32 \<Longrightarrow> holds (mem_put a bs m) a bs"
  using mem_bytes_put [of bs a m] by (simp add: holds_mem_bytes)

lemma holds_put_front:
  assumes "length bs + length cs \<le> 2 ^ 32" "holds m a bs"
  shows "holds (mem_put (a + word_of_nat (length bs)) cs m) a bs"
  unfolding holds_nth
proof (intro allI impI)
  fix i assume i: "i < length bs"
  define j where "j = length bs - i"
  have j: "0 < j" "j + length cs \<le> 2 ^ 32" using i assms(1) by (simp_all add: j_def)
  have "(word_of_nat (length bs) :: u32) = word_of_nat j + word_of_nat i"
    using i by (simp add: j_def flip: of_nat_add)
  then have "a + word_of_nat i - (a + word_of_nat (length bs)) = - (word_of_nat j :: u32)" by simp
  moreover have "- (word_of_nat j :: u32) = word_of_nat (2 ^ 32 - j)" using j by (simp add: of_nat_diff)
  moreover have "length cs \<le> unat (word_of_nat (2 ^ 32 - j) :: u32)"
    using j unfolding unat_of_nat by simp
  ultimately show "mem_put (a + word_of_nat (length bs)) cs m (a + word_of_nat i) = bs ! i"
    using i assms by (simp only: mem_put_apply holds_nth) simp
qed

lemma holds_store:
  assumes "length xs + length ys < 2 ^ 32" "holds m a (xs @ c # ys)"
  shows "holds (m(a + word_of_nat (length xs) := d)) a (xs @ d # ys)"
  unfolding holds_nth
proof (intro allI impI)
  fix i assume i: "i < length (xs @ d # ys)"
  have "a + word_of_nat i = a + word_of_nat (length xs) \<longleftrightarrow> i = length xs"
    using i assms(1) by (auto simp: word_eq_iff_unsigned unat_of_nat dest: arg_cong [of _ _ unat])
  then show "(m(a + word_of_nat (length xs) := d)) (a + word_of_nat i) = (xs @ d # ys) ! i"
    using i assms(2) by (auto simp: holds_nth nth_append nth_Cons split: nat.splits)
qed

lemma cstr_at_holds: "\<lbrakk> holds m a (cstr w); cstring w \<rbrakk> \<Longrightarrow> cstr_at m a = Some w"
  by (induction w arbitrary: a; subst cstr_at.simps) (auto simp: cstr_def cstring_def)

lemma streq_holds: "\<lbrakk> holds m a (cstr w); cstring w; cstring v \<rbrakk> \<Longrightarrow> streq m a v \<longleftrightarrow> w = v"
proof -
  assume "holds m a (cstr w)" "cstring w" "cstring v"
  then have "holds m a (cstr v) \<longleftrightarrow> w = v" using cstr_at_holds [of m a w] cstr_at_holds [of m a v] by auto
  moreover have "streq m a v \<longleftrightarrow> holds m a (cstr v)"
    using holds_mem_bytes [of m a "cstr v"] by (simp add: streq_def cstr_def)
  ultimately show ?thesis by simp
qed

text \<open>A word, for \<open>strtok\<close>.\<close>

definition word :: "byte list \<Rightarrow> bool" where
  "word w \<longleftrightarrow> w \<noteq> [] \<and> 0 \<notin> set w \<and> 0x20 \<notin> set w"

lemma word_cstring: "word w \<Longrightarrow> cstring w"
  by (simp add: word_def cstring_def)

lemma skip_spaces_holds:
  "holds m a (replicate n 0x20 @ [c]) \<Longrightarrow> c \<noteq> 0x20 \<Longrightarrow> skip_spaces m a = Some (a + word_of_nat n)"
  by (induction n arbitrary: a; subst skip_spaces.simps) (auto simp: add.assoc)

lemma token_end_holds:
  "holds m a (w @ [c]) \<Longrightarrow> 0 \<notin> set w \<Longrightarrow> 0x20 \<notin> set w \<Longrightarrow> c = 0 \<or> c = 0x20 \<Longrightarrow>
   token_end m a = Some (a + word_of_nat (length w))"
  by (induction w arbitrary: a; subst token_end.simps) (auto simp: add.assoc)

section \<open>Reading a line and cutting it into words\<close>

lemma set_mem_sel [simp]:
  "umem (set_mem m s) = m" "uart1 (set_mem m s) = uart1 s" "tok (set_mem m s) = tok s"
  "fst (box (set_mem m s)) = fst (box s)" "set_mem m' (set_mem m s) = set_mem m' s" "set_mem (umem s) s = s"
  "set_mem m (s\<lparr>uart1 := u\<rparr>) = (set_mem m s)\<lparr>uart1 := u\<rparr>" "set_mem m (s\<lparr>tok := t\<rparr>) = (set_mem m s)\<lparr>tok := t\<rparr>"
  "(set_mem m s)\<lparr>box := b\<rparr> = s\<lparr>box := b\<rparr>"
  by (simp_all add: set_mem_def)

lemma gets_loop_line:
  "\<lbrakk> rx (uart1 s) = l @ 0x0A # rest; 0x0A \<notin> set l; i + int (length l) < n \<rbrakk> \<Longrightarrow>
   gets_loop x n i s = Some (Some (i + int (length l)),
     set_mem (mem_put (x + word_of_int i) (cstr l) (umem s)) (s\<lparr>uart1 := (uart1 s)\<lparr>rx := rest\<rparr>\<rparr>))"
proof (induction l arbitrary: i s)
  case Nil
  then show ?case by (subst gets_loop.simps) (simp add: PL011_getc_def Let_def cstr_def)
next
  case (Cons c l)
  let ?s = "set_mem ((umem s)(x + word_of_int i := c)) (s\<lparr>uart1 := (uart1 s)\<lparr>rx := l @ 0x0A # rest\<rparr>\<rparr>)"
  have "gets_loop x n i s = gets_loop x n (i + 1) ?s"
    using Cons.prems by (subst gets_loop.simps) (simp add: PL011_getc_def Let_def)
  also have "\<dots> = Some (Some (i + 1 + int (length l)),
      set_mem (mem_put (x + word_of_int (i + 1)) (cstr l) (umem ?s)) (?s\<lparr>uart1 := (uart1 ?s)\<lparr>rx := rest\<rparr>\<rparr>))"
    by (rule Cons.IH) (use Cons.prems in simp_all)
  finally show ?case by (simp add: cstr_def algebra_simps)
qed

lemma gets_line:
  "\<lbrakk> rx (uart1 s) = l @ 0x0A # rest; 0x0A \<notin> set l; int (length l) < n \<rbrakk> \<Longrightarrow>
   gets x n s = Some (set_mem (mem_put x (cstr l) (umem s)) (s\<lparr>uart1 := (uart1 s)\<lparr>rx := rest\<rparr>\<rparr>))"
  using gets_loop_line [of s l rest 0 n x] by (simp add: gets_def)

lemma word_head: "word w \<Longrightarrow> \<exists>b v. w = b # v \<and> b \<noteq> 0 \<and> b \<noteq> 0x20"
  by (cases w) (auto simp: word_def)

text \<open>The pointer from which \<open>strtok\<close> looks for the next word.\<close>

definition from_tok :: "u32 \<Rightarrow> session \<Rightarrow> u32" where
  "from_tok str s = (if str \<noteq> 0 then str else tok s)"

lemma strtok_scan:
  assumes "from_tok str s = p" "p \<noteq> 0" "holds (umem s) p (replicate n 0x20 @ w @ [c])" "word w" "c = 0 \<or> c = 0x20"
  shows "skip_spaces (umem s) p = Some (p + word_of_nat n)" "umem s (p + word_of_nat n) \<noteq> 0"
    "token_end (umem s) (p + word_of_nat n) = Some (p + word_of_nat n + word_of_nat (length w))"
    "umem s (p + word_of_nat n + word_of_nat (length w)) = c"
proof -
  obtain b v where w: "w = b # v" "b \<noteq> 0" "b \<noteq> 0x20" using word_head [OF assms(4)] by blast
  have "holds (umem s) p (replicate n 0x20 @ [b])" "holds (umem s) (p + word_of_nat n) (w @ [c])"
    using assms(3) w(1) by (simp_all add: holds_append)
  then show "skip_spaces (umem s) p = Some (p + word_of_nat n)" "umem s (p + word_of_nat n) \<noteq> 0"
    "token_end (umem s) (p + word_of_nat n) = Some (p + word_of_nat n + word_of_nat (length w))"
    "umem s (p + word_of_nat n + word_of_nat (length w)) = c"
    using skip_spaces_holds [of _ p n b] token_end_holds [of _ "p + word_of_nat n" w c] w assms(4,5)
    by (simp_all add: holds_append word_def add.assoc)
qed

lemma strtok_last:
  assumes "from_tok str s = p" "p \<noteq> 0" "holds (umem s) p (replicate n 0x20 @ w @ [0])" "word w"
  shows "strtok str s = Some (p + word_of_nat n, s\<lparr>tok := 0\<rparr>)"
  using strtok_scan [OF assms] assms(1,2) by (simp add: strtok_def from_tok_def [symmetric] Let_def)

lemma strtok_word:
  assumes "from_tok str s = p" "p \<noteq> 0" "holds (umem s) p (replicate n 0x20 @ w @ [0x20])" "word w"
  shows "strtok str s = Some (p + word_of_nat n,
    set_mem ((umem s)(p + word_of_nat n + word_of_nat (length w) := 0))
      (s\<lparr>tok := p + word_of_nat n + word_of_nat (length w) + 1\<rparr>))"
  using strtok_scan [OF assms] assms(1,2) by (simp add: strtok_def from_tok_def [symmetric] Let_def)

lemma strtok_none: "from_tok str s = 0 \<Longrightarrow> strtok str s = Some (0, s)"
  by (simp add: strtok_def from_tok_def [symmetric])

lemma strtok_blank:
  assumes "from_tok str s = p" "p \<noteq> 0" "holds (umem s) p (replicate n 0x20 @ [0])"
  shows "strtok str s = Some (0, s\<lparr>tok := 0\<rparr>)"
  using skip_spaces_holds [OF assms(3)] assms by (simp add: strtok_def from_tok_def [symmetric] Let_def holds_append)

section \<open>Constant strings\<close>

lemma unat_of_char: "unat (of_char c :: byte) = of_char c"
proof -
  have "(of_char c :: byte) = word_of_nat (of_char c)" by (simp only: of_nat_of_char)
  then show ?thesis by (simp only: unat_of_nat) simp
qed

lemma of_char_byte_eq: "(of_char c :: byte) = of_char d \<longleftrightarrow> c = d"
proof
  assume "(of_char c :: byte) = of_char d"
  then have "(of_char c :: nat) = of_char d" by (simp only: unat_of_char [symmetric])
  then show "c = d" by (simp only: of_char_eq_iff)
qed simp

lemma chars_eq_iff [simp]: "chars s = chars t \<longleftrightarrow> s = t"
  unfolding chars_def by (rule inj_map_eq_map) (simp add: inj_def of_char_byte_eq)

lemma byte_in_chars: "of_char c \<in> set (chars s) \<longleftrightarrow> c \<in> set s"
  by (induction s) (simp_all add: chars_def of_char_byte_eq)

lemma cstring_chars [simp]: "cstring (chars s) \<longleftrightarrow> CHR 0x00 \<notin> set s"
  using byte_in_chars [of "CHR 0x00" s] by (simp add: cstring_def)

lemma putc_console: "PL011_putc console u x = u\<lparr>peer := peer u @ [x]\<rparr>"
  by (simp add: PL011_putc_def console_def)

lemma put_all_console: "put_all console u xs = u\<lparr>peer := peer u @ xs\<rparr>"
proof (induction xs arbitrary: u)
  case (Cons x xs)
  show ?case by (simp add: put_all_Cons Cons putc_console)
qed simp

text \<open>A terminal at which \<open>xs\<close> has been typed.\<close>

definition typed :: "byte list \<Rightarrow> session" where
  "typed xs = \<lparr>box = (zero_ctx, sample_kernel), uart1 = \<lparr>rx = xs, peer = []\<rparr>, tok = 0\<rparr>"

section \<open>Programs from the console\<close>

lemma puts_sel [simp]:
  "box (puts t n s) = box s" "tok (puts t n s) = tok s" "rx (uart1 (puts t n s)) = rx (uart1 s)"
  "peer (uart1 (puts t n s)) = peer (uart1 s) @ take n t"
  by (simp_all add: puts_def put_all_console)

lemma sys_exec:
  "length (gpr (fst (box s))) = 13 \<Longrightarrow> \<exists>r s'. sys (exec E a) s = Some (r, s') \<and> pc (fst (box s')) = a
     \<and> sp (fst (box s')) = top_of (stack (cpcb (snd (box s)))) \<and> snd (box s') = snd (box s) \<and> uart1 s' = uart1 s"
  by (auto simp: sys_def user_calls call_numbers trap_def hilevel_handler_svc_def do_exec_def)

text \<open>
  What \<open>fork\<close> needs, for a child with the number \<open>i\<close> and a stack at \<open>stk\<close>: \<open>i\<close> is the first free entry,
  and it is not 0, because a child's number of 0 would send the parent into the branch of the child.
\<close>

definition can_fork :: "env \<Rightarrow> kstate \<Rightarrow> nat \<Rightarrow> u32 \<Rightarrow> bool" where
  "can_fork E k i stk \<longleftrightarrow> kernel_inv k \<and> process_exists k (cur k) \<and> fds_ok k
     \<and> 0 < i \<and> i < PCB_SIZE \<and> \<not> process_exists k i \<and> (\<forall>j < i. process_exists k j)
     \<and> stk = malloc_at E (heap k) STACK_BYTES \<and> stk \<noteq> 0 \<and> heap k stk = None"

lemma can_fork_mem: "can_fork E k i stk \<Longrightarrow> can_fork E (k\<lparr>mem := m\<rparr>) i stk"
  using kernel_inv_frame [of k "k\<lparr>mem := m\<rparr>"]
  by (auto simp: can_fork_def process_exists_def fds_ok_def load_fdte_def)

lemma sys_fork:
  assumes k: "can_fork E (snd (box s)) i stk" and c: "length (gpr (fst (box s))) = 13"
  obtains k' where "sys (fork E) s = Some (word_of_nat i, s\<lparr>box := (set_reg 0 (word_of_nat i) (fst (box s)), k')\<rparr>)"
    and "process_can_run k' i" "pid (pcbs k' ! i) = int i" "stack (pcbs k' ! i) = stk"
    and "pctx (pcbs k' ! i) = set_reg 0 0 ((fst (box s))\<lparr>sp := sp (fst (box s)) + (stk - stack (cpcb (snd (box s))))\<rparr>)"
    and "\<And>a. STACK_BYTES \<le> unat (a - stk) \<Longrightarrow> mem k' a = umem s a"
proof -
  let ?k = "snd (box s)" and ?c = "fst (box s)"
  have f: "kernel_inv ?k" "process_exists ?k (cur ?k)" "i < PCB_SIZE" "\<not> process_exists ?k i" "\<forall>j < i. process_exists ?k j"
      "stk = malloc_at E (heap ?k) STACK_BYTES" "stk \<noteq> 0" "heap ?k stk = None" "fds_ok ?k"
    using k unfolding can_fork_def by blast+
  obtain k' where k': "hilevel_handler_svc E 3 ?c ?k = Some (set_reg 0 (word_of_nat i) ?c, k')"
    "process_can_run k' i" "pid (pcbs k' ! i) = int i" "stack (pcbs k' ! i) = stk"
    "pctx (pcbs k' ! i) = set_reg 0 0 (?c\<lparr>sp := sp ?c + (stk - stack (cpcb ?k))\<rparr>)"
    "mem k' = mem_put stk (mem_bytes (mem ?k) (stack (cpcb ?k)) STACK_BYTES) (mem ?k)"
    using fork_result [OF f refl, of ?c] by (elim exE conjE) (rule that)
  have "load_regs [] ?c = ?c" by (simp add: load_regs_def)
  then have "sys (fork E) s = Some (word_of_nat i, s\<lparr>box := (set_reg 0 (word_of_nat i) ?c, k')\<rparr>)"
    using k'(1) c by (simp add: sys_def user_calls call_numbers trap_def result_def set_reg_def)
  moreover have "mem k' a = umem s a" if "STACK_BYTES \<le> unat (a - stk)" for a
    using that by (simp add: k'(6) mem_put_apply STACK_BYTES_def)
  ultimately show thesis using that k'(2-5) by blast
qed

text \<open>
  C29: Running a program from the console.  When the user types \<open>execute\<close> and a name, one round of the
  console prompts, reads the line and forks: the child's entry \<open>i\<close> is ready to run with a result of 0 and
  a stack of its own, and the console goes on to its next round.  The child goes on behind the \<open>fork\<close>
  when it is scheduled; provided that until then the rest of the line in the console's array and the
  pointer of \<open>strtok\<close> are as the fork left them (there is no memory protection, the parent runs on and
  reuses both), it starts the program of that name on its fresh stack; for a name the console does not
  know it jumps to address 0.  The line buffer lies outside the block the allocator hands out.
\<close>

theorem console_runs_program:
  assumes w: "word w" "0x0A \<notin> set w" "length w \<le> 1000" and x: "x \<noteq> 0" "unat x + 1024 < 2 ^ 32"
    and rx: "rx (uart1 s) = chars ''execute '' @ w @ 0x0A # rest"
    and k: "can_fork E (snd (box s)) i stk" "length (gpr (fst (box s))) = 13"
    and apart: "\<forall>j < 1024. STACK_BYTES \<le> unat (x + word_of_nat j - stk)"
  shows "\<exists>s' k'. console_round E entry x s = Some (Some (), s')
    \<and> box s' = (set_reg 0 (word_of_nat i) (fst (box s)), k')
    \<and> rx (uart1 s') = rest \<and> peer (uart1 s') = peer (uart1 s) @ chars ''shell$ ''
    \<and> process_can_run k' i \<and> pid (pcbs k' ! i) = int i \<and> stack (pcbs k' ! i) = stk
    \<and> pctx (pcbs k' ! i) = set_reg 0 0 ((fst (box s))\<lparr>sp := sp (fst (box s)) + (stk - stack (cpcb (snd (box s))))\<rparr>)
    \<and> (\<forall>c. fst (box c) = pctx (pcbs k' ! i) \<and> tok c = tok s'
          \<and> (\<forall>j < 1024. umem c (x + word_of_nat j) = umem s' (x + word_of_nat j)) \<longrightarrow>
        (\<exists>c'. console_forked E entry (result (box c)) c = Some (None, c')
          \<and> sp (fst (box c')) = top_of (stack (cpcb (snd (box c))))
          \<and> pc (fst (box c')) = (if w = chars ''P3'' then entry Main_P3 else if w = chars ''P4'' then entry Main_P4
              else if w = chars ''P5'' then entry Main_P5 else 0)))"
proof -
  let ?e = "chars ''execute''" and ?l = "chars ''execute '' @ w"
  have e: "chars ''execute '' = ?e @ [0x20]" "word ?e" "0x0A \<notin> set ?e" by (simp_all add: chars_def word_def)
  define s1 where "s1 = set_mem (mem_put x (cstr ?l) (umem s))
      (s\<lparr>uart1 := \<lparr>rx = rest, peer = peer (uart1 s) @ chars ''shell$ ''\<rparr>\<rparr>)"
  have "puts (cstr (chars ''shell$ '')) 7 s = s\<lparr>uart1 := \<lparr>rx = rx (uart1 s), peer = peer (uart1 s) @ chars ''shell$ ''\<rparr>\<rparr>"
    by (simp add: puts_def put_all_console cstr_def)
  moreover have "gets x 1024 \<dots> = Some s1"
    using gets_line [of _ ?l rest 1024 x] rx w e unfolding s1_def by simp
  ultimately have line: "gets x 1024 (puts (cstr (chars ''shell$ '')) 7 s) = Some s1" by simp
  have m1: "holds (umem s1) x (?e @ 0x20 # cstr w)"
    using holds_put [of "cstr ?l" x "umem s"] w e by (simp add: s1_def cstr_def)
  define p where "p = x + word_of_nat (length ?e) + 1"
  define m2 where "m2 = (umem s1)(x + word_of_nat (length ?e) := 0)"
  define s2 where "s2 = set_mem m2 (s1\<lparr>tok := p\<rparr>)"
  have first: "strtok x s1 = Some (x, s2)"
    using strtok_word [of x s1 x 0 ?e] m1 x(1) e(2) by (simp add: from_tok_def s2_def m2_def p_def holds_append)
  have "holds m2 x (?e @ 0 # cstr w)"
    using holds_store [of ?e "cstr w" "umem s1" x "0x20" 0] m1 w by (simp add: m2_def cstr_def)
  then have parts: "holds m2 x (cstr ?e)" "holds m2 p (w @ [0])"
    by (simp_all add: holds_append cstr_def p_def add_ac)
  have px: "p = x + 8" by (simp add: p_def chars_def)
  have p0: "p \<noteq> 0"
  proof -
    have "unat p = unat x + 8" using x(2) by (simp add: px unat_word_ariths)
    then show ?thesis by auto
  qed
  have round: "console_round E entry x s = console_execute E entry s2"
    unfolding console_round_def line using first streq_holds [of m2 x ?e ?e] parts(1) by (simp add: s2_def)
  have s2: "fst (box s2) = fst (box s)" "snd (box s2) = (snd (box s))\<lparr>mem := m2\<rparr>" "umem s2 = m2"
    by (simp_all add: s2_def s1_def set_mem_def)
  have "can_fork E (snd (box s2)) i stk" "length (gpr (fst (box s2))) = 13"
    using can_fork_mem [OF k(1)] k(2) s2 by simp_all
  then obtain k' where k': "sys (fork E) s2 = Some (word_of_nat i, s2\<lparr>box := (set_reg 0 (word_of_nat i) (fst (box s)), k')\<rparr>)"
    "process_can_run k' i" "pid (pcbs k' ! i) = int i" "stack (pcbs k' ! i) = stk"
    "pctx (pcbs k' ! i) = set_reg 0 0 ((fst (box s))\<lparr>sp := sp (fst (box s)) + (stk - stack (cpcb (snd (box s))))\<rparr>)"
    "\<And>a. STACK_BYTES \<le> unat (a - stk) \<Longrightarrow> mem k' a = m2 a"
    by (rule sys_fork [of E s2 i stk]) (simp add: s2)
  define s' where "s' = s2\<lparr>box := (set_reg 0 (word_of_nat i) (fst (box s)), k')\<rparr>"
  have "(word_of_nat i :: u32) \<noteq> 0"
  proof -
    have "unat (word_of_nat i :: u32) = i" using k(1) by (simp add: can_fork_def PCB_SIZE_def unat_of_nat)
    then show ?thesis using k(1) by (auto simp: can_fork_def)
  qed
  then have exec: "console_round E entry x s = Some (Some (), s')"
    using round k'(1) by (simp add: console_execute_def console_forked_def s'_def)
  have child: "\<exists>c'. console_forked E entry (result (box c)) c = Some (None, c')
          \<and> sp (fst (box c')) = top_of (stack (cpcb (snd (box c))))
          \<and> pc (fst (box c')) = (if w = chars ''P3'' then entry Main_P3 else if w = chars ''P4'' then entry Main_P4
              else if w = chars ''P5'' then entry Main_P5 else 0)"
    if c: "fst (box c) = pctx (pcbs k' ! i)" "tok c = tok s'" "\<forall>j < 1024. umem c (x + word_of_nat j) = umem s' (x + word_of_nat j)" for c
  proof -
    have g: "length (gpr (fst (box c))) = 13" "result (box c) = 0"
      using k(2) by (simp_all add: c(1) k'(5) set_reg_def result_def)
    have "umem c (p + word_of_nat j) = m2 (p + word_of_nat j)" if "j \<le> length w" for j
    proof -
      have j: "8 + j < 1024" "p + word_of_nat j = x + word_of_nat (8 + j)" using that w(3) by (simp_all add: px)
      then have "umem c (p + word_of_nat j) = mem k' (p + word_of_nat j)"
        using c(3) unfolding j(2) by (simp add: s'_def del: of_nat_add)
      also have "\<dots> = m2 (p + word_of_nat j)"
        unfolding j(2) by (rule k'(6)) (use apart j(1) in blast)
      finally show ?thesis .
    qed
    then have parts': "holds (umem c) p (w @ [0])" using parts(2) by (auto simp: holds_nth less_Suc_eq_le)
    have t: "strtok 0 c = Some (p, c\<lparr>tok := 0\<rparr>)"
      using strtok_last [of 0 c p 0 w] p0 w(1) parts' c(2) by (simp add: from_tok_def s2_def s'_def)
    have "streq (umem c) p (chars v) \<longleftrightarrow> w = chars v" if "CHR 0x00 \<notin> set v" for v
      using streq_holds [of "umem c" p w "chars v"] parts' word_cstring [OF w(1)] that by (simp add: cstr_def)
    then have "load entry p (c\<lparr>tok := 0\<rparr>) = (if w = chars ''P3'' then entry Main_P3 else if w = chars ''P4'' then entry Main_P4
              else if w = chars ''P5'' then entry Main_P5 else 0)"
      by (simp add: load_def)
    then show ?thesis
      using sys_exec [of "c\<lparr>tok := 0\<rparr>" E "load entry p (c\<lparr>tok := 0\<rparr>)"] t g by (auto simp: console_child_def console_forked_def)
  qed
  have "rx (uart1 s') = rest" "peer (uart1 s') = peer (uart1 s) @ chars ''shell$ ''"
    by (simp_all add: s'_def s2_def s1_def)
  then show ?thesis using exec child k'(2-5) by (intro exI [of _ s'] exI [of _ k']) (simp add: s'_def)
qed

lemma console_runs_program_witness:
  "\<exists>s' k'. console_round sample_env (\<lambda>_. 0x400) 0x00200000 (typed (chars ''execute P9'' @ nl)) = Some (Some (), s')
    \<and> box s' = (set_reg 0 2 zero_ctx, k') \<and> process_can_run k' 2
    \<and> (\<exists>c'. console_forked sample_env (\<lambda>_. 0x400) 0 (s'\<lparr>box := (pctx (pcbs k' ! 2), k')\<rparr>) = Some (None, c') \<and> pc (fst (box c')) = 0)"
proof -
  have n: "chars ''P9'' \<noteq> chars ''P3''" "chars ''P9'' \<noteq> chars ''P4''" "chars ''P9'' \<noteq> chars ''P5''" by simp_all
  have h: "heap sample_kernel = Map.empty" by (simp add: sample_kernel_def boot_kernel_def)
  have e: "process_exists sample_kernel j" if "j < 2" for j
    using that by (auto simp: sample_kernel_exists)
  have f: "can_fork sample_env sample_kernel 2 0x00100000"
    using sample_kernel_inv sample_kernel_fds(1) e
    by (simp add: can_fork_def PCB_SIZE_def sample_kernel_exists h STACK_BYTES_def)
  have "STACK_BYTES \<le> unat (0x00200000 + word_of_nat j - 0x00100000 :: u32)" if "j < 1024" for j
  proof -
    have "unat (word_of_nat j :: u32) = j" using that by (simp add: unat_of_nat)
    then have "unat (0x00100000 + word_of_nat j :: u32) = 0x00100000 + j" using that by (simp add: unat_word_ariths)
    then show ?thesis by (simp add: STACK_BYTES_def)
  qed
  then have a: "\<forall>j < 1024. STACK_BYTES \<le> unat (0x00200000 + word_of_nat j - 0x00100000 :: u32)" by blast
  have "rx (uart1 (typed (chars ''execute P9'' @ nl))) = chars ''execute '' @ chars ''P9'' @ 0x0A # []"
    by (simp add: typed_def chars_def nl_def)
  moreover have "word (chars ''P9'')" "0x0A \<notin> set (chars ''P9'')" "length (chars ''P9'') \<le> 1000"
    by (simp_all add: word_def chars_def)
  moreover have "box (typed xs) = (zero_ctx, sample_kernel)" for xs by (simp add: typed_def)
  ultimately obtain s' k' where r:
    "console_round sample_env (\<lambda>_. 0x400) 0x00200000 (typed (chars ''execute P9'' @ nl)) = Some (Some (), s')"
    "box s' = (set_reg 0 (word_of_nat 2) zero_ctx, k')" "process_can_run k' 2"
    "pctx (pcbs k' ! 2) = set_reg 0 0 (zero_ctx\<lparr>sp := sp zero_ctx + (0x00100000 - stack (cpcb sample_kernel))\<rparr>)"
    and child: "\<forall>c. fst (box c) = pctx (pcbs k' ! 2) \<and> tok c = tok s'
          \<and> (\<forall>j < 1024. umem c (0x00200000 + word_of_nat j) = umem s' (0x00200000 + word_of_nat j)) \<longrightarrow>
        (\<exists>c'. console_forked sample_env (\<lambda>_. 0x400) (result (box c)) c = Some (None, c')
          \<and> sp (fst (box c')) = top_of (stack (cpcb (snd (box c)))) \<and> pc (fst (box c')) = 0)"
    using console_runs_program [of "chars ''P9''" "0x00200000" "typed (chars ''execute P9'' @ nl)" "[]" sample_env 2 "0x00100000" "\<lambda>_. 0x400"]
      f a n by (fastforce simp: zero_ctx_def)
  have "result (pctx (pcbs k' ! 2), k') = 0" by (simp add: r(4) result_def set_reg_def zero_ctx_def)
  then show ?thesis
    using child [rule_format, of "s'\<lparr>box := (pctx (pcbs k' ! 2), k')\<rparr>"] r(1-3) by auto
qed

end
