(* ===== verification/Shell.thy ===== *)
theory Shell
  imports Terminal
begin

text \<open>
  The shell, \<^verbatim>\<open>user/sh.c\<close>: its own copies of \<open>puts\<close> and \<open>gets\<close>, the built-in commands, the table of
  programs, and the main loop with its three prompts.
\<close>

definition EXIT_SUCCESS :: u32 where "EXIT_SUCCESS = 0"
definition EXIT_FAILURE :: u32 where "EXIT_FAILURE = 1"
definition STDOUT_FILENO :: u32 where "STDOUT_FILENO = 1"
definition F_READ :: u8 where "F_READ = 1"
definition F_WRITE :: u8 where "F_WRITE = 2"
definition F_CREATE :: u8 where "F_CREATE = 4"

definition xputs :: "byte list \<Rightarrow> nat \<Rightarrow> session \<Rightarrow> session" where
  "xputs x n s = s\<lparr>uart1 := put_all console (uart1 s) (take n x)\<rparr>"

text \<open>The value is undefined (inner \<open>None\<close>) when the limit is reached.\<close>

definition xgets :: "u32 \<Rightarrow> int \<Rightarrow> session \<Rightarrow> (int option \<times> session) option" where
  "xgets x n s = gets_loop x n 0 s"

definition rep_op :: "u32 \<times> session \<Rightarrow> session" where
  "rep_op = (\<lambda>(outcome, s). xputs (cstr (if outcome \<noteq> 0 then chars ''Success'' @ nl else chars ''Failure'' @ nl)) 8 s)"

text \<open>A built-in command with a path, and one that prints the string a call stores at \<open>out\<close>.\<close>

definition path_tool :: "(u32 \<Rightarrow> machine \<Rightarrow> machine option) \<Rightarrow> session \<Rightarrow> session option" where
  "path_tool f s = do {
     (p, s1) \<leftarrow> strtok 0 s;
     map_option rep_op (sys (f p) s1)
   }"

definition show_out :: "u32 \<Rightarrow> u32 \<times> session \<Rightarrow> session" where
  "show_out out = (\<lambda>(b, s).
     if b \<noteq> 0 then s\<lparr>uart1 := put_all console (uart1 s) (takeWhile (\<lambda>c. c \<noteq> 0) (mem_bytes (umem s) out 256))\<rparr>
     else xputs (cstr (chars ''Failure'' @ nl)) 8 s)"

definition number_tool :: "(u32 \<Rightarrow> u32 \<Rightarrow> machine \<Rightarrow> machine option) \<Rightarrow> session \<Rightarrow> session option" where
  "number_tool f s = do {
     (a, s1) \<leftarrow> strtok 0 s;
     pid \<leftarrow> atoi_at a s1;
     (b, s2) \<leftarrow> strtok 0 s1;
     x \<leftarrow> atoi_at b s2;
     map_option snd (sys (f pid x) s2)
   }"

text \<open>
  \<open>out\<close> is the address of the local array of \<open>ls\<close> and \<open>getwd\<close>.  The value is whether the command was
  one of these; \<open>None\<close> after \<open>exit\<close>.
\<close>

definition xtool :: "env \<Rightarrow> u32 \<Rightarrow> u32 \<Rightarrow> session \<Rightarrow> (bool option \<times> session) option" where
  "xtool E out cmd s =
     (if streq (umem s) cmd (chars ''exit'')
      then do { (r, s1) \<leftarrow> sys (exit E EXIT_SUCCESS) s; Some (None, s1) }
      else do {
        (p, s) \<leftarrow> strtok cmd s;
        let is = (\<lambda>w. streq (umem s) cmd (chars w));
        let done = map_option (Pair (Some True));
        if is ''cd'' then done (path_tool (cd E) s)
        else if is ''rm'' then done (path_tool (rm E) s)
        else if is ''mkfile'' then done (path_tool (mkfile E) s)
        else if is ''mkdir'' then done (path_tool (mkdir E) s)
        else if is ''isfile'' then done (path_tool (isfile E) s)
        else if is ''isdir'' then done (path_tool (isdir E) s)
        else if is ''ls'' then done (do {
          (q, s1) \<leftarrow> strtok 0 s;
          map_option (show_out out) (sys (ls E q out 256) s1)
        })
        else if is ''getwd'' then done (map_option (show_out out) (sys (getwd E out 256) s))
        else if is ''kill'' then done (number_tool (kill E) s)
        else if is ''setp'' then done (number_tool (nice E) s)
        else Some (Some False, s)
      })"

definition xload :: "(program \<Rightarrow> u32) \<Rightarrow> u32 \<Rightarrow> session \<Rightarrow> u32" where
  "xload entry cmd s =
     (let is = (\<lambda>w. streq (umem s) cmd (chars w))
      in if is ''cat'' then entry Cat
         else if is ''wc'' then entry Wc
         else if is ''P3'' then entry Main_P3
         else if is ''P4'' then entry Main_P4
         else if is ''P5'' then entry Main_P5
         else if is ''phil'' then entry Phil_spawner
         else if is ''sem'' then entry Main_semtest
         else if is ''P1'' then entry Main_P1
         else if is ''P2'' then entry Main_P2
         else 0)"

text \<open>
  What the child of \<open>xaction\<close> does, up to the call that replaces its program.  \<open>exit\<close> and \<open>exec\<close> do not
  come back.
\<close>

definition xaction_child :: "env \<Rightarrow> u32 \<Rightarrow> u32 \<Rightarrow> u32 \<Rightarrow> session \<Rightarrow> session option" where
  "xaction_child E addr argp out s = do {
     (ok, s1) \<leftarrow>
       (if umem s out \<noteq> 0 then do {
          (f, s1) \<leftarrow> sys (open_call E out (F_WRITE OR F_CREATE)) s;
          if f = -1 then do { (r, s2) \<leftarrow> sys (exit E EXIT_FAILURE) s1; Some (False, s2) }
          else do { (r, s2) \<leftarrow> sys (fd_swap E STDOUT_FILENO f) s1; Some (True, s2) }
        }
        else Some (True, s));
     if \<not> ok then Some s1
     else if umem s1 argp = 0 then map_option snd (sys (exec E addr) s1)
     else map_option snd (sys (execx E addr argp) s1)
   }"

definition xaction ::
    "env \<Rightarrow> (program \<Rightarrow> u32) \<Rightarrow> u32 \<Rightarrow> u32 \<Rightarrow> u32 \<Rightarrow> session \<Rightarrow> (unit option \<times> session) option" where
  "xaction E entry cmd argp out s =
     (let addr = xload entry cmd s
      in if addr = 0 then Some (Some (), xputs (cstr (chars ''Unrecognised command.'' @ nl)) 22 s)
         else do {
           (pid, s1) \<leftarrow> sys (fork E) s;
           if pid = 0 then do { s2 \<leftarrow> xaction_child E addr argp out s1; Some (None, s2) }
           else Some (Some (), s1)
         })"

text \<open>
  The second half of a round of \<open>sh_main\<close>, for a command that is not built in: it asks for the argument
  and the output and starts the program.  \<open>lim\<close> is the length of the command.
\<close>

definition ask_args :: "u32 \<Rightarrow> int \<Rightarrow> session \<Rightarrow> ((u32 \<times> u32) \<times> session) option" where
  "ask_args x lim s = do {
     let argp = x + word_of_int lim + 1;
     (r, s1) \<leftarrow> xgets argp (1024 - lim) (xputs (cstr (chars '' Args: '')) 7 s);
     l \<leftarrow> r;
     let out = x + word_of_int (lim + l) + 1;
     (r2, s2) \<leftarrow> xgets out (1024 - (lim + l)) (xputs (cstr (chars '' Write to: '')) 11 s1);
     Some ((argp, out), s2)
   }"

definition sh_round ::
    "env \<Rightarrow> (program \<Rightarrow> u32) \<Rightarrow> u32 \<Rightarrow> u32 \<Rightarrow> session \<Rightarrow> (unit option \<times> session) option" where
  "sh_round E entry locals x s = do {
     (r, s1) \<leftarrow> xgets x 1024 (xputs (cstr (chars ''xsh$ '')) 5 s);
     lim \<leftarrow> r;
     (b, s2) \<leftarrow> xtool E locals x s1;
     case b of
       None \<Rightarrow> Some (None, s2)
     | Some True \<Rightarrow> Some (Some (), s2)
     | Some False \<Rightarrow> do {
         ((argp, out), s3) \<leftarrow> ask_args x lim s2;
         xaction E entry x argp out s3
       }
   }"

text \<open>The first \<open>n\<close> rounds of the endless loop.\<close>

fun sh_main :: "env \<Rightarrow> (program \<Rightarrow> u32) \<Rightarrow> u32 \<Rightarrow> u32 \<Rightarrow> nat \<Rightarrow> session \<Rightarrow> (unit option \<times> session) option" where
  "sh_main E entry locals x 0 s = Some (Some (), s)"
| "sh_main E entry locals x (Suc n) s = do {
     (r, s1) \<leftarrow> sh_round E entry locals x s;
     case r of None \<Rightarrow> Some (None, s1) | Some _ \<Rightarrow> sh_main E entry locals x n s1
   }"

section \<open>Commands on paths\<close>

lemma xputs_sel [simp]:
  "box (xputs t n s) = box s" "tok (xputs t n s) = tok s" "rx (uart1 (xputs t n s)) = rx (uart1 s)"
  "peer (uart1 (xputs t n s)) = peer (uart1 s) @ take n t"
  by (simp_all add: xputs_def put_all_console)

text \<open>The built-in commands on a path, and the library functions they call.\<close>

definition path_tools :: "env \<Rightarrow> (string \<times> (u32 \<Rightarrow> machine \<Rightarrow> machine option)) list" where
  "path_tools E = [(''cd'', cd E), (''rm'', rm E), (''mkfile'', mkfile E), (''mkdir'', mkdir E),
     (''isfile'', isfile E), (''isdir'', isdir E)]"

lemma path_tools_name: "(nm, f) \<in> set (path_tools E) \<Longrightarrow> word (chars nm) \<and> length nm \<le> 6"
  by (auto simp: path_tools_def word_def chars_def)

lemma cstr_parts: "holds m a (xs @ 0 # ys) \<Longrightarrow> holds m a (cstr xs) \<and> holds m (a + word_of_nat (length xs) + 1) ys"
  by (simp add: holds_append cstr_def)

lemma map_bind_option: "map_option g (Option.bind v h) = Option.bind v (\<lambda>y. map_option g (h y))"
  by (cases v) simp_all

lemma xtool_path:
  assumes f: "(nm, f) \<in> set (path_tools E)" and w: "word w"
    and m: "holds (umem s) x (chars nm @ 0x20 # cstr w)" "x \<noteq> 0"
    and len: "unat x + length nm + length w + 2 < 2 ^ 32"
  defines "m' \<equiv> (umem s)(x + word_of_nat (length nm) := 0)" and "p \<equiv> x + word_of_nat (length nm) + 1"
  shows "cstr_at m' p = Some w"
    "xtool E out x s = do {
       m \<leftarrow> f p (fst (box s), (snd (box s))\<lparr>mem := m'\<rparr>);
       Some (Some True, rep_op (result m, s\<lparr>box := m, tok := 0\<rparr>))
     }"
proof -
  have nm: "word (chars nm)" "cstring (chars nm)" and len_name: "length nm \<le> 6"
    using path_tools_name [OF f] word_cstring by blast+
  have holds': "holds m' x (chars nm @ 0 # cstr w)"
    using holds_store [of "chars nm" "cstr w" "umem s" x "0x20" 0] m(1) len by (simp add: m'_def cstr_def)
  note parts = cstr_parts [OF holds', folded p_def, simplified]
  show "cstr_at m' p = Some w" using cstr_at_holds [of m' p w] parts word_cstring [OF w] by (simp add: p_def)
  have "unat (word_of_nat (length nm) :: u32) = length nm" using len_name by (simp add: unat_of_nat)
  then have "unat p = unat x + length nm + 1" using len by (simp add: p_def unat_word_ariths)
  then have p0: "p \<noteq> 0" by auto
  have "cstring (chars nm @ 0x20 # w)" using nm(2) word_cstring [OF w] by (simp add: cstring_def)
  moreover have "holds (umem s) x (cstr (chars nm @ 0x20 # w))" using m(1) by (simp add: cstr_def)
  moreover have "chars nm @ 0x20 # w \<noteq> chars ''exit''"
  proof
    assume "chars nm @ 0x20 # w = chars ''exit''"
    then have "0x20 \<in> set (chars ''exit'')" by (metis in_set_conv_decomp)
    then show False by (simp add: chars_def)
  qed
  ultimately have not_exit: "\<not> streq (umem s) x (chars ''exit'')" by (simp add: streq_holds)
  let ?s1 = "set_mem m' (s\<lparr>tok := p\<rparr>)" and ?s2 = "set_mem m' (s\<lparr>tok := 0\<rparr>)"
  have first: "strtok x s = Some (x, ?s1)"
    using strtok_word [of x s x 0 "chars nm"] m nm(1) by (simp add: from_tok_def m'_def p_def holds_append)
  have rest: "strtok 0 ?s1 = Some (p, ?s2)"
    using strtok_last [of 0 ?s1 p 0 w] p0 w parts by (simp add: from_tok_def p_def cstr_def)
  have is_name: "streq m' x (chars v) \<longleftrightarrow> nm = v" if "CHR 0x00 \<notin> set v" for v
    using streq_holds [of m' x "chars nm" "chars v"] parts nm that by simp
  have box: "box (set_mem m' s) = (fst (box s), (snd (box s))\<lparr>mem := m'\<rparr>)" "(set_mem m' s)\<lparr>tok := 0, box := b\<rparr> = s\<lparr>box := b, tok := 0\<rparr>" for b
    by (simp_all add: set_mem_def)
  have "path_tool g ?s1 = do { m \<leftarrow> g p (fst (box s), (snd (box s))\<lparr>mem := m'\<rparr>);
      Some (rep_op (result m, s\<lparr>box := m, tok := 0\<rparr>)) }" for g
    unfolding path_tool_def rest
    by (cases "g p (fst (box s), (snd (box s))\<lparr>mem := m'\<rparr>)") (simp_all add: sys_def box)
  then show "xtool E out x s = do {
       m \<leftarrow> f p (fst (box s), (snd (box s))\<lparr>mem := m'\<rparr>);
       Some (Some True, rep_op (result m, s\<lparr>box := m, tok := 0\<rparr>))
     }"
    using f unfolding xtool_def if_not_P [OF not_exit] first
    by (auto simp: path_tools_def is_name map_bind_option)
qed

lemma xgets_line:
  "\<lbrakk> rx (uart1 s) = l @ 0x0A # rest; 0x0A \<notin> set l; int (length l) < n \<rbrakk> \<Longrightarrow>
   xgets x n s = Some (Some (int (length l)), set_mem (mem_put x (cstr l) (umem s)) (s\<lparr>uart1 := (uart1 s)\<lparr>rx := rest\<rparr>\<rparr>))"
  using gets_loop_line [of s l rest 0 n x] by (simp add: xgets_def)

text \<open>
  C28: The path commands of the shell.  When the user types \<open>cd\<close>, \<open>rm\<close>, \<open>mkfile\<close>, \<open>mkdir\<close>, \<open>isfile\<close> or
  \<open>isdir\<close> and a path, one round of the shell prompts, makes the system call of the command with a
  pointer to exactly the path typed, reports success or failure as the call answers, and goes on with
  the rest of the input.
\<close>

theorem shell_path_command:
  assumes f: "(nm, f) \<in> set (path_tools E)" and w: "word w" "0x0A \<notin> set w" "length w \<le> 1000"
    and x: "x \<noteq> 0" "unat x + 1024 < 2 ^ 32" and rx: "rx (uart1 s) = chars nm @ 0x20 # w @ 0x0A # rest"
  shows "\<exists>m' p. cstr_at m' p = Some w \<and> sh_round E entry out x s = do {
      m \<leftarrow> f p (fst (box s), (snd (box s))\<lparr>mem := m'\<rparr>);
      Some (Some (), \<lparr>box = m,
        uart1 = \<lparr>rx = rest, peer = peer (uart1 s) @ chars ''xsh$ ''
           @ (if result m \<noteq> 0 then chars ''Success'' else chars ''Failure'') @ nl\<rparr>, tok = 0\<rparr>)
    }"
proof -
  let ?l = "chars nm @ 0x20 # w"
  have nm: "word (chars nm)" "length nm \<le> 6" "0x0A \<notin> set (chars nm)"
    using path_tools_name [OF f] f by (auto simp: path_tools_def chars_def)
  define s1 where "s1 = set_mem (mem_put x (cstr ?l) (umem s))
      (s\<lparr>uart1 := \<lparr>rx = rest, peer = peer (uart1 s) @ chars ''xsh$ ''\<rparr>\<rparr>)"
  have "xputs (cstr (chars ''xsh$ '')) 5 s = s\<lparr>uart1 := \<lparr>rx = rx (uart1 s), peer = peer (uart1 s) @ chars ''xsh$ ''\<rparr>\<rparr>"
    by (simp add: xputs_def put_all_console cstr_def)
  moreover have "xgets x 1024 \<dots> = Some (Some (int (length ?l)), s1)"
    using xgets_line [of _ ?l rest 1024 x] rx w nm unfolding s1_def by simp
  ultimately have line: "xgets x 1024 (xputs (cstr (chars ''xsh$ '')) 5 s) = Some (Some (int (length ?l)), s1)"
    by simp
  have "holds (umem s1) x (chars nm @ 0x20 # cstr w)"
    using holds_put [of "cstr ?l" x "umem s"] w nm by (simp add: s1_def cstr_def)
  note t = xtool_path [OF f w(1) this x(1)]
  have len: "unat x + length nm + length w + 2 < 2 ^ 32" using x w nm by simp
  let ?m' = "(umem s1)(x + word_of_nat (length nm) := 0)" and ?p = "x + word_of_nat (length nm) + 1"
  have "sh_round E entry out x s = do {
      m \<leftarrow> f ?p (fst (box s1), (snd (box s1))\<lparr>mem := ?m'\<rparr>);
      Some (Some (), rep_op (result m, s1\<lparr>box := m, tok := 0\<rparr>)) }"
    unfolding sh_round_def line using t(2) [OF len]
    by (cases "f ?p (fst (box s1), (snd (box s1))\<lparr>mem := ?m'\<rparr>)") simp_all
  moreover have "rep_op (result m, s1\<lparr>box := m, tok := 0\<rparr>) = \<lparr>box = m, uart1 = \<lparr>rx = rest, peer = peer (uart1 s) @ chars ''xsh$ ''
           @ (if result m \<noteq> 0 then chars ''Success'' else chars ''Failure'') @ nl\<rparr>, tok = 0\<rparr>" for m
    by (simp add: rep_op_def s1_def xputs_def put_all_console cstr_def nl_def)
  moreover have "(fst (box s1), (snd (box s1))\<lparr>mem := ?m'\<rparr>) = (fst (box s), (snd (box s))\<lparr>mem := ?m'\<rparr>)"
    by (simp add: s1_def set_mem_def)
  ultimately show ?thesis using t(1) [OF len] by (intro exI [of _ ?m'] exI [of _ ?p] conjI) simp_all
qed

lemma shell_path_command_witness:
  "\<exists>m' p. cstr_at m' p = Some [0x64] \<and> sh_round sample_env (\<lambda>_. 0x400) 0x9000 0x8000 (typed (chars ''cd d'' @ nl)) = do {
      m \<leftarrow> cd sample_env p (zero_ctx, sample_kernel\<lparr>mem := m'\<rparr>);
      Some (Some (), \<lparr>box = m, uart1 = \<lparr>rx = [], peer = chars ''xsh$ ''
           @ (if result m \<noteq> 0 then chars ''Success'' else chars ''Failure'') @ nl\<rparr>, tok = 0\<rparr>)
    }"
  using shell_path_command [of "''cd''" "cd sample_env" sample_env "[0x64]" "0x8000" "typed (chars ''cd d'' @ nl)" "[]"
      "\<lambda>_. 0x400" "0x9000"]
  by (simp add: path_tools_def word_def typed_def chars_def nl_def)

section \<open>Programs\<close>

definition builtins :: "string set" where
  "builtins = {''exit'', ''cd'', ''rm'', ''mkfile'', ''mkdir'', ''isfile'', ''isdir'', ''ls'', ''getwd'', ''kill'', ''setp''}"

lemma xtool_other:
  assumes "holds (umem s) x (cstr w)" "x \<noteq> 0" "word w" "w \<notin> chars ` builtins"
  shows "xtool E out x s = Some (Some False, s\<lparr>tok := 0\<rparr>)"
proof -
  have is_name: "streq (umem s) x (chars v) \<longleftrightarrow> w = chars v" if "CHR 0x00 \<notin> set v" for v
    using streq_holds [of "umem s" x w "chars v"] assms(1) word_cstring [OF assms(3)] that by simp
  have "strtok x s = Some (x, s\<lparr>tok := 0\<rparr>)"
    using strtok_last [of x s x 0 w] assms by (simp add: from_tok_def cstr_def)
  then show ?thesis using assms(4) by (simp add: xtool_def is_name builtins_def)
qed

lemma ask_args_lines:
  assumes m: "holds (umem s) x (cstr w)" and rx: "rx (uart1 s) = a @ 0x0A # b @ 0x0A # rest"
    and ab: "0x0A \<notin> set a" "0x0A \<notin> set b" and len: "length w + length a + length b \<le> 1000"
  shows "\<exists>s' argp outp. ask_args x (int (length w)) s = Some ((argp, outp), s')
    \<and> holds (umem s') x (cstr w) \<and> holds (umem s') argp (a @ cstr b) \<and> holds (umem s') outp (cstr b)
    \<and> rx (uart1 s') = rest \<and> peer (uart1 s') = peer (uart1 s) @ chars '' Args:  Write to: ''
    \<and> set_mem (umem s) s'\<lparr>uart1 := uart1 s\<rparr> = s"
proof -
  let ?w = "cstr w"
  define argp where "argp = x + word_of_nat (length ?w)"
  define outp where "outp = argp + word_of_nat (length a)"
  define m1 where "m1 = mem_put argp (cstr a) (umem s)"
  define m2 where "m2 = mem_put outp (cstr b) m1"
  define s2 where "s2 = set_mem m2 (s\<lparr>uart1 := \<lparr>rx = rest, peer = peer (uart1 s) @ chars '' Args:  Write to: ''\<rparr>\<rparr>)"
  have "holds m1 x ?w" using holds_put_front [of ?w "cstr a" "umem s" x] m len by (simp add: m1_def argp_def cstr_def)
  moreover have "holds m1 argp (cstr a)" using len unfolding m1_def by (intro holds_put) (simp add: cstr_def)
  ultimately have h1: "holds m1 x (?w @ a)" "holds m1 argp a" by (simp_all add: holds_append argp_def cstr_def add_ac)
  have out: "outp = x + word_of_nat (length (?w @ a))" by (simp add: outp_def argp_def)
  have "holds m2 x (?w @ a)"
    using holds_put_front [OF _ h1(1), of "cstr b"] len by (simp add: m2_def out cstr_def)
  moreover have "holds m2 argp a"
    using holds_put_front [OF _ h1(2), of "cstr b"] len by (simp add: m2_def outp_def cstr_def)
  moreover have "holds m2 outp (cstr b)" using len unfolding m2_def by (intro holds_put) (simp add: cstr_def)
  ultimately have "holds m2 x ?w" "holds m2 argp (a @ cstr b)" "holds m2 outp (cstr b)"
    by (simp_all add: holds_append outp_def)
  moreover have "ask_args x (int (length w)) s = Some ((argp, outp), s2)"
  proof -
    let ?t = "xputs (cstr (chars '' Args: '')) 7 s"
    let ?u = "set_mem m1 (?t\<lparr>uart1 := (uart1 ?t)\<lparr>rx := b @ 0x0A # rest\<rparr>\<rparr>)"
    let ?v = "xputs (cstr (chars '' Write to: '')) 11 ?u"
    have p: "x + word_of_nat (length w) + 1 = argp" "x + (word_of_nat (length w) + word_of_nat (length a)) + 1 = outp"
      by (simp_all add: argp_def outp_def cstr_def)
    have "umem ?t = umem s" "umem ?v = m1" by simp_all
    then have "xgets argp (1024 - int (length w)) ?t = Some (Some (int (length a)), ?u)"
      "xgets outp (1024 - (int (length w) + int (length a))) ?v = Some (Some (int (length b)), set_mem m2 (?v\<lparr>uart1 := (uart1 ?v)\<lparr>rx := rest\<rparr>\<rparr>))"
      using xgets_line [of ?t a "b @ 0x0A # rest" "1024 - int (length w)" argp] xgets_line [of ?v b rest _ outp] rx ab len
      by (simp_all add: m1_def m2_def)
    moreover have "set_mem m2 (?v\<lparr>uart1 := (uart1 ?v)\<lparr>rx := rest\<rparr>\<rparr>) = s2"
      by (simp add: s2_def xputs_def put_all_console cstr_def set_mem_def chars_def)
    ultimately show ?thesis by (simp add: ask_args_def p Let_def)
  qed
  ultimately show ?thesis by (intro exI [of _ s2] exI [of _ argp] exI [of _ outp]) (simp add: s2_def set_mem_def)
qed

text \<open>
  C30: Running a program from the shell.  For a word that is not built in, the shell asks for an argument
  and for a file to write to and starts the program with the command intact and the output name as
  typed; but as it places the output name at the terminator of the argument, the argument the program
  sees is the argument typed followed by the output name: it is right exactly when no output is given.
\<close>

theorem shell_argument_absorbs_output:
  assumes w: "word w" "0x0A \<notin> set w" "w \<notin> chars ` builtins" and ab: "0x0A \<notin> set a" "0x0A \<notin> set b" "cstring a" "cstring b"
    and len: "length w + length a + length b \<le> 1000" and x: "x \<noteq> 0"
    and rx: "rx (uart1 s) = w @ 0x0A # a @ 0x0A # b @ 0x0A # rest"
  shows "\<exists>s' argp outp. sh_round E entry out x s = xaction E entry x argp outp s'
    \<and> cstr_at (umem s') x = Some w \<and> cstr_at (umem s') outp = Some b \<and> cstr_at (umem s') argp = Some (a @ b)
    \<and> rx (uart1 s') = rest \<and> peer (uart1 s') = peer (uart1 s) @ chars ''xsh$  Args:  Write to: ''"
proof -
  define s1 where "s1 = set_mem (mem_put x (cstr w) (umem s))
      (s\<lparr>uart1 := \<lparr>rx = a @ 0x0A # b @ 0x0A # rest, peer = peer (uart1 s) @ chars ''xsh$ ''\<rparr>\<rparr>)"
  have "xputs (cstr (chars ''xsh$ '')) 5 s = s\<lparr>uart1 := \<lparr>rx = rx (uart1 s), peer = peer (uart1 s) @ chars ''xsh$ ''\<rparr>\<rparr>"
    by (simp add: xputs_def put_all_console cstr_def)
  moreover have "xgets x 1024 \<dots> = Some (Some (int (length w)), s1)"
    using xgets_line [of _ w "a @ 0x0A # b @ 0x0A # rest" 1024 x] rx w len unfolding s1_def by simp
  ultimately have line: "xgets x 1024 (xputs (cstr (chars ''xsh$ '')) 5 s) = Some (Some (int (length w)), s1)"
    by simp
  have h: "holds (umem s1) x (cstr w)"
    using holds_put [of "cstr w" x "umem s"] len by (simp add: s1_def cstr_def)
  let ?s2 = "s1\<lparr>tok := 0\<rparr>"
  obtain s' argp outp where s': "ask_args x (int (length w)) ?s2 = Some ((argp, outp), s')"
      "holds (umem s') x (cstr w)" "holds (umem s') argp (a @ cstr b)" "holds (umem s') outp (cstr b)"
      "rx (uart1 s') = rest" "peer (uart1 s') = peer (uart1 s1) @ chars '' Args:  Write to: ''"
    using ask_args_lines [of ?s2 x w a b rest] h ab(1,2) len by (auto simp: s1_def)
  have "sh_round E entry out x s = xaction E entry x argp outp s'"
    unfolding sh_round_def line using xtool_other [OF h x w(1,3), of E out] s'(1) by simp
  moreover have "cstr_at (umem s') argp = Some (a @ b)"
    using cstr_at_holds [of "umem s'" argp "a @ b"] s'(3) ab by (simp add: cstr_def cstring_def)
  moreover have "peer (uart1 s') = peer (uart1 s) @ chars ''xsh$  Args:  Write to: ''"
    using s'(6) by (simp add: s1_def chars_def)
  ultimately show ?thesis
    using cstr_at_holds [OF s'(2) word_cstring [OF w(1)]] cstr_at_holds [OF s'(4) ab(4)] s'(5) by blast
qed

lemma shell_argument_absorbs_output_witness:
  "\<exists>s' argp outp. sh_round sample_env (\<lambda>_. 0x400) 0x9000 0x8000 (typed (chars ''cat'' @ nl @ chars ''a'' @ nl @ chars ''b'' @ nl))
      = xaction sample_env (\<lambda>_. 0x400) 0x8000 argp outp s'
    \<and> cstr_at (umem s') 0x8000 = Some (chars ''cat'') \<and> cstr_at (umem s') argp = Some (chars ''ab'')"
proof -
  have "chars ''cat'' \<notin> chars ` builtins" by (auto simp: builtins_def)
  then obtain s' argp outp where "sh_round sample_env (\<lambda>_. 0x400) 0x9000 0x8000 (typed (chars ''cat'' @ nl @ chars ''a'' @ nl @ chars ''b'' @ nl))
      = xaction sample_env (\<lambda>_. 0x400) 0x8000 argp outp s'" "cstr_at (umem s') 0x8000 = Some (chars ''cat'')"
      "cstr_at (umem s') argp = Some (chars ''a'' @ chars ''b'')"
    using shell_argument_absorbs_output [of "chars ''cat''" "chars ''a''" "chars ''b''" "0x8000"
        "typed (chars ''cat'' @ nl @ chars ''a'' @ nl @ chars ''b'' @ nl)" "[]" sample_env "\<lambda>_. 0x400" "0x9000"]
    by (auto simp: word_def typed_def chars_def nl_def cstring_def)
  moreover have "chars ''a'' @ chars ''b'' = chars ''ab''" by (simp add: chars_def)
  ultimately show ?thesis by auto
qed

end
