(* ===== verification/Tools.thy ===== *)
theory Tools
  imports Shell Fs2_Paths
begin

text \<open>
  The tools of the shell, \<^verbatim>\<open>user/tools.c\<close>: \<open>cat\<close> and \<open>wc\<close> on the machine of the system calls.  Both read
  a file in chunks of 1024 bytes until a read returns 0.  The addresses are those of the local array,
  of the constant strings and of the array of \<open>print_hex\<close>.
\<close>

definition printn :: "env \<Rightarrow> u32 \<Rightarrow> u32 \<Rightarrow> machine \<Rightarrow> machine option" where
  "printn E x nchars = write_call E STDOUT_FILENO x nchars"

section \<open>cat\<close>

partial_function (option) cat_loop :: "env \<Rightarrow> u32 \<Rightarrow> u32 \<Rightarrow> machine \<Rightarrow> machine option" where
  "cat_loop E f buf m = do {
     m1 \<leftarrow> read_call E f buf 1024 m;
     if result m1 \<noteq> 0 then do {
       m2 \<leftarrow> write_call E STDOUT_FILENO buf (result m1) m1;
       cat_loop E f buf m2
     }
     else do {
       m2 \<leftarrow> close E f m1;
       exit E EXIT_SUCCESS m2
     }
   }"

definition cat :: "env \<Rightarrow> u32 \<Rightarrow> u32 \<Rightarrow> u32 \<Rightarrow> machine \<Rightarrow> machine option" where
  "cat E msg buf path m = do {
     m1 \<leftarrow> open_call E path F_READ m;
     if result m1 = -1 then do {
       m2 \<leftarrow> printn E msg 25 m1;
       exit E EXIT_FAILURE m2
     }
     else cat_loop E (result m1) buf m1
   }"

section \<open>wc\<close>

text \<open>The counters are of type \<open>int\<close>; their overflow is undefined.\<close>

definition separators :: "byte list \<Rightarrow> int" where
  "separators bs = int (length (filter (\<lambda>c. c = 0x20 \<or> c = 0x0A) bs))"

partial_function (option) wc_loop :: "env \<Rightarrow> u32 \<Rightarrow> u32 \<Rightarrow> int \<Rightarrow> int \<Rightarrow> machine \<Rightarrow> (int \<times> int \<times> machine) option" where
  "wc_loop E f buf words chs m = do {
     m1 \<leftarrow> read_call E f buf 1024 m;
     let n = sint (result m1);
     if n \<noteq> 0 then
       let w = words + separators (mem_bytes (mem (snd m1)) buf (nat n))
       in if in_int (chs + n) \<and> in_int w then wc_loop E f buf w (chs + n) m1 else None
     else do {
       m2 \<leftarrow> close E f m1;
       Some (words, chs, m2)
     }
   }"

definition wc_format :: "byte list" where
  "wc_format = chars ''Counted 0x@@@@ words in 0x@@@@ total characters.'' @ nl"

text \<open>\<open>print_hex\<close> with its array at \<open>xa\<close>, which holds \<open>junk\<close>.\<close>

definition print_hex_call :: "env \<Rightarrow> u32 \<Rightarrow> byte list \<Rightarrow> byte list \<Rightarrow> u32 list \<Rightarrow> machine \<Rightarrow> machine option" where
  "print_hex_call E xa junk x vals m = do {
     bs \<leftarrow> print_hex junk x vals;
     write_call E STDOUT_FILENO xa (word_of_nat (length junk)) (fst m, (snd m)\<lparr>mem := mem_put xa bs (mem (snd m))\<rparr>)
   }"

definition wc :: "env \<Rightarrow> u32 \<Rightarrow> byte list \<Rightarrow> u32 \<Rightarrow> u32 \<Rightarrow> machine \<Rightarrow> machine option" where
  "wc E xa junk buf path m = do {
     m1 \<leftarrow> open_call E path F_READ m;
     if result m1 = -1 then exit E EXIT_FAILURE m1
     else do {
       (words, chs, m2) \<leftarrow> wc_loop E (result m1) buf 0 0 m1;
       m3 \<leftarrow> print_hex_call E xa (take 49 junk) wc_format [word_of_int words, word_of_int chs] m2;
       exit E EXIT_SUCCESS m3
     }
   }"

section \<open>An open file and the console\<close>

definition stdout_console :: "kstate \<Rightarrow> bool" where
  "stdout_console k \<longleftrightarrow> (\<exists>g f. fdt (cpcb k) ! 1 = int g \<and> g < 64 \<and> openft k ! g \<noteq> 0
     \<and> heap k (openft k ! g) = Some (Fdte f) \<and> fd_mode f \<in> {FM_W, FM_RW} \<and> fd_type f = FT_UART \<and> fd_id f = UART0_ADDR)"

definition opened :: "kstate \<Rightarrow> nat \<Rightarrow> byte list \<Rightarrow> u32 \<Rightarrow> bool" where
  "opened k fd path cursor \<longleftrightarrow> fd < 32 \<and> (\<exists>g f. fdt (cpcb k) ! fd = int g \<and> g < 64 \<and> openft k ! g \<noteq> 0
     \<and> heap k (openft k ! g) = Some (Fdte f) \<and> fd_mode f \<in> {FM_R, FM_RW} \<and> fd_type f = FT_FILE
     \<and> heap k (fd_id f) = Some (Str path) \<and> fd_cursor f = cursor)"

text \<open>The path leads to a regular file with inode \<open>i\<close> whose blocks are in order.\<close>

definition readable :: "fs2_volume \<Rightarrow> byte list list \<Rightarrow> fs2_inode \<Rightarrow> bool" where
  "readable v ss i \<longleftrightarrow> fs_ok v \<and> ss \<noteq> [] \<and> (\<forall>s \<in> set ss. component s) \<and> dirs_ok v 0 ss
     \<and> (\<exists>ix p. resolve v 0 ss = Some (ix, p) \<and> has_inode v ix i) \<and> ftype i = FS2_FTYPE_FILE
     \<and> blocks_ok v i (unat (eof i)) \<and> unat (eof i) < 2 ^ 31"

lemma readable_same: "readable v ss i \<Longrightarrow> same_disk v w \<Longrightarrow> readable w ss i \<and> file_bytes w i = file_bytes v i"
  using same_disk_ok [of v w] same_disk_lookup [of v w] same_disk_inode [of v w] same_disk_blocks [of v w]
  by (simp add: readable_def file_bytes_def same_disk_def)

lemma readable_length: "readable v ss i \<Longrightarrow> length (file_bytes v i) \<le> unat (eof i) \<and> unat (eof i) < 2 ^ 31"
  by (simp add: readable_def file_bytes_def)

lemma read_opened:
  assumes o: "opened k fd (join_path ss) u" "stdout_console k" "readable (vol k) ss i" "unat u < 2 ^ 31"
  defines "bs \<equiv> take 1024 (drop (unat u) (file_bytes (vol k) i))"
  shows "\<exists>k1. do_read E (int fd) buf 1024 k = Some (int (length bs), k1)
    \<and> opened k1 fd (join_path ss) (u + word_of_nat (length bs)) \<and> stdout_console k1
    \<and> same_disk (vol k) (vol k1) \<and> uart0 k1 = uart0 k \<and> mem_bytes (mem k1) buf (length bs) = bs \<and> halted k1 = halted k"
proof -
  obtain g f where g: "fd < 32" "fdt (cpcb k) ! fd = int g" "g < 64" "openft k ! g \<noteq> 0"
      "heap k (openft k ! g) = Some (Fdte f)" "fd_mode f \<in> {FM_R, FM_RW}" "fd_type f = FT_FILE"
      "heap k (fd_id f) = Some (Str (join_path ss))" "fd_cursor f = u"
    using o(1) by (auto simp: opened_def)
  obtain w where w: "fs2_read (vol k) (join_path ss) 1024 u = Some (int (length bs), bs, w)" "same_disk (vol k) w"
    using read_path_bytes [of "vol k" ss _ _ i u 1024] o(3,4) by (auto simp: readable_def bs_def)
  let ?k1 = "store (openft k ! g) (Fdte (f\<lparr>fd_cursor := u + word_of_nat (length bs)\<rparr>))
    (k\<lparr>vol := w, mem := mem_put buf bs (mem k)\<rparr>)"
  have "do_read E (int fd) buf 1024 k = Some (int (length bs), ?k1)"
    using g w(1) by (auto simp: do_read_def fdt_at_def openft_at_def load_fdte_def load_str_def Let_def)
  moreover have "opened ?k1 fd (join_path ss) (u + word_of_nat (length bs))"
  proof -
    have "fd_id f \<noteq> openft k ! g" using g(5,8) by auto
    then show ?thesis using g unfolding opened_def
      by (intro conjI exI [of _ g] exI [of _ "f\<lparr>fd_cursor := u + word_of_nat (length bs)\<rparr>"]) (simp_all add: store_def)
  qed
  moreover have "stdout_console ?k1"
  proof -
    obtain g' f' where g': "fdt (cpcb k) ! 1 = int g'" "g' < 64" "openft k ! g' \<noteq> 0" "heap k (openft k ! g') = Some (Fdte f')"
        "fd_mode f' \<in> {FM_W, FM_RW}" "fd_type f' = FT_UART" "fd_id f' = UART0_ADDR"
      using o(2) by (auto simp: stdout_console_def)
    then have "openft k ! g' \<noteq> openft k ! g" using g(5,7) by auto
    then show ?thesis using g' by (auto simp: stdout_console_def store_def)
  qed
  moreover have "mem_bytes (mem ?k1) buf (length bs) = bs"
    using mem_bytes_put [of bs buf "mem k"] by (simp add: store_def bs_def)
  ultimately show ?thesis using w(2) by (intro exI [of _ ?k1]) (simp add: store_def)
qed

lemma k_print_uart: "k_print s k = k\<lparr>uart0 := (uart0 k)\<lparr>peer := peer (uart0 k) @ s\<rparr>\<rparr>"
proof (induction s arbitrary: k)
  case (Cons c s)
  have "k_print (c # s) k = k_print s (k_putc c k)" by (simp add: k_print_def)
  then show ?case by (simp add: Cons k_putc_def putc_console)
qed (simp add: k_print_def)

lemma write_stdout:
  "stdout_console k \<Longrightarrow> do_write E 1 buf n k = Some (n, k_print (mem_bytes (mem k) buf (nat n)) k)"
  by (auto simp: stdout_console_def do_write_def fdt_at_def openft_at_def load_fdte_def Let_def)

lemma opened_print [simp]:
  "opened (k_print s k) = opened k" "stdout_console (k_print s k) = stdout_console k" "vol (k_print s k) = vol k"
  "mem (k_print s k) = mem k"
  by (simp_all add: k_print_uart opened_def stdout_console_def fun_eq_iff)

lemma sint_of_nat_small: "m < 2 ^ 31 \<Longrightarrow> sint (word_of_nat m :: u32) = int m"
  using sint_below_31 [of "word_of_nat m"] by (simp add: unat_of_nat)

lemma read_call_opened:
  assumes "opened k fd (join_path ss) u" "stdout_console k" "readable (vol k) ss i" "unat u < 2 ^ 31" "length (gpr c) = 13"
  defines "bs \<equiv> take 1024 (drop (unat u) (file_bytes (vol k) i))"
  shows "\<exists>c1 k1. read_call E (word_of_nat fd) buf 1024 (c, k) = Some (c1, k1) \<and> result (c1, k1) = word_of_nat (length bs)
    \<and> length (gpr c1) = 13 \<and> opened k1 fd (join_path ss) (u + word_of_nat (length bs)) \<and> stdout_console k1
    \<and> same_disk (vol k) (vol k1) \<and> uart0 k1 = uart0 k \<and> mem_bytes (mem k1) buf (length bs) = bs \<and> halted k1 = halted k"
proof -
  obtain k1 where k1: "do_read E (int fd) buf 1024 k = Some (int (length bs), k1)"
      "opened k1 fd (join_path ss) (u + word_of_nat (length bs))" "stdout_console k1" "same_disk (vol k) (vol k1)"
      "uart0 k1 = uart0 k" "mem_bytes (mem k1) buf (length bs) = bs" "halted k1 = halted k"
    using read_opened [OF assms(1-4), of E buf] unfolding bs_def by blast
  let ?c1 = "set_reg 0 (word_of_nat (length bs)) (load_regs [word_of_nat fd, buf, 1024] c)"
  have "fd < 2 ^ 31" using assms(1) by (simp add: opened_def)
  then have "read_call E (word_of_nat fd) buf 1024 (c, k) = Some (?c1, k1)"
    using k1(1) by (simp add: user_calls call_numbers trap_def hilevel_handler_svc_def ret_int_def ret_def sint_of_nat_small)
  moreover have "result (?c1, k1) = word_of_nat (length bs)" "length (gpr ?c1) = 13"
    using assms(5) by (simp_all add: result_set_reg) (simp add: set_reg_def)
  ultimately show ?thesis using k1 by blast
qed

lemma write_call_stdout:
  assumes "stdout_console k" "n < 2 ^ 31" "length (gpr c) = 13"
  shows "\<exists>c1. write_call E STDOUT_FILENO buf (word_of_nat n) (c, k) = Some (c1, k_print (mem_bytes (mem k) buf n) k) \<and> length (gpr c1) = 13"
  using write_stdout [OF assms(1), of E buf "int n"] assms(2,3)
  by (simp add: user_calls call_numbers trap_def hilevel_handler_svc_def ret_int_def ret_def sint_of_nat_small STDOUT_FILENO_def set_reg_def)

lemma cat_loop_copies:
  assumes "opened k fd (join_path ss) u" "stdout_console k" "readable (vol k) ss i" "length (gpr c) = 13"
    and "unat u \<le> length (file_bytes (vol k) i)"
  shows "\<exists>m1. cat_loop E (word_of_nat fd) buf (c, k) = do { m2 \<leftarrow> close E (word_of_nat fd) m1; exit E EXIT_SUCCESS m2 }
    \<and> peer (uart0 (snd m1)) = peer (uart0 k) @ drop (unat u) (file_bytes (vol k) i) \<and> same_disk (vol k) (vol (snd m1))"
  using assms
proof (induction "length (file_bytes (vol k) i) - unat u" arbitrary: k c u rule: less_induct)
  case less
  let ?b = "file_bytes (vol k) i" 
  define bs where "bs = take 1024 (drop (unat u) ?b)"
  have len: "length ?b < 2 ^ 31" using readable_length [OF less.prems(3)] by linarith
  then have "unat u < 2 ^ 31" using less.prems(5) by linarith
  then obtain c1 k1 where k1: "read_call E (word_of_nat fd) buf 1024 (c, k) = Some (c1, k1)" "result (c1, k1) = word_of_nat (length bs)"
      "length (gpr c1) = 13" "opened k1 fd (join_path ss) (u + word_of_nat (length bs))" "stdout_console k1"
      "same_disk (vol k) (vol k1)" "uart0 k1 = uart0 k" "mem_bytes (mem k1) buf (length bs) = bs"
    using read_call_opened [OF less.prems(1-3) _ less.prems(4), of E buf] unfolding bs_def by blast
  have small: "length bs \<le> 1024" by (simp add: bs_def)
  then have zero: "result (c1, k1) = 0 \<longleftrightarrow> length bs = 0"
    unfolding k1(2) by (simp add: word_eq_iff_unsigned unat_of_nat flip: unat_eq_0 length_0_conv)
  show ?case
  proof (cases "length bs = 0")
    case True
    then have "cat_loop E (word_of_nat fd) buf (c, k) = do { m2 \<leftarrow> close E (word_of_nat fd) (c1, k1); exit E EXIT_SUCCESS m2 }"
      using k1(1) zero by (subst cat_loop.simps) simp
    moreover have "drop (unat u) ?b = []" using True by (simp add: bs_def)
    ultimately show ?thesis using k1(6,7) by (intro exI [of _ "(c1, k1)"]) simp
  next
    case False
    let ?k2 = "k_print bs k1" let ?u = "u + word_of_nat (length bs)"
    obtain c2 where c2: "write_call E STDOUT_FILENO buf (word_of_nat (length bs)) (c1, k1) = Some (c2, ?k2)" "length (gpr c2) = 13"
      using write_call_stdout [OF k1(5) _ k1(3), of "length bs" E buf] small k1(8) by auto
    have loop: "cat_loop E (word_of_nat fd) buf (c, k) = cat_loop E (word_of_nat fd) buf (c2, ?k2)"
      using k1(1) zero False c2(1) by (subst cat_loop.simps) (simp add: k1(2))
    have u: "unat ?u = unat u + length bs"
      using len less.prems(5) small by (simp add: unat_word_ariths unat_of_nat)
    have same: "readable (vol k1) ss i" "file_bytes (vol k1) i = ?b" using readable_same [OF less.prems(3) k1(6)] by auto
    have le: "unat u + length bs \<le> length ?b" using less.prems(5) by (simp add: bs_def)
    then have lt: "length ?b - (unat u + length bs) < length ?b - unat u" using False by linarith
    have ih: "\<exists>m1. cat_loop E (word_of_nat fd) buf (c2, ?k2) = do { m2 \<leftarrow> close E (word_of_nat fd) m1; exit E EXIT_SUCCESS m2 }
        \<and> peer (uart0 (snd m1)) = peer (uart0 ?k2) @ drop (unat ?u) (file_bytes (vol ?k2) i) \<and> same_disk (vol ?k2) (vol (snd m1))"
      using k1(4,5) c2(2) le(1) lt same by (intro less.hyps) (simp_all add: u)
    have "bs @ drop (unat ?u) ?b = drop (unat u) ?b" unfolding u
      by (simp add: bs_def add.commute [of "unat u"] min_def flip: drop_drop)
    then show ?thesis using ih same_disk_trans [OF k1(6)] unfolding loop by (auto simp: k1(7) k_print_uart same)
  qed
qed

text \<open>
  C27: \<open>cat\<close> from the terminal to the disk.  With a descriptor open at the start of a regular file and the
  console as standard output, the loop of \<open>cat\<close> ends: it has sent the bytes of the file, all of them
  and in order, to the console, the disk is as it was, and what is left is to close the file and exit.
\<close>

theorem cat_copies_file:
  assumes "opened k fd (join_path ss) 0" "stdout_console k" "readable (vol k) ss i" "length (gpr c) = 13"
  shows "\<exists>m1. cat_loop E (word_of_nat fd) buf (c, k) = do { m2 \<leftarrow> close E (word_of_nat fd) m1; exit E EXIT_SUCCESS m2 }
    \<and> peer (uart0 (snd m1)) = peer (uart0 k) @ file_bytes (vol k) i \<and> same_disk (vol k) (vol (snd m1))"
  using cat_loop_copies [OF assms, of E buf] by simp

text \<open>A process with standard output on the console and descriptor 3 on the file \<open>log\<close>.\<close>

definition reading_kernel :: kstate where
  "reading_kernel = set_fdt 1 1 (set_fdt 3 3 (sample_kernel\<lparr>vol := log_vol,
     openft := (openft sample_kernel)[1 := 0x100, 3 := 0x200],
     heap := [0x100 \<mapsto> Fdte \<lparr>open_count = 1, fd_type = FT_UART, fd_mode = FM_W, fd_id = UART0_ADDR, fd_cursor = 0\<rparr>,
              0x200 \<mapsto> Fdte \<lparr>open_count = 1, fd_type = FT_FILE, fd_mode = FM_R, fd_id = 0x300, fd_cursor = 0\<rparr>,
              0x300 \<mapsto> Str log_name]\<rparr>))"

lemma reading_kernel_ok:
  "opened reading_kernel 3 (join_path [log_name]) 0" "stdout_console reading_kernel"
  "readable (vol reading_kernel) [log_name] log_inode" "length (gpr zero_ctx) = 13"
proof -
  have f: "length (fdt (cpcb sample_kernel)) = 32" "length (openft sample_kernel) = 64" "cur sample_kernel < length (pcbs sample_kernel)"
    using sample_kernel_fds(2) by (simp_all add: sample_kernel_sel) (simp add: sample_kernel_def boot_kernel_def)
  then show "opened reading_kernel 3 (join_path [log_name]) 0" "stdout_console reading_kernel"
    by (simp_all add: opened_def stdout_console_def reading_kernel_def set_fdt_def upd_pcb_def)
  show "readable (vol reading_kernel) [log_name] log_inode"
    using log_dir log_inodes log_blocks_ok log_vol_ok log_inode_sel log_lookup
    by (simp add: readable_def reading_kernel_def set_fdt_def)
  show "length (gpr zero_ctx) = 13" by (simp add: zero_ctx_def)
qed

lemma cat_copies_file_witness:
  "\<exists>m1. cat_loop sample_env 3 0x8000 (zero_ctx, reading_kernel) = do { m2 \<leftarrow> close sample_env 3 m1; exit sample_env EXIT_SUCCESS m2 }
    \<and> drop (length (peer (uart0 reading_kernel))) (peer (uart0 (snd m1))) = file_bytes log_vol log_inode"
proof -
  have "vol reading_kernel = log_vol" by (simp add: reading_kernel_def set_fdt_def)
  then obtain m1 where "cat_loop sample_env 3 0x8000 (zero_ctx, reading_kernel)
      = do { m2 \<leftarrow> close sample_env 3 m1; exit sample_env EXIT_SUCCESS m2 }"
      "peer (uart0 (snd m1)) = peer (uart0 reading_kernel) @ file_bytes log_vol log_inode"
    using cat_copies_file [OF reading_kernel_ok, of sample_env "0x8000"] by (metis of_nat_numeral)
  then show ?thesis by (intro exI [of _ m1]) simp
qed

section \<open>A file that is gone\<close>

definition missing :: "fs2_volume \<Rightarrow> byte list list \<Rightarrow> bool" where
  "missing v ss \<longleftrightarrow> fs_ok v \<and> ss \<noteq> [] \<and> (\<forall>s \<in> set ss. component s) \<and> dirs_ok v 0 ss \<and> resolve v 0 ss = None"

lemma read_missing:
  assumes "missing v ss"
  shows "\<exists>w. fs2_read v (join_path ss) n u = Some (-1, [], w) \<and> missing w ss"
proof -
  obtain w where w: "same_disk v w" "fs2_find_file v (join_path ss) = Some (-1, None, w\<lparr>outcome := FS2_NO_FILE\<rparr>)"
    using find_file_eq [of v ss] assms by (auto simp: missing_def)
  let ?w = "w\<lparr>outcome := FS2_NO_FILE\<rparr>"
  have "same_disk v ?w" using w(1) by simp
  then have "missing ?w ss"
    using same_disk_ok [of v ?w] same_disk_lookup [of v ?w] assms by (simp add: missing_def)
  then show ?thesis using w(2) by (simp add: fs2_read_def)
qed

lemma cat_loop_diverges:
  assumes step: "\<And>m. P m \<Longrightarrow> \<exists>m1 m2. read_call E f buf 1024 m = Some m1 \<and> result m1 \<noteq> 0
      \<and> write_call E STDOUT_FILENO buf (result m1) m1 = Some m2 \<and> P m2"
  shows "P m \<Longrightarrow> cat_loop E f buf m = None"
proof (rule ccontr)
  assume P: "P m" and "cat_loop E f buf m \<noteq> None"
  then obtain r where r: "cat_loop E f buf m = Some r" by auto
  have "E = E \<and> f = f \<and> buf = buf \<longrightarrow> \<not> P m"
  proof (rule cat_loop.raw_induct [where P = "\<lambda>E' f' buf' m r. E' = E \<and> f' = f \<and> buf' = buf \<longrightarrow> \<not> P m"])
    fix g :: "env \<Rightarrow> u32 \<Rightarrow> u32 \<Rightarrow> machine \<Rightarrow> machine option" and E' f' buf' m r
    assume ih: "\<And>E' f' buf' m r. g E' f' buf' m = Some r \<Longrightarrow> E' = E \<and> f' = f \<and> buf' = buf \<longrightarrow> \<not> P m"
      and g: "Option.bind (read_call E' f' buf' 1024 m) (\<lambda>m1. if result m1 \<noteq> 0
        then Option.bind (write_call E' STDOUT_FILENO buf' (result m1) m1) (g E' f' buf')
        else Option.bind (close E' f' m1) (\<lambda>m2. exit E' EXIT_SUCCESS m2)) = Some r"
    show "E' = E \<and> f' = f \<and> buf' = buf \<longrightarrow> \<not> P m"
    proof (intro impI notI)
      assume eq: "E' = E \<and> f' = f \<and> buf' = buf" and "P m"
      from step [OF this(2)] obtain m1 m2 where "read_call E f buf 1024 m = Some m1" "result m1 \<noteq> 0"
        "write_call E STDOUT_FILENO buf (result m1) m1 = Some m2" "P m2" by blast
      then show False using g ih eq by auto
    qed
  qed (rule r)
  then show False using P by simp
qed

text \<open>
  \<open>cat\<close> on a file that is removed.  When the file behind an open descriptor is gone, every read
  answers -1, which \<open>cat\<close> takes for data: it writes nothing for ever and never exits.
\<close>

lemma cat_never_ends:
  assumes "opened k fd (join_path ss) u" "stdout_console k" "missing (vol k) ss" "length (gpr c) = 13"
  shows "cat_loop E (word_of_nat fd) buf (c, k) = None"
proof -
  let ?P = "\<lambda>m. opened (snd m) fd (join_path ss) u \<and> stdout_console (snd m) \<and> missing (vol (snd m)) ss \<and> length (gpr (fst m)) = 13"
  have "\<exists>m1 m2. read_call E (word_of_nat fd) buf 1024 m = Some m1 \<and> result m1 \<noteq> 0
      \<and> write_call E STDOUT_FILENO buf (result m1) m1 = Some m2 \<and> ?P m2" if "?P m" for m
  proof -
    obtain c k where m: "m = (c, k)" by fastforce
    then have P: "opened k fd (join_path ss) u" "stdout_console k" "missing (vol k) ss" "length (gpr c) = 13" using that by auto
    obtain w where w: "fs2_read (vol k) (join_path ss) 1024 u = Some (-1, [], w)" "missing w ss"
      using read_missing [OF P(3)] by blast
    let ?k1 = "k\<lparr>vol := w\<rparr>"
    obtain g f where g: "fd < 32" "fdt (cpcb k) ! fd = int g" "g < 64" "openft k ! g \<noteq> 0"
      "heap k (openft k ! g) = Some (Fdte f)" "fd_mode f \<in> {FM_R, FM_RW}" "fd_type f = FT_FILE"
      "heap k (fd_id f) = Some (Str (join_path ss))" "fd_cursor f = u"
      using P(1) by (auto simp: opened_def)
    then have "do_read E (int fd) buf 1024 k = Some (-1, ?k1)"
      using w(1) by (auto simp: do_read_def fdt_at_def openft_at_def load_fdte_def load_str_def Let_def)
    moreover have "fd < 2 ^ 31" using P(1) by (simp add: opened_def)
    ultimately have r: "read_call E (word_of_nat fd) buf 1024 m = Some (set_reg 0 (-1) (load_regs [word_of_nat fd, buf, 1024] c), ?k1)"
      by (simp add: m user_calls call_numbers trap_def hilevel_handler_svc_def ret_int_def ret_def sint_of_nat_small)
    have k1: "stdout_console ?k1" "opened ?k1 fd (join_path ss) u"
      using P(1,2) by (simp_all add: stdout_console_def opened_def)
    define c1 where "c1 = set_reg 0 (-1) (load_regs [word_of_nat fd, buf, 1024] c)"
    have c1: "length (gpr c1) = 13" "result (c1, ?k1) = -1"
      using P(4) unfolding c1_def by (simp add: set_reg_def, subst result_set_reg) simp_all
    have "write_call E STDOUT_FILENO buf (-1) (c1, ?k1) = Some (set_reg 0 (-1) (load_regs [STDOUT_FILENO, buf, -1] c1), ?k1)"
      using write_stdout [OF k1(1), of E buf "-1"]
      by (simp add: user_calls call_numbers trap_def hilevel_handler_svc_def ret_int_def ret_def STDOUT_FILENO_def k_print_uart mem_bytes_def)
    moreover have "read_call E (word_of_nat fd) buf 1024 m = Some (c1, ?k1)" unfolding c1_def by (rule r)
    moreover have "length (gpr (set_reg 0 (-1) (load_regs [STDOUT_FILENO, buf, -1] c1))) = 13" using c1(1) by (simp add: set_reg_def)
    ultimately show ?thesis
      using c1(2) k1 w(2)
      by (intro exI [of _ "(c1, ?k1)"] exI [of _ "(set_reg 0 (-1) (load_regs [STDOUT_FILENO, buf, -1] c1), ?k1)"]) simp
  qed
  then show ?thesis using cat_loop_diverges [of ?P E "word_of_nat fd" buf "(c, k)"] assms by auto
qed

text \<open>The same process with the name of a file that does not exist.\<close>

definition stale_kernel :: kstate where
  "stale_kernel = store 0x300 (Str [0x41]) reading_kernel"

lemma stale_kernel_ok:
  "opened stale_kernel 3 (join_path [[0x41]]) 0" "stdout_console stale_kernel" "vol stale_kernel = log_vol"
proof -
  have f: "length (fdt (cpcb sample_kernel)) = 32" "length (openft sample_kernel) = 64" "cur sample_kernel < length (pcbs sample_kernel)"
    using sample_kernel_fds(2) by (simp_all add: sample_kernel_sel) (simp add: sample_kernel_def boot_kernel_def)
  then show "opened stale_kernel 3 (join_path [[0x41]]) 0" "stdout_console stale_kernel"
    by (simp_all add: opened_def stdout_console_def stale_kernel_def store_def reading_kernel_def set_fdt_def upd_pcb_def)
  show "vol stale_kernel = log_vol" by (simp add: stale_kernel_def store_def reading_kernel_def set_fdt_def)
qed

lemma cat_never_ends_witness:
  "cat_loop sample_env 3 0x8000 (zero_ctx, stale_kernel) = None"
proof -
  have "lookup log_vol 0 [0x41] = None"
    by (simp add: lookup_def log_inodes log_searched log_dblock_def log_names) (simp add: log_name_def)
  then have "missing (vol stale_kernel) [[0x41]]"
    using log_dir log_vol_ok by (simp add: stale_kernel_ok(3) missing_def component_def slash_def cstring_def)
  then show ?thesis
    using cat_never_ends [OF stale_kernel_ok(1,2), of zero_ctx sample_env "0x8000"] reading_kernel_ok(4) by simp
qed

section \<open>Counting\<close>

lemma separators_append: "separators (xs @ ys) = separators xs + separators ys"
  by (simp add: separators_def)

lemma separators_le: "0 \<le> separators xs \<and> separators xs \<le> int (length xs)"
  by (simp add: separators_def)

lemma in_int_separators: "length xs < 2 ^ 31 \<Longrightarrow> in_int (separators xs)"
  using separators_le [of xs] by (simp add: in_int_def)

lemma in_int_nat: "n < 2 ^ 31 \<Longrightarrow> in_int (int n)"
  by (simp add: in_int_def)

lemma wc_loop_counts:
  assumes "opened k fd (join_path ss) u" "stdout_console k" "readable (vol k) ss i" "length (gpr c) = 13"
    and "unat u \<le> length (file_bytes (vol k) i)" "words = separators (take (unat u) (file_bytes (vol k) i))"
  shows "\<exists>m1. wc_loop E (word_of_nat fd) buf words (int (unat u)) (c, k)
      = do { m2 \<leftarrow> close E (word_of_nat fd) m1;
             Some (separators (file_bytes (vol k) i), int (length (file_bytes (vol k) i)), m2) }
    \<and> same_disk (vol k) (vol (snd m1))"
  using assms
proof (induction "length (file_bytes (vol k) i) - unat u" arbitrary: k c u words rule: less_induct)
  case less
  let ?b = "file_bytes (vol k) i"
  define bs where "bs = take 1024 (drop (unat u) ?b)"
  have len: "length ?b < 2 ^ 31" using readable_length [OF less.prems(3)] by linarith
  then have "unat u < 2 ^ 31" using less.prems(5) by linarith
  then obtain c1 k1 where k1: "read_call E (word_of_nat fd) buf 1024 (c, k) = Some (c1, k1)" "result (c1, k1) = word_of_nat (length bs)"
      "length (gpr c1) = 13" "opened k1 fd (join_path ss) (u + word_of_nat (length bs))" "stdout_console k1"
      "same_disk (vol k) (vol k1)" "mem_bytes (mem k1) buf (length bs) = bs"
    using read_call_opened [OF less.prems(1-3) _ less.prems(4), of E buf] unfolding bs_def by blast
  have small: "length bs \<le> 1024" by (simp add: bs_def)
  then have n: "sint (result (c1, k1)) = int (length bs)" unfolding k1(2) by (simp add: sint_of_nat_small)
  show ?case
  proof (cases "length bs = 0")
    case True
    moreover have "drop (unat u) ?b = []" using True by (simp add: bs_def)
    ultimately have "words = separators ?b" "int (unat u) = int (length ?b)" using less.prems(5,6) by simp_all
    then have "wc_loop E (word_of_nat fd) buf words (int (unat u)) (c, k)
        = do { m2 \<leftarrow> close E (word_of_nat fd) (c1, k1); Some (separators ?b, int (length ?b), m2) }"
      using k1(1) n True by (subst wc_loop.simps) simp
    then show ?thesis using k1(6) by (intro exI [of _ "(c1, k1)"]) simp
  next
    case False
    let ?u = "u + word_of_nat (length bs)" let ?w = "words + separators bs"
    have u: "unat ?u = unat u + length bs"
      using len less.prems(5) small by (simp add: unat_word_ariths unat_of_nat)
    have le: "unat u + length bs \<le> length ?b" using less.prems(5) by (simp add: bs_def)
    then have lt: "length ?b - (unat u + length bs) < length ?b - unat u" using False by linarith
    have "take (unat u + length bs) ?b = take (unat u) ?b @ bs" by (simp add: bs_def take_add min_def)
    then have w: "?w = separators (take (unat ?u) ?b)" using less.prems(6) by (simp add: u separators_append)
    have "in_int ?w" unfolding w using len by (intro in_int_separators) simp
    moreover have "in_int (int (unat u + length bs))" using le len by (intro in_int_nat) linarith
    ultimately have loop: "wc_loop E (word_of_nat fd) buf words (int (unat u)) (c, k)
        = wc_loop E (word_of_nat fd) buf ?w (int (unat ?u)) (c1, k1)"
      using k1(1,7) n False by (subst wc_loop.simps) (simp add: u Let_def)
    have same: "readable (vol k1) ss i" "file_bytes (vol k1) i = ?b" using readable_same [OF less.prems(3) k1(6)] by auto
    have "\<exists>m1. wc_loop E (word_of_nat fd) buf ?w (int (unat ?u)) (c1, k1)
      = do { m2 \<leftarrow> close E (word_of_nat fd) m1;
             Some (separators (file_bytes (vol k1) i), int (length (file_bytes (vol k1) i)), m2) }
      \<and> same_disk (vol k1) (vol (snd m1))"
      using k1(3-5) le(1) lt same w by (intro less.hyps) (simp_all add: u)
    then show ?thesis unfolding loop same(2) using same_disk_trans [OF k1(6)] by auto
  qed
qed

text \<open>
  C31: \<open>wc\<close>.  From a descriptor at the start of a regular file the loop of \<open>wc\<close> ends with the number of
  blanks and line feeds of the file and its number of bytes; but the report that follows copies a
  string of 49 characters and its NUL into an array of 49, so that it has no defined outcome.
\<close>

theorem wc_counts_file:
  assumes "opened k fd (join_path ss) 0" "stdout_console k" "readable (vol k) ss i" "length (gpr c) = 13"
  shows "(\<exists>m1. wc_loop E (word_of_nat fd) buf 0 0 (c, k)
      = do { m2 \<leftarrow> close E (word_of_nat fd) m1;
             Some (separators (file_bytes (vol k) i), int (length (file_bytes (vol k) i)), m2) }
      \<and> same_disk (vol k) (vol (snd m1)))
    \<and> print_hex_call E xa (take 49 junk) wc_format vals m = None"
proof -
  have "length wc_format = 49" by (simp add: wc_format_def nl_def)
  then have "print_hex (take 49 junk) wc_format vals = None" by (simp add: print_hex_def strcpy_over_def)
  then show ?thesis
    using wc_loop_counts [OF assms, of 0 E buf] by (simp add: print_hex_call_def separators_def)
qed

lemma wc_counts_file_witness:
  "\<exists>m1. wc_loop sample_env 3 0x8000 0 0 (zero_ctx, reading_kernel) = do { m2 \<leftarrow> close sample_env 3 m1;
     Some (separators (file_bytes log_vol log_inode), int (length (file_bytes log_vol log_inode)), m2) }"
proof -
  have "vol reading_kernel = log_vol" by (simp add: reading_kernel_def set_fdt_def)
  then show ?thesis
    using conjunct1 [OF wc_counts_file [OF reading_kernel_ok, of sample_env "0x8000" 0 "[]" "[]" "(zero_ctx, reading_kernel)"]] by auto
qed

end
