(* ===== verification/User_Math.thy ===== *)
theory User_Math
  imports Prelude
begin

text \<open>
  The computations of the user programs \<^verbatim>\<open>user/P3.c\<close>, \<^verbatim>\<open>user/P4.c\<close> and \<^verbatim>\<open>user/P5.c\<close>: the number of bits
  set, the greatest common divisor and the primality test, on 32-bit unsigned integers.
\<close>

section \<open>P3: the weight of a word\<close>

definition weight :: "u32 \<Rightarrow> u32" where
  "weight x0 = (
     let x1 = (x0 AND 0x55555555) + (drop_bit 1 x0 AND 0x55555555);
         x2 = (x1 AND 0x33333333) + (drop_bit 2 x1 AND 0x33333333);
         x3 = (x2 AND 0x0F0F0F0F) + (drop_bit 4 x2 AND 0x0F0F0F0F);
         x4 = (x3 AND 0x00FF00FF) + (drop_bit 8 x3 AND 0x00FF00FF);
         x5 = (x4 AND 0x0000FFFF) + (drop_bit 16 x4 AND 0x0000FFFF)
     in x5)"

text \<open>
  The words are sequences of fields: \<open>fields w ds\<close> has the numbers \<open>ds\<close> in consecutive fields of \<open>w\<close>
  bits, the first one lowest.  Each line of \<open>weight\<close> turns fields of \<open>w\<close> bits into the sums of
  neighbouring pairs, in fields of twice the size.
\<close>

primrec fields :: "nat \<Rightarrow> nat list \<Rightarrow> nat" where
  "fields w [] = 0"
| "fields w (d # ds) = d + 2 ^ w * fields w ds"

fun evens :: "'a list \<Rightarrow> 'a list" where
  "evens (x # y # zs) = x # evens zs"
| "evens zs = []"

fun odds :: "'a list \<Rightarrow> 'a list" where
  "odds (x # y # zs) = y # odds zs"
| "odds zs = []"

fun pair_sums :: "nat list \<Rightarrow> nat list" where
  "pair_sums (x # y # zs) = (x + y) # pair_sums zs"
| "pair_sums zs = []"

lemma and_low_field:
  fixes n m d e :: nat
  assumes "d < 2 ^ w" "e < 2 ^ w"
  shows "(d + 2 ^ w * (e + 2 ^ w * n)) AND (mask w + 2 ^ (2 * w) * m) = d + 2 ^ (2 * w) * (n AND m)" (is "?x AND ?M = _")
proof -
  have sq: "2 ^ w * 2 ^ w = (2 ^ (2 * w) :: nat)" by (simp add: mult_2 power_add)
  have le: "d + 2 ^ w * e < 2 ^ (2 * w)"
  proof -
    have "d + 2 ^ w * e < 2 ^ w * (e + 1)" using assms by simp
    also have "\<dots> \<le> 2 ^ w * 2 ^ w" using assms(2) by (simp only: mult_le_mono2 Suc_leI Suc_eq_plus1 [symmetric])
    finally show ?thesis by (simp add: sq)
  qed
  have x: "?x = (d + 2 ^ w * e) + 2 ^ (2 * w) * n" by (simp add: add_mult_distrib2 flip: sq)
  have mk: "mask w < (2 ^ (2 * w) :: nat)"
    by (rule less_le_trans [of _ "2 ^ w"]) (simp_all add: mask_eq_exp_minus_1)
  have "?x AND ?M = push_bit (2 * w) (drop_bit (2 * w) (?x AND ?M)) + take_bit (2 * w) (?x AND ?M)"
    by (rule bits_ident [symmetric])
  also have "drop_bit (2 * w) (?x AND ?M) = n AND m"
    by (simp only: x drop_bit_and) (simp add: drop_bit_eq_div le mk)
  also have "take_bit (2 * w) (?x AND ?M) = take_bit w ?x"
  proof -
    have "take_bit (2 * w) ?M = mask w" using mk by (simp add: take_bit_eq_mod)
    then show ?thesis by (simp add: take_bit_eq_mask flip: take_bit_and) (simp add: take_bit_take_bit flip: take_bit_eq_mask)
  qed
  also have "take_bit w ?x = d" using assms by (simp add: take_bit_eq_mod)
  finally show ?thesis by (simp add: push_bit_eq_mult)
qed

lemma fields_less: "\<forall>d \<in> set ds. d < 2 ^ w \<Longrightarrow> fields w ds < 2 ^ (w * length ds)"
proof (induction ds)
  case (Cons d ds)
  then have "d + 2 ^ w * fields w ds < 2 ^ w * (fields w ds + 1)" by simp
  also have "\<dots> \<le> 2 ^ w * 2 ^ (w * length ds)"
    using Cons by (intro mult_le_mono2) (simp add: Suc_leI)
  finally show ?case by (simp add: power_add)
qed simp

lemma fields_and_mask:
  "length ds = 2 * n \<Longrightarrow> \<forall>d \<in> set ds. d < 2 ^ w \<Longrightarrow>
   fields w ds AND fields (2 * w) (replicate n (mask w)) = fields (2 * w) (evens ds)"
proof (induction ds arbitrary: n rule: evens.induct)
  case (1 x y zs)
  then obtain m where n: "n = Suc m" "length zs = 2 * m" by (cases n) auto
  then show ?case using 1 and_low_field [of x w y "fields w zs" "fields (2 * w) (replicate m (mask w))"] by simp
qed (auto simp: length_Suc_conv)

lemma drop_field:
  assumes "d < 2 ^ w"
  shows "drop_bit w (fields w (d # ds)) = fields w (ds @ [0])"
proof -
  have "fields w (ds @ [0]) = fields w ds" by (induction ds) simp_all
  then show ?thesis using assms by (simp add: drop_bit_eq_div)
qed

lemma evens_tl: "even (length ds) \<Longrightarrow> ds \<noteq> [] \<Longrightarrow> evens (tl ds @ [x]) = odds ds"
proof (induction ds rule: odds.induct)
  case (1 a b zs)
  then show ?case by (cases zs rule: odds.cases) auto
qed auto

lemma fields_pair_sums: "fields w (evens ds) + fields w (odds ds) = fields w (pair_sums ds)"
proof (induction ds rule: pair_sums.induct)
  case (1 x y zs)
  have "fields w (evens (x # y # zs)) + fields w (odds (x # y # zs))
      = (x + y) + 2 ^ w * (fields w (evens zs) + fields w (odds zs))" by (simp add: distrib_left)
  then show ?case by (simp add: 1)
qed simp_all

lemma sum_pair_sums: "even (length ds) \<Longrightarrow> sum_list (pair_sums ds) = sum_list ds"
  by (induction ds rule: pair_sums.induct) auto

lemma length_pair_sums: "length (pair_sums ds) = length ds div 2"
  by (induction ds rule: pair_sums.induct) auto

lemma pair_sums_bound: "\<forall>d \<in> set ds. d \<le> b \<Longrightarrow> \<forall>d \<in> set (pair_sums ds). d \<le> 2 * b"
proof (induction ds rule: pair_sums.induct)
  case (1 x y zs)
  then show ?case by fastforce
qed auto

text \<open>One line of \<open>weight\<close>.\<close>

lemma weight_stage:
  fixes x m :: u32
  assumes x: "unat x = fields w ds" "length ds = 2 * n" "0 < n" "w * (2 * n) = 32"
    and ds: "\<forall>d \<in> set ds. d \<le> b" "b < 2 ^ w" "2 * b < 2 ^ (2 * w)"
    and m: "unat m = fields (2 * w) (replicate n (mask w))"
  shows "unat ((x AND m) + (drop_bit w x AND m)) = fields (2 * w) (pair_sums ds)"
proof -
  obtain d es where e: "ds = d # es" using x(2,3) by (cases ds) auto
  have lt: "\<forall>d \<in> set ds. d < 2 ^ w" using ds by auto
  have "unat (x AND m) = fields (2 * w) (evens ds)"
    using fields_and_mask [OF x(2) lt] by (simp add: unsigned_and_eq x(1) m)
  moreover have "unat (drop_bit w x AND m) = fields (2 * w) (odds ds)"
  proof -
    have "unat (drop_bit w x) = drop_bit w (fields w ds)"
      using take_bit_nat_eq_self [of "unat x" 32] unsigned_less [where 'a = nat, of x]
      by (simp add: unsigned_drop_bit_eq x(1) [symmetric])
    then have "unat (drop_bit w x) = fields w (es @ [0])"
      using drop_field [of d w es] lt e by simp
    moreover have "length (es @ [0]) = 2 * n" "\<forall>d \<in> set (es @ [0 :: nat]). d < 2 ^ w"
      using x(2) lt e by auto
    moreover have "evens (es @ [0]) = odds ds" using evens_tl [of ds 0] e arg_cong [OF x(2), of even] by simp
    ultimately show ?thesis using fields_and_mask [of "es @ [0]" n w] by (simp add: unsigned_and_eq m)
  qed
  moreover have "fields (2 * w) (pair_sums ds) < 2 ^ 32"
  proof -
    have "\<forall>d \<in> set (pair_sums ds). d < 2 ^ (2 * w)" using pair_sums_bound [OF ds(1)] ds(3) by fastforce
    from fields_less [OF this] show ?thesis using x(2,4) by (simp add: length_pair_sums mult.assoc mult.left_commute)
  qed
  ultimately show ?thesis by (simp add: unat_add_no_wrap fields_pair_sums)
qed

text \<open>The bits of a word as fields of one bit.\<close>

definition bits_of :: "u32 \<Rightarrow> nat list" where
  "bits_of x = map (\<lambda>i. of_bool (bit x i)) [0..<32]"

lemma fields_bits: "fields 1 (map (\<lambda>i. of_bool (bit n i)) [0..<k]) = take_bit k n" for n :: nat
proof (induction k arbitrary: n)
  case (Suc k)
  have "map (\<lambda>i. of_bool (bit n i) :: nat) [0..<Suc k] = of_bool (odd n) # map (\<lambda>i. of_bool (bit (n div 2) i)) [0..<k]"
    by (simp add: map_upt_Suc bit_0 del: upt_Suc flip: bit_Suc)
  then have "fields 1 (map (\<lambda>i. of_bool (bit n i)) [0..<Suc k]) = of_bool (odd n) + 2 ^ 1 * take_bit k (n div 2)"
    by (simp only: fields.simps Suc.IH) 
  then show ?case by (simp only: take_bit_Suc) (simp add: mod_2_eq_odd)
qed simp

lemma unat_bits: "unat x = fields 1 (bits_of x)"
proof -
  have "bits_of x = map (\<lambda>i. of_bool (bit (unat x) i)) [0..<32]"
    unfolding bits_of_def by (rule map_cong) (simp_all add: bit_unsigned_iff)
  then show ?thesis
    using fields_bits [of "unat x" 32] take_bit_nat_eq_self [of "unat x" 32] unsigned_less [where 'a = nat, of x] by simp
qed

lemma weight_sum: "unat (weight x) = sum_list (bits_of x)"
proof -
  have rep: "replicate 2 y = [y, y]" "replicate 4 y = [y, y, y, y]" "replicate 8 y = [y, y, y, y, y, y, y, y]"
    "replicate 16 y = [y, y, y, y, y, y, y, y, y, y, y, y, y, y, y, y]" for y :: nat
    by (simp_all add: numeral_eq_Suc)
  have m: "fields 2 (replicate 16 (mask 1)) = 0x55555555" "fields 4 (replicate 8 (mask 2)) = 0x33333333"
    "fields 8 (replicate 4 (mask 4)) = 0x0F0F0F0F" "fields 16 (replicate 2 (mask 8)) = 0x00FF00FF"
    "fields 32 (replicate 1 (mask 16)) = 0x0000FFFF"
    by (simp_all add: mask_eq_exp_minus_1 rep)
  define x1 where "x1 = (x AND 0x55555555) + (drop_bit 1 x AND 0x55555555)"
  define x2 where "x2 = (x1 AND 0x33333333) + (drop_bit 2 x1 AND 0x33333333)"
  define x3 where "x3 = (x2 AND 0x0F0F0F0F) + (drop_bit 4 x2 AND 0x0F0F0F0F)"
  define x4 where "x4 = (x3 AND 0x00FF00FF) + (drop_bit 8 x3 AND 0x00FF00FF)"
  define x5 where "x5 = (x4 AND 0x0000FFFF) + (drop_bit 16 x4 AND 0x0000FFFF)"
  define d1 where "d1 = pair_sums (bits_of x)"
  define d2 where "d2 = pair_sums d1"
  define d3 where "d3 = pair_sums d2"
  define d4 where "d4 = pair_sums d3"
  have l: "length (bits_of x) = 32" by (simp add: bits_of_def)
  then have l1: "length d1 = 16" by (simp add: d1_def length_pair_sums)
  then have l2: "length d2 = 8" by (simp add: d2_def length_pair_sums)
  then have l3: "length d3 = 4" by (simp add: d3_def length_pair_sums)
  then have l4: "length d4 = 2" by (simp add: d4_def length_pair_sums)
  have b: "\<forall>d \<in> set (bits_of x). d \<le> 1" by (auto simp: bits_of_def)
  have b1: "\<forall>d \<in> set d1. d \<le> 2" using pair_sums_bound [OF b] by (simp add: d1_def)
  have b2: "\<forall>d \<in> set d2. d \<le> 4" using pair_sums_bound [OF b1] by (simp add: d2_def)
  have b3: "\<forall>d \<in> set d3. d \<le> 8" using pair_sums_bound [OF b2] by (simp add: d3_def)
  have b4: "\<forall>d \<in> set d4. d \<le> 16" using pair_sums_bound [OF b3] by (simp add: d4_def)
  have "unat x1 = fields 2 d1"
    using weight_stage [OF unat_bits, of x 16 1 "0x55555555"] l b m(1) by (simp add: x1_def d1_def)
  then have "unat x2 = fields 4 d2"
    using weight_stage [of x1 2 d1 8 2 "0x33333333"] l1 b1 m(2) by (simp add: x2_def d2_def)
  then have "unat x3 = fields 8 d3"
    using weight_stage [of x2 4 d2 4 4 "0x0F0F0F0F"] l2 b2 m(3) by (simp add: x3_def d3_def)
  then have "unat x4 = fields 16 d4"
    using weight_stage [of x3 8 d3 2 8 "0x00FF00FF"] l3 b3 m(4) by (simp add: x4_def d4_def)
  then have "unat x5 = fields 32 (pair_sums d4)"
    using weight_stage [of x4 16 d4 1 16 "0x0000FFFF"] l4 b4 m(5) by (simp add: x5_def)
  also have "\<dots> = sum_list (pair_sums d4)"
  proof -
    obtain y z where "d4 = [y, z]" using l4 by (auto simp: length_Suc_conv numeral_2_eq_2)
    then show ?thesis by simp
  qed
  also have "\<dots> = sum_list (bits_of x)"
    using sum_pair_sums [of d4] sum_pair_sums [of d3] sum_pair_sums [of d2] sum_pair_sums [of d1] sum_pair_sums [of "bits_of x"]
      l l1 l2 l3 l4 by (simp flip: d1_def d2_def d3_def d4_def)
  also have "x5 = weight x" by (simp only: weight_def Let_def x1_def x2_def x3_def x4_def x5_def)
  finally show ?thesis .
qed

lemma length_filter_of_bool: "length (filter P xs) = sum_list (map (\<lambda>i. of_bool (P i)) xs)"
  by (induction xs) simp_all

text \<open>
  P3.  The bit-parallel \<open>weight\<close> counts the bits set in its argument.
\<close>

lemma weight_counts_bits: "unat (weight x) = card {i. bit x i}"
proof -
  have "{i. bit x i} = set (filter (bit x) [0..<32])"
    using bit_imp_le_length [of x] by auto
  then have "card {i. bit x i} = length (filter (bit x) [0..<32])"
    by (simp add: distinct_card del: set_filter)
  also have "\<dots> = sum_list (bits_of x)"
    by (simp add: length_filter_of_bool bits_of_def)
  finally show ?thesis by (simp add: weight_sum)
qed

section \<open>P4: the greatest common divisor\<close>

text \<open>The subtractions of the source; nothing guards them against an argument that is zero.\<close>

partial_function (option) gcd_sub :: "u32 \<Rightarrow> u32 \<Rightarrow> u32 option" where
  "gcd_sub x y = (if x = y then Some x else if x > y then gcd_sub (x - y) y else gcd_sub x (y - x))"

lemma gcd_sub_result:
  "x \<noteq> 0 \<Longrightarrow> y \<noteq> 0 \<Longrightarrow> \<exists>r. gcd_sub x y = Some r \<and> unat r = gcd (unat x) (unat y)"
proof (induction "unat x + unat y" arbitrary: x y rule: less_induct)
  case less
  consider "x = y" | "y < x" | "x < y" by fastforce
  then show ?case
  proof cases
    case 1
    then show ?thesis by (subst gcd_sub.simps) simp
  next
    case 2
    have u: "unat (x - y) = unat x - unat y" "unat y < unat x" "0 < unat y"
      using 2 less.prems by (simp_all add: unat_sub_no_wrap less_imp_le unat_gt_0 flip: word_less_nat_alt)
    have "x - y \<noteq> 0" using 2 by auto
    from less.hyps [OF _ this less.prems(2)] obtain r
      where "gcd_sub (x - y) y = Some r" "unat r = gcd (unat (x - y)) (unat y)" using u by auto
    moreover have "gcd_sub x y = gcd_sub (x - y) y" using 2 by (subst gcd_sub.simps) auto
    ultimately show ?thesis using u by (simp add: gcd_diff1_nat)
  next
    case 3
    have u: "unat (y - x) = unat y - unat x" "unat x < unat y" "0 < unat x"
      using 3 less.prems by (simp_all add: unat_sub_no_wrap less_imp_le unat_gt_0 flip: word_less_nat_alt)
    have "y - x \<noteq> 0" using 3 by auto
    from less.hyps [OF _ less.prems(1) this] obtain r
      where "gcd_sub x (y - x) = Some r" "unat r = gcd (unat x) (unat (y - x))" using u by auto
    moreover have "gcd_sub x y = gcd_sub x (y - x)" using 3 by (subst gcd_sub.simps) auto
    ultimately show ?thesis using u gcd_diff1_nat [of "unat x" "unat y"] by (simp add: gcd.commute)
  qed
qed

lemma gcd_sub_zero: "gcd_sub x y = Some r \<Longrightarrow> x = 0 \<longleftrightarrow> y = 0"
proof -
  assume some: "gcd_sub x y = Some r"
  have "(case (x, y) of (x, y) \<Rightarrow> (\<lambda>r. x = 0 \<longleftrightarrow> y = 0)) r"
  proof (rule gcd_sub.raw_induct)
    fix f :: "u32 \<Rightarrow> u32 \<Rightarrow> u32 option" and x y r
    assume f: "\<And>x y r. f x y = Some r \<Longrightarrow> x = 0 \<longleftrightarrow> y = 0"
      and step: "(if x = y then Some x else if y < x then f (x - y) y else f x (y - x)) = Some r"
    consider "x = y" | "y < x" | "x < y" by fastforce
    then show "x = 0 \<longleftrightarrow> y = 0"
    proof cases
      case 2
      then show ?thesis using step f [of "x - y" y r] by (auto split: if_splits)
    next
      case 3
      then show ?thesis using step f [of x "y - x" r] by (auto split: if_splits)
    qed simp
  qed (use some in simp)
  then show ?thesis by simp
qed

text \<open>
  C38: P4.  \<open>gcd\<close> by repeated subtraction returns the greatest common divisor of any two numbers that
  are not zero.  If exactly one of them is zero it subtracts zero for ever and never returns.
\<close>

theorem gcd_sub_correct:
  "(if x = 0 \<longleftrightarrow> y = 0 then gcd_sub x y = Some (word_of_nat (gcd (unat x) (unat y))) else gcd_sub x y = None)"
proof (cases "x = 0 \<longleftrightarrow> y = 0")
  case True
  show ?thesis
  proof (cases "x = 0")
    case True
    then show ?thesis using \<open>x = 0 \<longleftrightarrow> y = 0\<close> by (subst gcd_sub.simps) simp
  next
    case False
    then obtain r where "gcd_sub x y = Some r" "unat r = gcd (unat x) (unat y)"
      using gcd_sub_result [of x y] True by auto
    then show ?thesis using True by (simp flip: \<open>unat r = _\<close>)
  qed
next
  case False
  then show ?thesis using gcd_sub_zero [of x y] by (cases "gcd_sub x y") auto
qed

section \<open>P5: the primality test\<close>

text \<open>
  The loop over the odd divisors.  \<open>d * d\<close> is computed modulo \<open>2 ^ 32\<close> and \<open>d\<close> may wrap; a division by
  zero has no result.
\<close>

function prime_loop :: "u32 \<Rightarrow> u32 \<Rightarrow> int option" where
  "prime_loop x d =
     (if d * d \<le> x then
        if d = 0 then None else if x mod d = 0 then Some 0 else prime_loop x (d + 2)
      else Some 1)"
  by pat_completeness auto
termination
proof (relation "measure (\<lambda>(x, d). unat (1 - d))")
  fix x d :: u32
  assume "d \<noteq> 0" "x mod d \<noteq> 0"
  moreover from this have "d \<noteq> 1" by auto
  ultimately have "unat (1 - d) \<noteq> 0" "unat (1 - d) \<noteq> 1"
    using word_unat_eq_iff [of "1 - d" 1] by (simp_all add: unat_eq_0)
  then have "2 \<le> unat (1 - d)" by linarith
  moreover from this have "unat (1 - d - 2) = unat (1 - d) - 2"
    using unat_sub_no_wrap [of 2 "1 - d"] by (simp add: word_le_nat_alt)
  ultimately have "unat (1 - d - 2) < unat (1 - d)" by linarith
  then show "((x, d + 2), (x, d)) \<in> measure (\<lambda>(x, d). unat (1 - d))"
    by (simp add: algebra_simps)
qed simp

declare prime_loop.simps [simp del]

definition is_prime :: "u32 \<Rightarrow> int option" where
  "is_prime x = (if x AND 1 = 0 \<or> x < 2 then Some (if x = 2 then 1 else 0) else prime_loop x 3)"

definition prime_number :: "nat \<Rightarrow> bool" where
  "prime_number n \<longleftrightarrow> 2 \<le> n \<and> (\<forall>m \<in> {2..<n}. \<not> m dvd n)"

lemma prime_loop_result:
  assumes "odd (unat d)" "unat d \<le> 65535" "unat x < 65535 * 65535"
  shows "prime_loop x d = Some (if \<exists>e. odd e \<and> unat d \<le> e \<and> e * e \<le> unat x \<and> e dvd unat x then 0 else 1)"
  using assms
proof (induction x d rule: prime_loop.induct)
  case (1 x d)
  have "unat d * unat d \<le> 65535 * 65535" using 1(3) by (intro mult_le_mono) simp_all
  then have sq: "unat (d * d) = unat d * unat d" by (simp add: unat_word_ariths)
  have d: "d \<noteq> 0" using 1(2) by auto
  show ?case
  proof (cases "d * d \<le> x")
    case False
    then have lt: "unat x < unat d * unat d" by (simp add: word_le_nat_alt sq)
    have "\<not> (unat d \<le> e \<and> e * e \<le> unat x)" for e
      using mult_le_mono [of "unat d" e "unat d" e] lt by auto
    then show ?thesis using False by (subst prime_loop.simps) auto
  next
    case True
    then have le: "unat d * unat d \<le> unat x" by (simp add: word_le_nat_alt sq)
    show ?thesis
    proof (cases "x mod d = 0")
      case dvd: True
      then have "unat d dvd unat x" by (metis dvd_eq_mod_eq_0 unat_0 unat_mod)
      then have "\<exists>e. odd e \<and> unat d \<le> e \<and> e * e \<le> unat x \<and> e dvd unat x" using le 1(2) by blast
      then show ?thesis using True d dvd by (subst prime_loop.simps) simp
    next
      case False
      then have nd: "\<not> unat d dvd unat x" by (metis dvd_eq_mod_eq_0 unat_eq_0 unat_mod)
      have "unat d \<noteq> 65535"
        using le 1(4) by auto
      then have "unat d \<le> 65533" using 1(2,3) by presburger
      then have u: "unat (d + 2) = unat d + 2" by (simp add: unat_word_ariths)
      have "unat d \<le> e \<longleftrightarrow> e = unat d \<or> unat (d + 2) \<le> e" if "odd e" for e
        using that 1(2) u by presburger
      then have "(\<exists>e. odd e \<and> unat d \<le> e \<and> e * e \<le> unat x \<and> e dvd unat x)
          \<longleftrightarrow> (\<exists>e. odd e \<and> unat (d + 2) \<le> e \<and> e * e \<le> unat x \<and> e dvd unat x)"
        using nd by blast
      moreover have "prime_loop x d = prime_loop x (d + 2)"
        using True False d by (subst prime_loop.simps) simp
      ultimately show ?thesis using 1(1) [OF True d False] 1(2,4) u \<open>unat d \<le> 65533\<close> by simp
    qed
  qed
qed

text \<open>
  Near the top of the range the condition of the loop can no longer be false, since the square of an
  odd number is at most \<open>2 ^ 32 - 7\<close> there: every number is reported as composite, also the primes.
\<close>

lemma prime_loop_wraps:
  assumes "odd (unat d)" "2 ^ 32 - 7 \<le> unat x"
  shows "prime_loop x d = Some 0"
  using assms
proof (induction x d rule: prime_loop.induct)
  case (1 x d)
  obtain j where j: "unat d = 2 * j + 1" using 1(2) by (elim oddE)
  have "even (j * (j + 1))" by simp
  then obtain h where "j * (j + 1) = 2 * h" by blast
  then have "unat d * unat d = 8 * h + 1" by (simp add: j algebra_simps)
  then have "unat (d * d) = (8 * h + 1) mod 2 ^ 32" by (simp add: unat_word_ariths)
  moreover have "(8 * h + 1) mod 2 ^ 32 \<le> 2 ^ 32 - (7 :: nat)"
  proof -
    define r where "r = (8 * h + 1) mod 4294967296"
    have "r mod 8 = 1" "r < 4294967296" by (simp_all add: r_def mod_mod_cancel)
    moreover from this have "r div 8 < 536870912" by (intro less_mult_imp_div_less) simp
    ultimately have "r \<le> 4294967289" using div_mult_mod_eq [of r 8] by linarith
    then show ?thesis by (simp add: r_def)
  qed
  ultimately have le: "d * d \<le> x" using 1(3) by (simp add: word_le_nat_alt)
  have d: "d \<noteq> 0" using 1(2) by auto
  show ?case
  proof (cases "x mod d = 0")
    case True
    then show ?thesis using le d by (subst prime_loop.simps) simp
  next
    case False
    have "odd (unat (d + 2))" using 1(2) by (simp add: unat_word_ariths even_iff_mod_2_eq_zero mod_mod_cancel)
    then have "prime_loop x (d + 2) = Some 0" by (rule 1(1) [OF le d False _ 1(3)])
    then show ?thesis using le d False by (subst prime_loop.simps) simp
  qed
qed

lemma odd_prime_iff:
  assumes "odd n" "2 \<le> n"
  shows "prime_number n \<longleftrightarrow> \<not> (\<exists>e. odd e \<and> 3 \<le> e \<and> e * e \<le> n \<and> e dvd n)"
proof
  assume p: "prime_number n"
  show "\<not> (\<exists>e. odd e \<and> 3 \<le> e \<and> e * e \<le> n \<and> e dvd n)"
  proof
    assume "\<exists>e. odd e \<and> 3 \<le> e \<and> e * e \<le> n \<and> e dvd n"
    then obtain e where e: "3 \<le> e" "e * e \<le> n" "e dvd n" by blast
    have "3 * e \<le> e * e" using e(1) by (rule mult_le_mono1)
    then have "e < n" using e(1,2) by linarith
    then show False using p e by (auto simp: prime_number_def)
  qed
next
  assume none: "\<not> (\<exists>e. odd e \<and> 3 \<le> e \<and> e * e \<le> n \<and> e dvd n)"
  have no: "\<not> (1 < m \<and> m * m \<le> n \<and> m dvd n)" for m
  proof
    assume m: "1 < m \<and> m * m \<le> n \<and> m dvd n"
    then have "odd m" using assms(1) by (meson dvd_trans)
    moreover have "1 < m" using m by simp
    ultimately have "3 \<le> m" by presburger
    with \<open>odd m\<close> show False using none m by blast
  qed
  have "\<not> m dvd n" if m: "m \<in> {2..<n}" for m
  proof
    assume "m dvd n"
    then obtain j where j: "n = m * j" by blast
    then have "1 < j" using m by (cases "j = 0 \<or> j = 1") auto
    show False
    proof (cases "m \<le> j")
      case True
      then show False using no [of m] m j by simp
    next
      case False
      then show False using no [of j] \<open>1 < j\<close> j by simp
    qed
  qed
  then show "prime_number n" using assms(2) by (simp add: prime_number_def)
qed

lemma is_prime_result:
  assumes "unat x < 65535 * 65535"
  shows "is_prime x = Some (if prime_number (unat x) then 1 else 0)"
proof -
  have odd: "x AND 1 = 0 \<longleftrightarrow> even (unat x)"
    by (simp add: and_one_eq flip: unat_eq_0 unsigned_0) (simp add: even_iff_mod_2_eq_zero unat_mod)
  have two: "x < 2 \<longleftrightarrow> unat x < 2" "x = 2 \<longleftrightarrow> unat x = 2"
    by (simp_all add: word_less_nat_alt word_unat_eq_iff)
  show ?thesis
  proof (cases "even (unat x) \<or> unat x < 2")
    case True
    have "prime_number (unat x) \<longleftrightarrow> unat x = 2"
      using True by (auto simp: prime_number_def)
    then show ?thesis using True by (auto simp: is_prime_def odd two)
  next
    case False
    then have "prime_loop x 3 = Some (if prime_number (unat x) then 1 else 0)"
      using prime_loop_result [of 3 x] odd_prime_iff [of "unat x"] assms by auto
    then show ?thesis using False by (auto simp: is_prime_def odd two)
  qed
qed

text \<open>
  C36: P5.  Below \<open>65535 * 65535\<close>, in particular on all the numbers the programs try, \<open>is_prime\<close> returns
  1 for the primes and 0 for all other numbers.
\<close>

theorem is_prime_correct:
  assumes "unat x < 65535 * 65535"
  shows "is_prime x = Some (if prime_number (unat x) then 1 else 0)"
  by (rule is_prime_result [OF assms])

lemma is_prime_correct_witness: "is_prime 91 = Some 0 \<and> is_prime 97 = Some 1"
proof -
  have "\<not> prime_number 91" by (auto simp: prime_number_def intro!: bexI [of _ 7])
  moreover have "prime_number 97"
  proof -
    have "{3::nat..9} = {3, 4, 5, 6, 7, 8, 9}" by auto
    have "\<not> (odd e \<and> 3 \<le> e \<and> e * e \<le> 97 \<and> e dvd 97)" for e :: nat
    proof
      assume e: "odd e \<and> 3 \<le> e \<and> e * e \<le> 97 \<and> e dvd 97"
      have "e < 10"
      proof (rule ccontr)
        assume "\<not> e < 10"
        then have "10 * 10 \<le> e * e" by (intro mult_le_mono) simp_all
        then show False using e by simp
      qed
      moreover have "odd e" "3 \<le> e" using e by simp_all
      ultimately have "e = 3 \<or> e = 5 \<or> e = 7 \<or> e = 9" by presburger
      then show False using e by auto
    qed
    then show ?thesis by (subst odd_prime_iff) auto
  qed
  ultimately show ?thesis using is_prime_correct [of 91] is_prime_correct [of 97] by simp
qed

end
