(* ===== verification/Philosophers.thy ===== *)
theory Philosophers
  imports Prelude
begin

text \<open>
  The dining philosophers of \<^verbatim>\<open>user/philosophers.c\<close>: sixteen processes that run \<open>phil_thinker\<close> over
  sixteen semaphores, one per fork.  A state holds the values of the semaphores and the place each
  philosopher has reached in its program; between two places there is one call of the kernel.  A wait
  takes a unit or blocks, and a post hands its unit to one of the processes that wait for it or else
  adds it to the semaphore, as the kernel does (theory \<open>Semaphores\<close>).  Which waiting process is woken
  depends on process numbers, so the relation allows any.  Output, which no philosopher waits for, is
  not part of the state.
\<close>

definition PHIL_COUNT :: nat where "PHIL_COUNT = 16"

definition right_fork :: "nat \<Rightarrow> nat" where
  "right_fork left_fork = (if left_fork = PHIL_COUNT - 1 then 0 else left_fork + 1)"

definition left_first :: "nat \<Rightarrow> bool" where
  "left_first left_fork = (left_fork < right_fork left_fork)"

definition first_fork :: "nat \<Rightarrow> nat" where
  "first_fork i = (if left_first i then i else right_fork i)"

definition second_fork :: "nat \<Rightarrow> nat" where
  "second_fork i = (if left_first i then right_fork i else i)"

text \<open>
  The places of \<open>phil_thinker\<close>: before the first wait, blocked in it, before the second wait, blocked in
  it, eating, and between the two posts.
\<close>

datatype place = Thinking | Wait_First | Has_First | Wait_Second | Eating | Put_First

record table =
  forks :: "u32 list"
  places :: "place list"

text \<open>The fork a blocked philosopher waits for, and where it goes on.\<close>

definition waits_for :: "nat \<Rightarrow> place \<Rightarrow> nat option" where
  "waits_for i p = (case p of Wait_First \<Rightarrow> Some (first_fork i) | Wait_Second \<Rightarrow> Some (second_fork i) | _ \<Rightarrow> None)"

definition resumed :: "place \<Rightarrow> place" where
  "resumed p = (case p of Wait_First \<Rightarrow> Has_First | Wait_Second \<Rightarrow> Eating | _ \<Rightarrow> p)"

text \<open>\<open>sem_wait(f, 1)\<close> by philosopher \<open>i\<close>, which goes to \<open>got\<close> or, without a unit, to \<open>blocked\<close>.\<close>

definition wait_fork :: "nat \<Rightarrow> nat \<Rightarrow> place \<Rightarrow> place \<Rightarrow> table \<Rightarrow> table" where
  "wait_fork f i got blocked t =
     (if forks t ! f \<ge> 1 then t\<lparr>forks := (forks t)[f := forks t ! f - 1], places := (places t)[i := got]\<rparr>
      else t\<lparr>places := (places t)[i := blocked]\<rparr>)"

text \<open>\<open>sem_post(f, 1)\<close> when the kernel wakes \<open>w\<close>, or nobody.\<close>

definition post_fork :: "nat \<Rightarrow> nat option \<Rightarrow> table \<Rightarrow> table" where
  "post_fork f w t =
     (case w of
        None \<Rightarrow> t\<lparr>forks := (forks t)[f := forks t ! f + 1]\<rparr>
      | Some j \<Rightarrow> t\<lparr>places := (places t)[j := resumed (places t ! j)]\<rparr>)"

definition waiters :: "nat \<Rightarrow> table \<Rightarrow> nat list" where
  "waiters f t = filter (\<lambda>j. waits_for j (places t ! j) = Some f) [0..<PHIL_COUNT]"

definition wakes :: "nat \<Rightarrow> nat option \<Rightarrow> table \<Rightarrow> bool" where
  "wakes f w t = (case w of None \<Rightarrow> waiters f t = [] | Some j \<Rightarrow> j \<in> set (waiters f t))"

text \<open>One call of philosopher \<open>i\<close>, with \<open>w\<close> the process that a post wakes; \<open>None\<close> while it is blocked.\<close>

definition phil_call :: "nat \<Rightarrow> nat option \<Rightarrow> table \<Rightarrow> table option" where
  "phil_call i w t = (case places t ! i of
       Thinking \<Rightarrow> Some (wait_fork (first_fork i) i Has_First Wait_First t)
     | Has_First \<Rightarrow> Some (wait_fork (second_fork i) i Eating Wait_Second t)
     | Eating \<Rightarrow> if wakes (first_fork i) w t
                 then Some (post_fork (first_fork i) w (t\<lparr>places := (places t)[i := Put_First]\<rparr>)) else None
     | Put_First \<Rightarrow> if wakes (second_fork i) w t
                    then Some (post_fork (second_fork i) w (t\<lparr>places := (places t)[i := Thinking]\<rparr>)) else None
     | _ \<Rightarrow> None)"

text \<open>The semaphores as \<open>phil_spawner\<close> sets them up.\<close>

definition phil_start :: table where
  "phil_start = \<lparr>forks = replicate PHIL_COUNT 1, places = replicate PHIL_COUNT Thinking\<rparr>"

inductive phil_reach :: "table \<Rightarrow> bool" where
  start: "phil_reach phil_start"
| call: "phil_reach t \<Longrightarrow> i < PHIL_COUNT \<Longrightarrow> phil_call i w t = Some t' \<Longrightarrow> phil_reach t'"

section \<open>Who holds a fork\<close>

definition holds :: "nat \<Rightarrow> place \<Rightarrow> nat set" where
  "holds i p = (case p of
       Has_First \<Rightarrow> {first_fork i} | Wait_Second \<Rightarrow> {first_fork i}
     | Eating \<Rightarrow> {first_fork i, second_fork i} | Put_First \<Rightarrow> {second_fork i} | _ \<Rightarrow> {})"

definition holders :: "nat \<Rightarrow> place list \<Rightarrow> nat set" where
  "holders f ps = {i. i < PHIL_COUNT \<and> f \<in> holds i (ps ! i)}"

text \<open>
  A fork lies on the table or is in one hand, and nobody waits for a fork that lies on the table.
\<close>

definition table_ok :: "table \<Rightarrow> bool" where
  "table_ok t \<longleftrightarrow> length (forks t) = PHIL_COUNT \<and> length (places t) = PHIL_COUNT
     \<and> (\<forall>f < PHIL_COUNT. (forks t ! f = 1 \<and> holders f (places t) = {} \<and> waiters f t = [])
          \<or> (forks t ! f = 0 \<and> (\<exists>i. holders f (places t) = {i})))"

lemma fork_order:
  "i < PHIL_COUNT \<Longrightarrow> first_fork i < second_fork i \<and> second_fork i < PHIL_COUNT"
  by (auto simp: first_fork_def second_fork_def left_first_def right_fork_def PHIL_COUNT_def)

lemma forks_of: "{first_fork i, second_fork i} = {i, right_fork i}"
  by (auto simp: first_fork_def second_fork_def)

lemma holders_move:
  assumes "length ps = PHIL_COUNT" "i < PHIL_COUNT"
  shows "holders f (ps[i := p]) = (if f \<in> holds i p then insert i (holders f ps) else holders f ps - {i})"
  using assms by (auto simp: holders_def nth_list_update split: if_splits)

lemma waiters_move:
  assumes "length (places t) = PHIL_COUNT" "i < PHIL_COUNT"
  shows "set (waiters f (t\<lparr>places := (places t)[i := p]\<rparr>))
      = (if waits_for i p = Some f then insert i (set (waiters f t)) else set (waiters f t) - {i})"
  using assms by (auto simp: waiters_def nth_list_update split: if_splits)

text \<open>The state of one fork.\<close>

definition fork_ok :: "table \<Rightarrow> nat \<Rightarrow> bool" where
  "fork_ok t f \<longleftrightarrow> (forks t ! f = 1 \<and> holders f (places t) = {} \<and> set (waiters f t) = {})
     \<or> (forks t ! f = 0 \<and> (\<exists>i. holders f (places t) = {i}))"

lemma table_ok_forks:
  "table_ok t \<longleftrightarrow> length (forks t) = PHIL_COUNT \<and> length (places t) = PHIL_COUNT \<and> (\<forall>f < PHIL_COUNT. fork_ok t f)"
  by (simp add: table_ok_def fork_ok_def)

lemma fork_ok_move:
  assumes "table_ok t" "i < PHIL_COUNT" "g < PHIL_COUNT"
    and "g \<in> holds i p \<longleftrightarrow> g \<in> holds i (places t ! i)" "waits_for i p = Some g \<longrightarrow> forks t ! g = 0"
  shows "fork_ok (t\<lparr>places := (places t)[i := p]\<rparr>) g"
proof -
  have len: "length (places t) = PHIL_COUNT" and ok: "fork_ok t g" using assms(1,3) by (simp_all add: table_ok_forks)
  have "i \<in> holders g (places t) \<longleftrightarrow> g \<in> holds i (places t ! i)" using assms(2) by (simp add: holders_def)
  then have "holders g ((places t)[i := p]) = holders g (places t)"
    using holders_move [OF len assms(2), of g p] assms(4) by auto
  then show ?thesis
    using ok waiters_move [OF len assms(2), of g p] assms(5) by (auto simp: fork_ok_def)
qed

lemma wait_fork_ok:
  assumes t: "table_ok t" "i < PHIL_COUNT" "f < PHIL_COUNT"
    and p: "f \<notin> holds i (places t ! i)" "holds i got = insert f (holds i (places t ! i))" "waits_for i got = None"
      "holds i blocked = holds i (places t ! i)" "waits_for i blocked = Some f"
  shows "table_ok (wait_fork f i got blocked t)"
proof -
  have len: "length (places t) = PHIL_COUNT" "length (forks t) = PHIL_COUNT" and ok: "fork_ok t f"
    using t by (simp_all add: table_ok_forks)
  show ?thesis
  proof (cases "forks t ! f \<ge> 1")
    case False
    then have "forks t ! f = 0" using ok by (auto simp: fork_ok_def)
    then show ?thesis
      using fork_ok_move [OF t(1,2), of _ blocked] p False len by (auto simp: wait_fork_def table_ok_forks)
  next
    case True
    then have f: "forks t ! f = 1" "holders f (places t) = {}" "set (waiters f t) = {}"
      using ok by (auto simp: fork_ok_def)
    have "fork_ok (t\<lparr>forks := (forks t)[f := 0], places := (places t)[i := got]\<rparr>) g" if g: "g < PHIL_COUNT" for g
    proof (cases "g = f")
      case True
      then show ?thesis
        using holders_move [OF len(1) t(2), of f got] f p(2) len(2) t(3) by (simp add: fork_ok_def)
    next
      case False
      have "fork_ok (t\<lparr>places := (places t)[i := got]\<rparr>) g"
        by (rule fork_ok_move [OF t(1,2) g]) (use p False in auto)
      then show ?thesis using False by (simp add: fork_ok_def waiters_def)
    qed
    then show ?thesis using True f len by (simp add: wait_fork_def table_ok_forks)
  qed
qed

lemma resumed_holds:
  assumes "waits_for j p = Some f" "j < PHIL_COUNT"
  shows "holds j (resumed p) = insert f (holds j p) \<and> f \<notin> holds j p \<and> waits_for j (resumed p) = None"
  using assms fork_order [OF assms(2)] by (auto simp: waits_for_def resumed_def holds_def split: place.splits)

lemma post_fork_ok:
  assumes t: "table_ok t" "i < PHIL_COUNT" "f < PHIL_COUNT" "wakes f w t"
    and p: "f \<in> holds i (places t ! i)" "holds i q = holds i (places t ! i) - {f}" "waits_for i q = None"
      "waits_for i (places t ! i) = None"
  shows "table_ok (post_fork f w (t\<lparr>places := (places t)[i := q]\<rparr>))"
proof -
  have len: "length (places t) = PHIL_COUNT" "length (forks t) = PHIL_COUNT" and ok: "fork_ok t f"
    using t by (simp_all add: table_ok_forks)
  have "i \<in> holders f (places t)" using p(1) t(2) by (simp add: holders_def)
  then have f: "forks t ! f = 0" "holders f (places t) = {i}" using ok by (auto simp: fork_ok_def)
  let ?t1 = "t\<lparr>places := (places t)[i := q]\<rparr>"
  have other: "fork_ok ?t1 g" if "g < PHIL_COUNT" "g \<noteq> f" for g
    by (rule fork_ok_move [OF t(1,2) that(1)]) (use p that in auto)
  have h1: "holders f (places ?t1) = {}" using holders_move [OF len(1) t(2), of f q] f p(2) by simp
  show ?thesis
  proof (cases w)
    case None
    then have "set (waiters f ?t1) = {}"
      using t(4) waiters_move [OF len(1) t(2), of f q] p(3) by (simp add: wakes_def)
    then have "fork_ok (?t1\<lparr>forks := (forks t)[f := forks t ! f + 1]\<rparr>) f"
      using h1 f len t(3) by (simp add: fork_ok_def waiters_def)
    moreover have "fork_ok (?t1\<lparr>forks := (forks t)[f := forks t ! f + 1]\<rparr>) g" if "g < PHIL_COUNT" "g \<noteq> f" for g
      using other [OF that] that by (simp add: fork_ok_def waiters_def)
    ultimately show ?thesis using None len by (auto simp: post_fork_def table_ok_forks)
  next
    case (Some j)
    then have j: "j < PHIL_COUNT" "waits_for j (places t ! j) = Some f" using t(4) by (auto simp: wakes_def waiters_def)
    then have ne: "j \<noteq> i" using p(4) by auto
    then have pj: "places ?t1 ! j = places t ! j" by simp
    note r = resumed_holds [OF j(2,1)]
    let ?q = "resumed (places t ! j)"
    have len1: "length (places ?t1) = PHIL_COUNT" using len by simp
    have "fork_ok (?t1\<lparr>places := (places ?t1)[j := ?q]\<rparr>) g" if g: "g < PHIL_COUNT" for g
    proof (cases "g = f")
      case True
      then show ?thesis using holders_move [OF len1 j(1), of f ?q] h1 r f(1) by (simp add: fork_ok_def)
    next
      case False
      have "j \<in> holders g (places ?t1) \<longleftrightarrow> g \<in> holds j (places t ! j)" using j(1) ne by (simp add: holders_def)
      then have "holders g ((places ?t1)[j := ?q]) = holders g (places ?t1)"
        using holders_move [OF len1 j(1), of g ?q] r False by auto
      moreover have "set (waiters g (?t1\<lparr>places := (places ?t1)[j := ?q]\<rparr>)) \<subseteq> set (waiters g ?t1)"
        using waiters_move [OF len1 j(1), of g ?q] r by auto
      ultimately show ?thesis using other [OF g False] by (auto simp: fork_ok_def)
    qed
    then show ?thesis using Some pj len by (simp add: post_fork_def table_ok_forks)
  qed
qed

lemma phil_call_ok:
  assumes t: "table_ok t" "i < PHIL_COUNT" and call: "phil_call i w t = Some t'"
  shows "table_ok t'"
proof -
  have o: "first_fork i < second_fork i" "first_fork i < PHIL_COUNT" "second_fork i < PHIL_COUNT"
    using fork_order [OF t(2)] by auto
  have cases: "places t ! i \<in> {Thinking, Has_First} \<or> places t ! i \<in> {Eating, Put_First}"
    using call by (auto simp: phil_call_def split: place.splits)
  then show ?thesis
  proof
    assume "places t ! i \<in> {Thinking, Has_First}"
    then show ?thesis
      using call t o by (auto simp: phil_call_def holds_def waits_for_def intro!: wait_fork_ok)
  next
    assume "places t ! i \<in> {Eating, Put_First}"
    then show ?thesis
      using call t o by (auto simp: phil_call_def holds_def waits_for_def intro!: post_fork_ok split: if_splits)
  qed
qed

lemma phil_reach_ok: "phil_reach t \<Longrightarrow> table_ok t"
proof (induction rule: phil_reach.induct)
  case start
  have "holders f (replicate PHIL_COUNT Thinking) = {}" "waiters f phil_start = []" for f
    by (auto simp: holders_def holds_def waiters_def waits_for_def phil_start_def filter_empty_conv)
  then show ?case by (simp add: table_ok_def phil_start_def)
next
  case (call t i w t')
  then show ?case using phil_call_ok by blast
qed

text \<open>
  C23: Mutual exclusion at the table.  In every reachable state a fork is in one hand at most, so that a
  philosopher who eats holds both forks alone and none of his neighbours eats.
\<close>

theorem forks_exclusive:
  assumes "phil_reach t" "i < PHIL_COUNT" "j < PHIL_COUNT" "i \<noteq> j"
  shows "holds i (places t ! i) \<inter> holds j (places t ! j) = {}
    \<and> \<not> (places t ! i = Eating \<and> places t ! j = Eating \<and> {i, right_fork i} \<inter> {j, right_fork j} \<noteq> {})"
proof -
  have disjoint: "holds i (places t ! i) \<inter> holds j (places t ! j) = {}"
  proof (rule ccontr)
    assume "holds i (places t ! i) \<inter> holds j (places t ! j) \<noteq> {}"
    then obtain f where f: "f \<in> holds i (places t ! i)" "f \<in> holds j (places t ! j)" by blast
    then have "f < PHIL_COUNT"
      using fork_order [OF assms(2)] by (auto simp: holds_def split: place.splits)
    moreover have "i \<in> holders f (places t)" "j \<in> holders f (places t)" using f assms(2,3) by (simp_all add: holders_def)
    ultimately show False
      using phil_reach_ok [OF assms(1)] assms(4) by (auto simp: table_ok_def)
  qed
  moreover have "holds l Eating = {l, right_fork l}" for l
    using forks_of [of l] by (simp add: holds_def)
  ultimately show ?thesis by auto
qed

lemma forks_exclusive_witness:
  "\<exists>t. phil_reach t \<and> places t ! 0 = Eating \<and> holds 0 (places t ! 0) \<inter> holds 1 (places t ! 1) = {}"
proof -
  have n: "replicate 16 y ! 0 = y" "replicate 16 y ! Suc 0 = y" for y :: 'a by simp_all
  have f: "first_fork 0 = 0" "second_fork 0 = 1"
    by (simp_all add: first_fork_def second_fork_def left_first_def right_fork_def PHIL_COUNT_def)
  obtain t1 where t1: "phil_call 0 None phil_start = Some t1" "places t1 ! 0 = Has_First" "forks t1 ! Suc 0 = 1" "length (places t1) = 16"
    by (simp add: phil_call_def phil_start_def PHIL_COUNT_def n f wait_fork_def)
  obtain t2 where t2: "phil_call 0 None t1 = Some t2" "places t2 ! 0 = Eating"
    using t1(2,3,4) by (simp add: phil_call_def f wait_fork_def)
  have "phil_reach t2"
    using phil_reach.intros(2) [OF phil_reach.intros(2) [OF phil_reach.intros(1) _ t1(1)] _ t2(1)] by (simp add: PHIL_COUNT_def)
  moreover from this have "holds 0 (places t2 ! 0) \<inter> holds 1 (places t2 ! 1) = {}"
    using forks_exclusive [of t2 0 1] by (simp add: PHIL_COUNT_def)
  ultimately show ?thesis using t2(2) by blast
qed

section \<open>Progress\<close>

text \<open>Not everybody is blocked: the largest fork somebody waits for is held by nobody who waits.\<close>

lemma somebody_ready:
  assumes "table_ok t"
  shows "\<exists>i < PHIL_COUNT. waits_for i (places t ! i) = None"
proof (rule ccontr)
  assume "\<not> ?thesis"
  then have all: "\<exists>f. waits_for i (places t ! i) = Some f" if "i < PHIL_COUNT" for i using that by auto
  define W where "W = {f. f < PHIL_COUNT \<and> waiters f t \<noteq> []}"
  have "finite W" by (simp add: W_def)
  moreover have member: "f \<in> W" if "i < PHIL_COUNT" "waits_for i (places t ! i) = Some f" for i f
  proof -
    have "i \<in> set (waiters f t)" using that by (simp add: waiters_def)
    moreover have "f < PHIL_COUNT"
      using that(2) fork_order [OF that(1)] by (auto simp: waits_for_def split: place.splits)
    ultimately show ?thesis by (auto simp: W_def)
  qed
  moreover have "W \<noteq> {}" using all [of 0] member [of 0] by (auto simp: PHIL_COUNT_def)
  ultimately have top: "Max W \<in> W" "\<And>f. f \<in> W \<Longrightarrow> f \<le> Max W" by auto
  then have "forks t ! Max W = 0 \<and> (\<exists>i. holders (Max W) (places t) = {i})"
    using assms by (auto simp: table_ok_def W_def)
  then obtain h where h: "h < PHIL_COUNT" "Max W \<in> holds h (places t ! h)" by (auto simp: holders_def)
  obtain f where f: "waits_for h (places t ! h) = Some f" using all [OF h(1)] by blast
  then have "Max W = first_fork h" "f = second_fork h"
    using h(2) by (auto simp: holds_def waits_for_def split: place.splits)
  then have "Max W < f" using fork_order [OF h(1)] by simp
  then show False using top(2) [OF member [OF h(1) f]] by simp
qed

lemma ready_can_call:
  assumes "waits_for i (places t ! i) = None"
  shows "\<exists>w t'. phil_call i w t = Some t'"
proof -
  have "\<exists>w. wakes f w t" for f
    by (cases "waiters f t") (auto simp: wakes_def intro: exI [of _ None] exI [of _ "Some j" for j])
  then show ?thesis using assms by (auto simp: phil_call_def waits_for_def split: place.splits)
qed

text \<open>A run of calls, and whether somebody starts to eat in it.\<close>

fun phil_run :: "(nat \<times> nat option) list \<Rightarrow> table \<Rightarrow> table option" where
  "phil_run [] t = Some t"
| "phil_run ((i, w) # cs) t =
     (if i < PHIL_COUNT then case phil_call i w t of None \<Rightarrow> None | Some t' \<Rightarrow> phil_run cs t' else None)"

definition starts_eating :: "table \<Rightarrow> table \<Rightarrow> bool" where
  "starts_eating t t' \<longleftrightarrow> (\<exists>i < PHIL_COUNT. places t ! i \<noteq> Eating \<and> places t' ! i = Eating)"

fun meal_in_run :: "(nat \<times> nat option) list \<Rightarrow> table \<Rightarrow> bool" where
  "meal_in_run [] t = False"
| "meal_in_run ((i, w) # cs) t =
     (case phil_call i w t of None \<Rightarrow> False | Some t' \<Rightarrow> starts_eating t t' \<or> meal_in_run cs t')"

text \<open>How far a philosopher is from being stuck before the next meal.\<close>

definition distance :: "place \<Rightarrow> nat" where
  "distance p = (case p of Eating \<Rightarrow> 5 | Put_First \<Rightarrow> 4 | Thinking \<Rightarrow> 3 | Wait_First \<Rightarrow> 2 | Has_First \<Rightarrow> 1 | Wait_Second \<Rightarrow> 0)"

definition distances :: "table \<Rightarrow> nat" where
  "distances t = (\<Sum>i < PHIL_COUNT. distance (places t ! i))"

lemma distances_less:
  assumes "\<And>l. l < PHIL_COUNT \<Longrightarrow> l \<noteq> i \<Longrightarrow> distance (places t' ! l) \<le> distance (places t ! l)"
    and "i < PHIL_COUNT" "distance (places t' ! i) < distance (places t ! i)"
  shows "distances t' < distances t"
  unfolding distances_def
proof (rule sum_strict_mono_ex1)
  show "\<forall>l \<in> {..<PHIL_COUNT}. distance (places t' ! l) \<le> distance (places t ! l)"
    using assms by (metis lessThan_iff less_imp_le_nat)
qed (use assms in auto)

lemma move_uses_distance:
  assumes t: "table_ok t" "i < PHIL_COUNT" and t': "places t' = (places t)[i := p]"
    and p: "distance p < distance (places t ! i) \<or> p = Eating" "places t ! i \<noteq> Eating \<or> p \<noteq> Eating"
    and no: "\<not> starts_eating t t'"
  shows "distances t' < distances t"
proof (rule distances_less [OF _ t(2)])
  have len: "length (places t) = PHIL_COUNT" using t(1) by (simp add: table_ok_def)
  then have "p \<noteq> Eating" using no t(2) t' p(2) by (auto simp: starts_eating_def)
  then show "distance (places t' ! i) < distance (places t ! i)" using p(1) t' t(2) len by simp
qed (simp add: t')

lemma post_uses_distance:
  assumes t: "table_ok t" "i < PHIL_COUNT" "wakes f w t" "waits_for i (places t ! i) = None"
    and p: "distance p < distance (places t ! i)"
    and no: "\<not> starts_eating t (post_fork f w (t\<lparr>places := (places t)[i := p]\<rparr>))" (is "\<not> starts_eating t ?t'")
  shows "distances ?t' < distances t"
proof (cases w)
  case None
  have "p \<noteq> Eating" using p by (auto simp: distance_def split: place.splits)
  then show ?thesis using None p by (intro move_uses_distance [OF t(1,2) _ _ _ no, of p]) (simp_all add: post_fork_def)
next
  case (Some j)
  have len: "length (places t) = PHIL_COUNT" using t(1) by (simp add: table_ok_def)
  have j: "j < PHIL_COUNT" "waits_for j (places t ! j) = Some f" using t(3) Some by (auto simp: wakes_def waiters_def)
  then have ne: "j \<noteq> i" using t(4) by auto
  have t': "places ?t' = (places t)[i := p, j := resumed (places t ! j)]" using Some ne by (simp add: post_fork_def)
  have "places t ! j \<noteq> Wait_Second"
  proof
    assume w: "places t ! j = Wait_Second"
    have "places ?t' ! j = resumed (places t ! j)" unfolding t' using j(1) len by simp
    then have "starts_eating t ?t'" using w j(1) by (auto simp: starts_eating_def resumed_def)
    then show False using no by simp
  qed
  then have "places t ! j = Wait_First" using j(2) by (auto simp: waits_for_def split: place.splits)
  then show ?thesis
    using p j(1) ne len t(2) unfolding t'
    by (intro distances_less [OF _ t(2)]) (auto simp: t' nth_list_update distance_def resumed_def)
qed

lemma call_uses_distance:
  assumes t: "table_ok t" "i < PHIL_COUNT" and call: "phil_call i w t = Some t'" "\<not> starts_eating t t'"
  shows "distances t' < distances t"
proof -
  have wait: "places (wait_fork f i got blocked t) = (places t)[i := if forks t ! f \<ge> 1 then got else blocked]" for f got blocked
    by (simp add: wait_fork_def)
  consider "places t ! i = Thinking" | "places t ! i = Has_First" | "places t ! i = Eating" | "places t ! i = Put_First"
    using call(1) by (auto simp: phil_call_def split: place.splits)
  then show ?thesis
  proof cases
    case 1
    then have "t' = wait_fork (first_fork i) i Has_First Wait_First t" using call(1) by (simp add: phil_call_def)
    then show ?thesis using call(2) 1 by (intro move_uses_distance [OF t _ _ _ call(2)]) (auto simp: wait distance_def)
  next
    case 2
    then have "t' = wait_fork (second_fork i) i Eating Wait_Second t" using call(1) by (simp add: phil_call_def)
    then show ?thesis using call(2) 2 by (intro move_uses_distance [OF t _ _ _ call(2)]) (auto simp: wait distance_def)
  next
    case 3
    then show ?thesis using call t
      by (auto simp: phil_call_def waits_for_def distance_def intro!: post_uses_distance split: if_splits)
  next
    case 4
    then show ?thesis using call t
      by (auto simp: phil_call_def waits_for_def distance_def intro!: post_uses_distance split: if_splits)
  qed
qed

lemma distances_bound: "distances t \<le> 80"
proof -
  have "distance p \<le> 5" for p by (simp add: distance_def split: place.split)
  then have "distances t \<le> (\<Sum>i < PHIL_COUNT. 5)" unfolding distances_def by (intro sum_mono)
  then show ?thesis by (simp add: PHIL_COUNT_def)
qed

lemma long_run_has_meal:
  "table_ok t \<Longrightarrow> phil_run cs t \<noteq> None \<Longrightarrow> distances t < length cs \<Longrightarrow> meal_in_run cs t"
proof (induction cs t rule: phil_run.induct)
  case (2 i w cs t)
  then obtain t' where t': "i < PHIL_COUNT" "phil_call i w t = Some t'" "phil_run cs t' \<noteq> None"
    by (auto split: if_splits option.splits)
  show ?case
  proof (cases "starts_eating t t'")
    case True
    then show ?thesis using t' by simp
  next
    case False
    have "table_ok t'" using phil_call_ok [OF 2(2) t'(1,2)] .
    moreover have "distances t' < length cs" using call_uses_distance [OF 2(2) t'(1,2) False] 2(4) by simp
    ultimately show ?thesis using 2(1) [OF t'(1,2)] t'(2,3) by simp
  qed
qed simp

text \<open>
  C24: No deadlock and no livelock at the table.  In every reachable state some philosopher is not
  blocked and can make a call, and in every run of more than 80 calls from there somebody starts to eat,
  whoever makes the calls and whoever the posts wake.
\<close>

theorem philosophers_progress:
  assumes "phil_reach t"
  shows "(\<exists>i < PHIL_COUNT. \<exists>w t'. phil_call i w t = Some t')
    \<and> (80 < length cs \<longrightarrow> phil_run cs t \<noteq> None \<longrightarrow> meal_in_run cs t)"
proof -
  note ok = phil_reach_ok [OF assms]
  have "\<exists>i < PHIL_COUNT. \<exists>w t'. phil_call i w t = Some t'"
    using somebody_ready [OF ok] ready_can_call by blast
  moreover have "80 < length cs \<longrightarrow> phil_run cs t \<noteq> None \<longrightarrow> meal_in_run cs t"
    using long_run_has_meal [OF ok, of cs] distances_bound [of t] by auto
  ultimately show ?thesis by blast
qed

lemma one_meal: "phil_run [(0, None), (0, None), (0, None), (0, None)] phil_start = Some phil_start"
proof -
  have n: "replicate 16 y ! 0 = y" "replicate 16 y ! Suc 0 = y" "length (replicate 16 y) = 16" for y :: 'a by simp_all
  have f: "first_fork 0 = 0" "second_fork 0 = Suc 0"
    by (simp_all add: first_fork_def second_fork_def left_first_def right_fork_def PHIL_COUNT_def)
  have same: "(replicate 16 y)[0 := y] = replicate 16 y" "(replicate 16 y)[0 := y, Suc 0 := y] = replicate 16 y" for y :: 'a
  proof -
    have u: "i < 16 \<Longrightarrow> (replicate 16 y)[i := y] = replicate 16 y" for i
      by (simp only: list_update_same_conv length_replicate nth_replicate)
    show "(replicate 16 y)[0 := y] = replicate 16 y" "(replicate 16 y)[0 := y, Suc 0 := y] = replicate 16 y"
      by (simp_all add: u)
  qed
  have free: "waiters g t = []" if "places t = (replicate 16 Thinking)[0 := x]" "waits_for 0 x = None" for g t x
  proof -
    have "waits_for j (places t ! j) = None" if "j < 16" for j
      using that \<open>places t = _\<close> \<open>waits_for 0 x = None\<close> by (cases "j = 0") (simp_all add: waits_for_def)
    then show ?thesis by (auto simp: waiters_def filter_empty_conv PHIL_COUNT_def)
  qed
  have w: "waits_for 0 Eating = None" "waits_for 0 Put_First = None" by (simp_all add: waits_for_def)
  define t1 where "t1 = \<lparr>forks = (replicate 16 1)[0 := 0], places = (replicate 16 Thinking)[0 := Has_First]\<rparr>"
  define t2 where "t2 = \<lparr>forks = (replicate 16 1)[0 := 0, Suc 0 := 0], places = (replicate 16 Thinking)[0 := Eating]\<rparr>"
  define t3 where "t3 = \<lparr>forks = (replicate 16 1)[0 := 1, Suc 0 := 0], places = (replicate 16 Thinking)[0 := Put_First]\<rparr>"
  have "phil_call 0 None phil_start = Some t1"
    by (simp add: phil_call_def phil_start_def wait_fork_def PHIL_COUNT_def f n t1_def)
  moreover have "phil_call 0 None t1 = Some t2"
    by (simp add: phil_call_def wait_fork_def f n t1_def t2_def)
  moreover have "phil_call 0 None t2 = Some t3"
    using free [of t2 Eating] w(1) by (simp add: phil_call_def post_fork_def wakes_def f t2_def t3_def list_update_swap)
  moreover have "phil_call 0 None t3 = Some phil_start"
    using free [of t3 Put_First] w(2) same [of "1 :: u32"] same [of Thinking]
    by (simp add: phil_call_def post_fork_def wakes_def f t3_def phil_start_def PHIL_COUNT_def)
  ultimately show ?thesis by (simp add: PHIL_COUNT_def)
qed

lemma philosophers_progress_witness: "meal_in_run (replicate 84 (0, None)) phil_start"
proof -
  have app: "phil_run (as @ bs) t = (case phil_run as t of None \<Rightarrow> None | Some t' \<Rightarrow> phil_run bs t')" for as bs t
    by (induction as t rule: phil_run.induct) (simp_all split: option.split)
  have "phil_run (replicate (4 * n) (0, None)) phil_start = Some phil_start" for n
  proof (induction n)
    case (Suc n)
    have "replicate (4 * Suc n) (0, None) = [(0, None), (0, None), (0, None), (0, None :: nat option)] @ replicate (4 * n) (0 :: nat, None)"
      by (simp add: numeral_eq_Suc)
    then show ?case by (simp only: app one_meal Suc option.case)
  qed simp
  from this [of 21] have "phil_run (replicate 84 (0, None)) phil_start \<noteq> None" by simp
  then show ?thesis using philosophers_progress [OF phil_reach.start, of "replicate 84 (0, None)"] by simp
qed

end
