(* ===== verification/Phil_Kernel.thy ===== *)
theory Phil_Kernel
  imports Semaphores Philosophers
begin

text \<open>
  The philosophers on the kernel: a state of the kernel in which the processes \<open>P i\<close> are the
  philosophers represents a table, and the system calls they make are the calls of theory
  \<open>Philosophers\<close>.  Other processes may exist, the spawner among them, but none that waits for a semaphore.
\<close>

definition represents :: "(nat \<Rightarrow> nat) \<Rightarrow> kstate \<Rightarrow> table \<Rightarrow> bool" where
  "represents P k t \<longleftrightarrow> length (sems k) = PCB_SIZE \<and> inj_on P {..<PHIL_COUNT}
     \<and> (\<forall>i < PHIL_COUNT. process_exists k (P i))
     \<and> (\<forall>f < PHIL_COUNT. sems k ! f = forks t ! f)
     \<and> (\<forall>j. process_exists k j \<longrightarrow> status (pcbs k ! j) = STATUS_WAITING \<longrightarrow> (\<exists>i < PHIL_COUNT. j = P i))
     \<and> (\<forall>i < PHIL_COUNT. status (pcbs k ! P i) = STATUS_WAITING \<longleftrightarrow> waits_for i (places t ! i) \<noteq> None)
     \<and> (\<forall>i < PHIL_COUNT. \<forall>f. waits_for i (places t ! i) = Some f \<longrightarrow>
          load_semwait k (waiting (pcbs k ! P i)) = Some \<lparr>sw_id = word_of_nat f, sw_x = 1\<rparr>)
     \<and> inj_on (\<lambda>i. waiting (pcbs k ! P i)) {i. i < PHIL_COUNT \<and> waits_for i (places t ! i) \<noteq> None}"

text \<open>The system call a philosopher makes next, by number and arguments.\<close>

definition phil_syscall :: "nat \<Rightarrow> place \<Rightarrow> (u32 \<times> u32) option" where
  "phil_syscall i p = (case p of
       Thinking \<Rightarrow> Some (0xA, word_of_nat (first_fork i))
     | Has_First \<Rightarrow> Some (0xA, word_of_nat (second_fork i))
     | Eating \<Rightarrow> Some (9, word_of_nat (first_fork i))
     | Put_First \<Rightarrow> Some (9, word_of_nat (second_fork i))
     | _ \<Rightarrow> None)"

lemma fork_word: "f < PHIL_COUNT \<Longrightarrow> unat (word_of_nat f :: u32) = f"
  by (simp add: PHIL_COUNT_def unat_of_nat)

lemma waits_for_less: "waits_for i p = Some f \<Longrightarrow> i < PHIL_COUNT \<Longrightarrow> f < PHIL_COUNT"
  using fork_order [of i] by (auto simp: waits_for_def split: place.splits)

text \<open>Only these parts of the kernel matter.\<close>

lemma represents_same:
  assumes "represents P k t" "sems k' = sems k" "process_exists k' = process_exists k" "heap k' = heap k"
    and "\<And>j. waiting (pcbs k' ! j) = waiting (pcbs k ! j)"
    and "\<And>j. process_exists k j \<Longrightarrow> (status (pcbs k' ! j) = STATUS_WAITING) = (status (pcbs k ! j) = STATUS_WAITING)"
  shows "represents P k' t"
  using assms by (simp add: represents_def load_semwait_def)

lemma represents_inj: "represents P k t \<Longrightarrow> l < PHIL_COUNT \<Longrightarrow> i < PHIL_COUNT \<Longrightarrow> P l = P i \<Longrightarrow> l = i"
  by (auto simp: represents_def dest: inj_onD)

lemma represents_eligible:
  assumes r: "represents P k t" and f: "f < PHIL_COUNT"
  shows "eligible k (word_of_nat f) 1 j \<longleftrightarrow> (\<exists>i \<in> set (waiters f t). j = P i)"
proof
  assume e: "eligible k (word_of_nat f) 1 j"
  then obtain i where i: "i < PHIL_COUNT" "j = P i" using r by (auto simp: eligible_def represents_def)
  then obtain g where g: "waits_for i (places t ! i) = Some g"
    using e r by (auto simp: eligible_def represents_def)
  then have "load_semwait k (waiting (pcbs k ! P i)) = Some \<lparr>sw_id = word_of_nat g, sw_x = 1\<rparr>"
    using i r by (auto simp: represents_def)
  then have "word_of_nat g = (word_of_nat f :: u32)" using e i by (simp add: eligible_def)
  then have "g = f" using fork_word [OF f] fork_word [OF waits_for_less [OF g i(1)]] by metis
  then show "\<exists>i \<in> set (waiters f t). j = P i" using i g by (auto simp: waiters_def)
next
  assume "\<exists>i \<in> set (waiters f t). j = P i"
  then obtain i where i: "i < PHIL_COUNT" "waits_for i (places t ! i) = Some f" "j = P i" by (auto simp: waiters_def)
  then show "eligible k (word_of_nat f) 1 j" using r by (simp add: eligible_def represents_def)
qed

text \<open>The caller moves on without waiting.\<close>

lemma represents_move:
  assumes "represents P k t" "length (places t) = PHIL_COUNT" "i < PHIL_COUNT"
    and "waits_for i (places t ! i) = None" "waits_for i p = None"
  shows "represents P k (t\<lparr>places := (places t)[i := p]\<rparr>)"
proof -
  have "waits_for l ((places t)[i := p] ! l) = waits_for l (places t ! l)" for l
    using assms(2-5) by (cases "l = i") simp_all
  then show ?thesis using assms(1) by (simp add: represents_def)
qed

lemma represents_sems:
  assumes "represents P k t" "length (forks t) = PHIL_COUNT" "f < PHIL_COUNT"
  shows "represents P (k\<lparr>sems := (sems k)[f := x]\<rparr>) (t\<lparr>forks := (forks t)[f := x]\<rparr>)"
proof -
  have "f < length (sems k)" using assms by (simp add: represents_def PHIL_COUNT_def PCB_SIZE_def)
  then show ?thesis
    using assms by (auto simp: represents_def process_exists_def load_semwait_def nth_list_update)
qed

lemma represents_wake:
  assumes r: "represents P k t" "length (places t) = PHIL_COUNT" "length (pcbs k) = PCB_SIZE"
    and j: "j < PHIL_COUNT" "waits_for j (places t ! j) = Some f"
  shows "represents P (wake (P j) k) (t\<lparr>places := (places t)[j := resumed (places t ! j)]\<rparr>)"
proof -
  let ?k = "wake (P j) k"
  have ex: "process_exists ?k = process_exists k" by (simp add: wake_def process_exists_def fun_eq_iff)
  have pj: "P j < PCB_SIZE" using r(1) j(1) process_exists_less by (auto simp: represents_def)
  have st: "status (pcbs ?k ! l) = (if l = P j then STATUS_READY else status (pcbs k ! l))"
    "waiting (pcbs ?k ! l) = waiting (pcbs k ! l)" for l
    using pj r(3) by (auto simp: wake_def nth_list_update)
  have wf: "waits_for l ((places t)[j := resumed (places t ! j)] ! l) = (if l = j then None else waits_for l (places t ! l))" for l
    using resumed_holds [OF j(2,1)] j(1) r(2) by (cases "l = j") simp_all
  have inj: "P l = P j \<longleftrightarrow> l = j" if "l < PHIL_COUNT" for l
    using that r(1) j(1) by (auto simp: represents_def inj_on_def)
  have sep: "waiting (pcbs k ! P l) \<noteq> waiting (pcbs k ! P j)" if "l < PHIL_COUNT" "l \<noteq> j" "waits_for l (places t ! l) \<noteq> None" for l
    using that r(1) j by (auto simp: represents_def inj_on_def)
  have ld: "load_semwait ?k a = (if a = waiting (pcbs k ! P j) then None else load_semwait k a)" for a
    by (simp add: load_semwait_def wake_def)
  show ?thesis
    using r(1) unfolding represents_def ex st ld
    by (auto simp: inj sep wf wake_def inj_on_def split: if_splits)
qed

lemma represents_post:
  assumes r: "represents P k t" "table_ok t" "running_ok k" "waits_ok k"
    and i: "i < PHIL_COUNT" "cur k = P i" and f: "f < PHIL_COUNT"
    and p: "waits_for i (places t ! i) = None" "waits_for i q = None"
  shows "\<exists>w k'. do_sem_post (word_of_nat f) 1 k = Some k' \<and> wakes f w t
    \<and> represents P k' (post_fork f w (t\<lparr>places := (places t)[i := q]\<rparr>))
    \<and> running_ok k' \<and> waits_ok k' \<and> current k' = current k \<and> halted k' = halted k"
proof -
  have ok: "procs_ok k" using r(3) by (simp add: running_ok_def)
  have len: "length (places t) = PHIL_COUNT" "length (forks t) = PHIL_COUNT" "length (pcbs k) = PCB_SIZE"
    using r(2) ok by (simp_all add: table_ok_def procs_ok_def)
  have s: "unat (word_of_nat f :: u32) = f" "f < PCB_SIZE"
    using fork_word [OF f] f by (simp_all add: PHIL_COUNT_def PCB_SIZE_def)
  note el = represents_eligible [OF r(1) f]
  have r1: "represents P k (t\<lparr>places := (places t)[i := q]\<rparr>)" (is "represents P k ?t1")
    by (rule represents_move [OF r(1) len(1) i(1) p])
  note post = do_sem_post_eq [OF ok r(4), of "word_of_nat f" 1, unfolded s(1), OF s(2)]
  show ?thesis
  proof (cases "woken k (word_of_nat f) 1")
    case None
    have "set (waiters f t) = {}"
    proof (rule equals0I)
      fix l assume l: "l \<in> set (waiters f t)"
      show False
      proof (cases "P l = cur k")
        case True
        then have "l = i" using represents_inj [OF r(1) _ i(1)] i(2) l by (simp add: waiters_def)
        then show False using l p(1) by (simp add: waiters_def)
      next
        case False
        have e: "eligible k (word_of_nat f) 1 (P l)" using l el by blast
        then have "P l \<in> set (after (cur k))"
          using False set_after [OF procs_ok_less(1) [OF ok]] process_exists_less [of k "P l"] by (simp add: eligible_def)
        then show False using None e by (auto simp: woken_def find_None_iff)
      qed
    qed
    moreover have "represents P (add_units (word_of_nat f) 1 k) (post_fork f None ?t1)"
      using represents_sems [OF r1, of f "sems k ! f + 1"] len f r(1)
      by (simp add: add_units_def s post_fork_def represents_def)
    ultimately show ?thesis
      using post None r(3,4)
      by (intro exI [of _ None] exI [of _ "add_units (word_of_nat f) 1 k"])
        (simp add: wakes_def add_units_def running_ok_def procs_ok_def waits_ok_def dangling_def process_exists_def load_semwait_def)
  next
    case (Some j)
    note j = woken_SomeD [OF ok Some]
    then obtain l where l: "l \<in> set (waiters f t)" "j = P l" using el by auto
    then have lw: "l < PHIL_COUNT" "waits_for l (places t ! l) = Some f" by (auto simp: waiters_def)
    then have ne: "l \<noteq> i" using p(1) by auto
    have "load_semwait k (waiting (pcbs k ! P l)) = Some \<lparr>sw_id = word_of_nat f, sw_x = 1\<rparr>"
      using r(1) lw by (simp add: represents_def)
    then have d: "demand k j = 1" by (simp add: demand_def l(2))
    have same: "add_units (word_of_nat f) (1 - demand k j) k = k" by (simp add: add_units_def d)
    have "represents P (wake (P l) k) (?t1\<lparr>places := (places ?t1)[l := resumed (places ?t1 ! l)]\<rparr>)"
      by (rule represents_wake [OF r1 _ len(3) lw(1), of f]) (use len lw ne in auto)
    then have "represents P (wake j k) (post_fork f (Some l) ?t1)" by (simp add: post_fork_def l(2))
    moreover have "running_ok (wake j k)" "waits_ok (wake j k)"
    proof -
      have ex: "process_exists (wake j k) = process_exists k" by (simp add: wake_def process_exists_def fun_eq_iff)
      have st: "status (pcbs (wake j k) ! m) = (if m = j then STATUS_READY else status (pcbs k ! m))"
        "pid (pcbs (wake j k) ! m) = pid (pcbs k ! m)" "waiting (pcbs (wake j k) ! m) = waiting (pcbs k ! m)" for m
        using j(1) len(3) by (auto simp: wake_def nth_list_update)
      have cur: "current (wake j k) = current k" "length (pcbs (wake j k)) = length (pcbs k)" by (simp_all add: wake_def)
      show "running_ok (wake j k)"
        using r(3) j(2) by (auto simp: running_ok_def procs_ok_def ex st cur)
      have "\<not> dangling (wake j k) m" for m
      proof
        assume "dangling (wake j k) m"
        then have m: "process_exists k m" "status (pcbs k ! m) = STATUS_WAITING" "m \<noteq> j"
          "load_semwait (wake j k) (waiting (pcbs k ! m)) = None"
          by (auto simp: dangling_def ex st split: if_splits)
        then have "load_semwait k (waiting (pcbs k ! m)) \<noteq> None" using r(4) by (auto simp: waits_ok_def dangling_def)
        then have same_rec: "waiting (pcbs k ! m) = waiting (pcbs k ! j)"
          using m(4) by (auto simp: load_semwait_def wake_def split: if_splits)
        obtain n where n: "n < PHIL_COUNT" "m = P n" using m r(1) by (auto simp: represents_def)
        then have "waits_for n (places t ! n) \<noteq> None" using m r(1) by (auto simp: represents_def)
        then have "n = l" using same_rec n lw l(2) r(1) by (auto simp: represents_def inj_on_def)
        then show False using m(3) n(2) l(2) by simp
      qed
      then show "waits_ok (wake j k)" using r(4) by (simp add: waits_ok_def wake_def)
    qed
    ultimately show ?thesis
      using post Some same l
      by (intro exI [of _ "Some l"] exI [of _ "wake j k"]) (simp add: wakes_def wake_def)
  qed
qed

text \<open>Who runs does not matter to the table.\<close>

lemma represents_next:
  assumes r: "represents P k t" "procs_ok k"
    and st: "status (pcbs k ! cur k) = STATUS_WAITING \<longleftrightarrow> st = STATUS_WAITING" and n: "next_proc c st k = (c', k')"
  shows "represents P k' t"
proof (cases "next_ready k = cur k")
  case True
  then have "k' = k\<lparr>current_runtime := 0\<rparr>" using n by (simp add: next_proc_switch rr.switch_def)
  then show ?thesis by (intro represents_same [OF r(1)]) (simp_all add: process_exists_def fun_eq_iff)
next
  case False
  note sw = rr.switch_to [OF r(2) refl False n [unfolded next_proc_switch]]
  note rest = next_proc_rest [OF n]
  have run: "process_can_run k (next_ready k)" using rr.pick_runs [OF r(2) False] .
  show ?thesis
  proof (rule represents_same [OF r(1)])
    fix j
    show "(status (pcbs k' ! j) = STATUS_WAITING) = (status (pcbs k ! j) = STATUS_WAITING)"
      using sw(6,7) sw(8) [of j] st run
      by (cases "j = next_ready k"; cases "j = cur k") (auto simp: process_can_run_iff)
  qed (use rest in \<open>simp_all add: process_exists_def fun_eq_iff\<close>)
qed

lemma represents_block:
  assumes r: "represents P k t" "length (places t) = PHIL_COUNT" "length (forks t) = PHIL_COUNT" "length (pcbs k) = PCB_SIZE"
    and i: "i < PHIL_COUNT" "cur k = P i" and p: "waits_for i (places t ! i) = None" "waits_for i bl = Some f"
    and a: "heap k a = None"
  shows "represents P (blocked a (word_of_nat f) 1 k) (t\<lparr>places := (places t)[i := bl]\<rparr>)"
proof -
  let ?b = "blocked a (word_of_nat f) 1 k"
  have pi: "P i < length (pcbs k)" using r(1,4) i(1) process_exists_less by (auto simp: represents_def)
  have ex: "process_exists ?b = process_exists k" by (simp add: blocked_def process_exists_def fun_eq_iff)
  have st: "status (pcbs ?b ! l) = (if l = P i then STATUS_WAITING else status (pcbs k ! l))"
    "waiting (pcbs ?b ! l) = (if l = P i then a else waiting (pcbs k ! l))" for l
    using pi by (auto simp: blocked_def i(2) nth_list_update)
  have ld: "load_semwait ?b x = (if x = a then Some \<lparr>sw_id = word_of_nat f, sw_x = 1\<rparr> else load_semwait k x)" for x
    by (simp add: load_semwait_def blocked_def)
  have wf: "waits_for l ((places t)[i := bl] ! l) = (if l = i then Some f else waits_for l (places t ! l))" for l
    using p(2) i(1) r(2) by (cases "l = i") simp_all
  have inj: "P l = P i \<longleftrightarrow> l = i" if "l < PHIL_COUNT" for l
    using that r(1) i(1) by (auto simp: represents_def inj_on_def)
  have sep: "waiting (pcbs k ! P l) \<noteq> a" if "l < PHIL_COUNT" "waits_for l (places t ! l) = Some g" for l g
    using that r(1) a by (fastforce simp: represents_def load_semwait_def)
  have sems: "sems ?b = sems k" by (simp add: blocked_def)
  show ?thesis
  proof -
    note R = r(1) [unfolded represents_def]
    let ?t = "t\<lparr>places := (places t)[i := bl]\<rparr>"
    have w: "waits_for l (places ?t ! l) = (if l = i then Some f else waits_for l (places t ! l))" for l
      by (simp add: wf)
    have 1: "\<forall>j. process_exists k j \<longrightarrow> status (pcbs ?b ! j) = STATUS_WAITING \<longrightarrow> (\<exists>l < PHIL_COUNT. j = P l)"
      using R i(1) by (auto simp: st)
    have 2: "\<forall>l < PHIL_COUNT. status (pcbs ?b ! P l) = STATUS_WAITING \<longleftrightarrow> waits_for l (places ?t ! l) \<noteq> None"
      using R r(2) i(1) p(2) by (auto simp: st w inj)
    have 3: "\<forall>l < PHIL_COUNT. \<forall>g. waits_for l (places ?t ! l) = Some g \<longrightarrow>
        load_semwait ?b (waiting (pcbs ?b ! P l)) = Some \<lparr>sw_id = word_of_nat g, sw_x = 1\<rparr>"
      using R sep r(2) i(1) p(2) by (auto simp: st w inj ld split: if_splits)
    have 4: "inj_on (\<lambda>l. waiting (pcbs ?b ! P l)) {l. l < PHIL_COUNT \<and> waits_for l (places ?t ! l) \<noteq> None}"
    proof (rule inj_onI)
      fix x y
      assume x: "x \<in> {l. l < PHIL_COUNT \<and> waits_for l (places ?t ! l) \<noteq> None}"
        and y: "y \<in> {l. l < PHIL_COUNT \<and> waits_for l (places ?t ! l) \<noteq> None}"
        and e: "waiting (pcbs ?b ! P x) = waiting (pcbs ?b ! P y)"
      show "x = y"
      proof (cases "x = i \<or> y = i")
        case True
        then show ?thesis using x y e sep by (auto simp: st w inj split: if_splits)
      next
        case False
        then have "waiting (pcbs k ! P x) = waiting (pcbs k ! P y)" using x y e by (simp add: st inj)
        moreover have "x \<in> {l. l < PHIL_COUNT \<and> waits_for l (places t ! l) \<noteq> None}"
          "y \<in> {l. l < PHIL_COUNT \<and> waits_for l (places t ! l) \<noteq> None}" using x y False by (simp_all add: w)
        moreover have "inj_on (\<lambda>l. waiting (pcbs k ! P l)) {l. l < PHIL_COUNT \<and> waits_for l (places t ! l) \<noteq> None}"
          using R by blast
        ultimately show ?thesis by (auto dest: inj_onD)
      qed
    qed
    show ?thesis
      unfolding represents_def ex sems using R 1 2 3 4 by simp
  qed
qed

lemma represents_wait:
  assumes r: "represents P k t" "table_ok t" "running_ok k" "waits_ok k" "\<not> halted k"
    and m: "malloc_at E (heap k) 8 \<noteq> 0" "heap k (malloc_at E (heap k) 8) = None"
    and other: "next_ready k \<noteq> cur k"
    and i: "i < PHIL_COUNT" "cur k = P i" and f: "f < PHIL_COUNT"
    and p: "waits_for i (places t ! i) = None" "waits_for i got = None" "waits_for i bl = Some f"
    and arg: "arg c 0 = word_of_nat f" "arg c 1 = 1"
  shows "\<exists>c' k'. hilevel_handler_svc E 0xA c k = Some (c', k') \<and> represents P k' (wait_fork f i got bl t)
    \<and> running_ok k' \<and> waits_ok k'"
proof -
  have ok: "procs_ok k" using r(3) by (simp add: running_ok_def)
  have len: "length (places t) = PHIL_COUNT" "length (forks t) = PHIL_COUNT" "length (pcbs k) = PCB_SIZE"
    using r(2) ok by (simp_all add: table_ok_def procs_ok_def)
  have s: "unat (arg c 0) = f" "unat (arg c 0) < PCB_SIZE"
    using fork_word [OF f] f by (simp_all add: arg PHIL_COUNT_def PCB_SIZE_def)
  have sf: "sems k ! f = forks t ! f" using r(1) f by (simp add: represents_def)
  note call = sem_wait_call [OF r(3,5) s(2) m(1)]
  show ?thesis
  proof (cases "1 \<le> forks t ! f")
    case True
    let ?k = "k\<lparr>sems := (sems k)[f := sems k ! f - 1]\<rparr>"
    have "represents P ?k (wait_fork f i got bl t)"
      using represents_move [OF represents_sems [OF r(1) len(2) f, of "sems k ! f - 1"] _ i(1), of got] len p True sf
      by (simp add: wait_fork_def)
    moreover have "running_ok ?k" "waits_ok ?k"
      using r(3,4) by (simp_all add: running_ok_def procs_ok_def waits_ok_def dangling_def process_exists_def load_semwait_def)
    ultimately show ?thesis using call True sf s(1) arg(2) by simp
  next
    case False
    then have "forks t ! f < 1" by (simp only: not_le)
    then have lt: "sems k ! unat (arg c 0) < arg c 1" by (simp only: s(1) sf arg(2))
    then have low: "\<not> arg c 1 \<le> sems k ! unat (arg c 0)" by (simp only: not_le)
    from sem_wait_switches [OF r(3,4,5) m s(2) lt other] obtain c' k' where
      c': "hilevel_handler_svc E 0xA c k = Some (c', k')" "running_ok k'" "waits_ok k'" by blast
    let ?a = "malloc_at E (heap k) 8"
    let ?b = "blocked ?a (arg c 0) (arg c 1) k"
    have n: "next_proc c STATUS_WAITING ?b = (c', k')" using call c'(1) low by (simp only: if_False option.inject)
    have b: "represents P ?b (t\<lparr>places := (places t)[i := bl]\<rparr>)"
      using represents_block [OF r(1) len i p(1,3) m(2)] by (simp only: arg)
    note bs = blocked_state [OF r(3,4) m, of "arg c 0" "arg c 1"]
    have "represents P k' (t\<lparr>places := (places t)[i := bl]\<rparr>)"
    proof (rule represents_next [OF b _ _ n])
      show "procs_ok ?b" using bs(1) by (simp add: others_idle_def)
      show "status (pcbs ?b ! cur ?b) = STATUS_WAITING \<longleftrightarrow> STATUS_WAITING = STATUS_WAITING"
        using len(3) procs_ok_less(1) [OF ok] by (simp add: blocked_def)
    qed
    then show ?thesis using c' False by (auto simp: wait_fork_def)
  qed
qed

text \<open>
  C25: The philosophers on the kernel.  Whenever a philosopher runs, its next system call returns, and
  what the kernel then represents is the table after the corresponding call of the abstract program; all
  conditions hold again, so that this goes on call by call.  It is assumed that somebody else can run,
  as the spawner always can, and that there is memory for a wait record.  A timer tick between two
  calls changes nothing.
\<close>

theorem philosopher_calls_refine:
  assumes r: "represents P k t" "phil_reach t" "running_ok k" "waits_ok k" "\<not> halted k"
    and m: "malloc_at E (heap k) 8 \<noteq> 0" "heap k (malloc_at E (heap k) 8) = None" and other: "next_ready k \<noteq> cur k"
    and i: "i < PHIL_COUNT" "cur k = P i" and call: "phil_syscall i (places t ! i) = Some (n, s)" "arg c 0 = s" "arg c 1 = 1"
  shows "(\<exists>w t' c' k'. hilevel_handler_svc E n c k = Some (c', k') \<and> phil_call i w t = Some t' \<and> phil_reach t'
      \<and> represents P k' t' \<and> running_ok k' \<and> waits_ok k')
    \<and> represents P (snd (schedule c k)) t"
proof -
  note t = phil_reach_ok [OF r(2)]
  have o: "first_fork i < PHIL_COUNT" "second_fork i < PHIL_COUNT" using fork_order [OF i(1)] by auto
  have free: "waits_for i (places t ! i) = None" using call(1) by (auto simp: phil_syscall_def waits_for_def split: place.splits)
  have wait: "\<exists>c' k'. hilevel_handler_svc E 0xA c k = Some (c', k') \<and> represents P k' (wait_fork f i got bl t)
      \<and> running_ok k' \<and> waits_ok k'"
    if "f < PHIL_COUNT" "waits_for i got = None" "waits_for i bl = Some f" "s = word_of_nat f" for f got bl
    using represents_wait [OF r(1) t r(3-5) m other i that(1) free that(2,3)] call(2,3) that(4) by simp
  have post: "\<exists>w k'. hilevel_handler_svc E 9 c k = Some (c, k') \<and> wakes f w t
      \<and> represents P k' (post_fork f w (t\<lparr>places := (places t)[i := q]\<rparr>)) \<and> running_ok k' \<and> waits_ok k'"
    if "f < PHIL_COUNT" "waits_for i q = None" "s = word_of_nat f" for f q
    using represents_post [OF r(1) t r(3,4) i that(1) free that(2)] call(2,3) that(3)
    by (auto simp: hilevel_handler_svc_def)
  have "\<exists>w t' c' k'. hilevel_handler_svc E n c k = Some (c', k') \<and> phil_call i w t = Some t' \<and> represents P k' t'
      \<and> running_ok k' \<and> waits_ok k'"
  proof (cases "places t ! i")
    case Thinking
    then show ?thesis using wait [of "first_fork i" Has_First Wait_First] o call(1)
      by (auto simp: phil_syscall_def phil_call_def waits_for_def)
  next
    case Has_First
    then show ?thesis using wait [of "second_fork i" Eating Wait_Second] o call(1)
      by (auto simp: phil_syscall_def phil_call_def waits_for_def)
  next
    case Eating
    obtain w k' where "hilevel_handler_svc E 9 c k = Some (c, k')" "wakes (first_fork i) w t"
      "represents P k' (post_fork (first_fork i) w (t\<lparr>places := (places t)[i := Put_First]\<rparr>))" "running_ok k'" "waits_ok k'"
      using post [OF o(1), of Put_First] call(1) Eating by (auto simp: phil_syscall_def waits_for_def)
    then show ?thesis using Eating call(1)
      by (intro exI [of _ w] exI [of _ "post_fork (first_fork i) w (t\<lparr>places := (places t)[i := Put_First]\<rparr>)"] exI [of _ c] exI [of _ k'])
        (simp add: phil_syscall_def phil_call_def)
  next
    case Put_First
    obtain w k' where "hilevel_handler_svc E 9 c k = Some (c, k')" "wakes (second_fork i) w t"
      "represents P k' (post_fork (second_fork i) w (t\<lparr>places := (places t)[i := Thinking]\<rparr>))" "running_ok k'" "waits_ok k'"
      using post [OF o(2), of Thinking] call(1) Put_First by (auto simp: phil_syscall_def waits_for_def)
    then show ?thesis using Put_First call(1)
      by (intro exI [of _ w] exI [of _ "post_fork (second_fork i) w (t\<lparr>places := (places t)[i := Thinking]\<rparr>)"] exI [of _ c] exI [of _ k'])
        (simp add: phil_syscall_def phil_call_def)
  qed (use call(1) in \<open>simp_all add: phil_syscall_def\<close>)
  moreover have "represents P (snd (schedule c k)) t"
  proof -
    obtain c1 k1 where n: "next_proc c STATUS_READY k = (c1, k1)" by fastforce
    have "status (pcbs k ! cur k) = STATUS_EXECUTING" "procs_ok k"
      using r(3) procs_ok_less by (auto simp: running_ok_def)
    then have "represents P k1 t" by (intro represents_next [OF r(1) _ _ n]) simp_all
    moreover have "represents P (k'\<lparr>current_runtime := x\<rparr>) t" if "represents P k' t" for k' x
      by (rule represents_same [OF that]) (simp_all add: process_exists_def fun_eq_iff)
    ultimately show ?thesis using r(1) n by (simp add: schedule_def)
  qed
  ultimately show ?thesis using phil_reach.call [OF r(2) i(1)] by blast
qed

text \<open>The spawner is process 0, the philosophers are processes 1 to 16, and the first of them runs.\<close>

definition dining_kernel :: kstate where
  "dining_kernel = boot_kernel\<lparr>current := 1, pcballoc := mask 17, sems := replicate 16 1 @ replicate 16 0,
     pcbs := map (\<lambda>j. zero_pcb\<lparr>pid := int j, status := if j = 1 then STATUS_EXECUTING else STATUS_READY\<rparr>) [0..<32]\<rparr>"

lemma dining_kernel_exists: "process_exists dining_kernel j \<longleftrightarrow> j < 17"
  by (auto simp: process_exists_bit dining_kernel_def bit_mask_iff)

lemma dining_kernel_sel:
  "current dining_kernel = 1" "length (pcbs dining_kernel) = 32" "heap dining_kernel = Map.empty" "\<not> halted dining_kernel"
  "j < 32 \<Longrightarrow> pcbs dining_kernel ! j = zero_pcb\<lparr>pid := int j, status := if j = 1 then STATUS_EXECUTING else STATUS_READY\<rparr>"
  by (simp_all add: dining_kernel_def boot_kernel_def)

lemma dining_kernel_running: "running_ok dining_kernel"
  by (auto simp: running_ok_def procs_ok_def dining_kernel_sel dining_kernel_exists PCB_SIZE_def zero_pcb_def)

lemma dining_kernel_waits: "waits_ok dining_kernel"
  by (auto simp: waits_ok_def dangling_def dining_kernel_exists dining_kernel_sel zero_pcb_def split: if_splits)

lemma dining_kernel_represents: "represents Suc dining_kernel phil_start"
proof -
  have "sems dining_kernel ! f = 1" if "f < 16" for f
    using that by (simp add: dining_kernel_def nth_append)
  moreover have "status (pcbs dining_kernel ! j) \<noteq> STATUS_WAITING" if "j < 32" for j
    using that by (simp add: dining_kernel_sel zero_pcb_def)
  moreover have "length (sems dining_kernel) = 32" by (simp add: dining_kernel_def)
  moreover have none: "waits_for l (replicate 16 Thinking ! l) = None" if "l < 16" for l
    using that by (simp add: waits_for_def)
  ultimately show ?thesis
    by (auto simp: represents_def phil_start_def PHIL_COUNT_def PCB_SIZE_def dining_kernel_exists inj_on_def waits_for_def)
qed

lemma philosopher_calls_refine_witness:
  "\<exists>t' c' k'. hilevel_handler_svc sample_env 0xA (zero_ctx\<lparr>gpr := [0, 1] @ replicate 11 0\<rparr>) dining_kernel = Some (c', k')
    \<and> represents Suc k' t' \<and> phil_reach t'"
proof -
  have "find (process_can_run dining_kernel) (after 1) = Some 2"
    by (simp add: after_def PCB_SIZE_def upt_conv_Cons process_can_run_iff dining_kernel_exists dining_kernel_sel zero_pcb_def)
  then have n: "next_ready dining_kernel \<noteq> cur dining_kernel"
    using dining_kernel_running by (simp add: next_ready_find running_ok_def dining_kernel_sel)
  have s: "phil_syscall 0 (places phil_start ! 0) = Some (0xA, 0)"
    by (simp add: phil_syscall_def phil_start_def PHIL_COUNT_def first_fork_def left_first_def right_fork_def)
  show ?thesis
    using philosopher_calls_refine [OF dining_kernel_represents phil_reach.start dining_kernel_running dining_kernel_waits
        dining_kernel_sel(4) _ _ n _ _ s, of sample_env "zero_ctx\<lparr>gpr := [0, 1] @ replicate 11 0\<rparr>"]
    by (auto simp: dining_kernel_sel PHIL_COUNT_def)
qed

end
