(* ===== verification/Programs.thy ===== *)
theory Programs
  imports Tools User_Math Phil_Kernel
begin

text \<open>
  The programs themselves: \<^verbatim>\<open>user/P1.c\<close> to \<^verbatim>\<open>user/P5.c\<close>, \<^verbatim>\<open>user/semtest.c\<close>, and of \<^verbatim>\<open>user/philosophers.c\<close> the
  spawner.  A program that gives up the processor between its calls is a function from its place to
  the next call; the computations before a call are part of it.  The addresses of constant strings
  and local variables are parameters.
\<close>

section \<open>The computing programs\<close>

text \<open>
  \<open>for (x = lo; x < hi; x++) f(x);\<close> with the results thrown away.  The counter wraps; a loop that never
  ends, or a call that does not return, has no result.
\<close>

partial_function (option) u32_loop :: "(u32 \<Rightarrow> 'b option) \<Rightarrow> u32 \<Rightarrow> u32 \<Rightarrow> unit option" where
  "u32_loop f x hi = (if x < hi then do { r \<leftarrow> f x; u32_loop f (x + 1) hi } else Some ())"

definition P3_work :: "unit option" where
  "P3_work = u32_loop (\<lambda>x. Some (weight x)) (2 ^ 8) (2 ^ 24)"

definition P4_work :: "unit option" where
  "P4_work = u32_loop (\<lambda>x. u32_loop (gcd_sub x) (2 ^ 4) (2 ^ 8)) (2 ^ 4) (2 ^ 8)"

definition P5_work :: "unit option" where
  "P5_work = u32_loop is_prime (2 ^ 8) (2 ^ 16)"

definition eat :: "unit option" where
  "eat = u32_loop is_prime (2 ^ 8) (2 ^ 16)"

definition waste_time :: "unit option" where
  "waste_time = u32_loop is_prime (2 ^ 8) (2 ^ 16)"

text \<open>The \<open>j\<close>-th call of a program, for \<open>P5\<close> none after \<open>exit\<close>.\<close>

definition main_P1 :: "env \<Rightarrow> u32 \<Rightarrow> nat \<Rightarrow> machine \<Rightarrow> machine option" where
  "main_P1 E str j m = (if even j then write_call E STDOUT_FILENO str 2 m else yield E m)"

definition main_P2 :: "env \<Rightarrow> u32 \<Rightarrow> nat \<Rightarrow> machine \<Rightarrow> machine option" where
  "main_P2 E str j m = (if even j then write_call E STDOUT_FILENO str 2 m else yield E m)"

definition main_P3 :: "env \<Rightarrow> u32 \<Rightarrow> nat \<Rightarrow> machine \<Rightarrow> machine option" where
  "main_P3 E str j m = do {
     r \<leftarrow> (if j = 0 then Some () else P3_work);
     write_call E STDOUT_FILENO str 2 m
   }"

definition main_P4 :: "env \<Rightarrow> u32 \<Rightarrow> nat \<Rightarrow> machine \<Rightarrow> machine option" where
  "main_P4 E str j m = do {
     r \<leftarrow> (if j = 0 then Some () else P4_work);
     write_call E STDOUT_FILENO str 2 m
   }"

definition main_P5 :: "env \<Rightarrow> u32 \<Rightarrow> nat \<Rightarrow> machine \<Rightarrow> machine option" where
  "main_P5 E str j m = do {
     r \<leftarrow> (if j = 0 then Some () else P5_work);
     if j < 25 then write_call E STDOUT_FILENO str 2 m
     else if j = 25 then exit E EXIT_SUCCESS m
     else None
   }"

section \<open>The semaphore test\<close>

text \<open>The places of \<open>main_semtest\<close>: \<open>P_\<close> in the parent, \<open>C_\<close> in the child.\<close>

datatype semtest_place = S_Init | S_Grab | S_Fork | P_Think | P_Post | P_Wait | C_Wait | C_Think | C_Post

definition main_semtest :: "env \<Rightarrow> u32 \<Rightarrow> u32 \<Rightarrow> semtest_place \<Rightarrow> machine \<Rightarrow> machine option" where
  "main_semtest E ptext ctext p m = (case p of
       S_Init \<Rightarrow> sem_init E 0 1 m
     | S_Grab \<Rightarrow> sem_wait E 0 1 m
     | S_Fork \<Rightarrow> fork E m
     | P_Think \<Rightarrow> do { r \<leftarrow> waste_time; write_call E STDOUT_FILENO ptext 10 m }
     | P_Post \<Rightarrow> sem_post E 0 1 m
     | P_Wait \<Rightarrow> sem_wait E 0 1 m
     | C_Wait \<Rightarrow> sem_wait E 0 1 m
     | C_Think \<Rightarrow> do { r \<leftarrow> waste_time; write_call E STDOUT_FILENO ctext 10 m }
     | C_Post \<Rightarrow> sem_post E 0 1 m)"

text \<open>Where the program goes on after the call, which returned \<open>r\<close>.\<close>

definition semtest_next :: "semtest_place \<Rightarrow> u32 \<Rightarrow> semtest_place" where
  "semtest_next p r = (case p of
       S_Init \<Rightarrow> S_Grab
     | S_Grab \<Rightarrow> S_Fork
     | S_Fork \<Rightarrow> if r \<noteq> 0 then P_Think else C_Wait
     | P_Think \<Rightarrow> P_Post
     | P_Post \<Rightarrow> P_Wait
     | P_Wait \<Rightarrow> P_Think
     | C_Wait \<Rightarrow> C_Think
     | C_Think \<Rightarrow> C_Post
     | C_Post \<Rightarrow> C_Wait)"

section \<open>The spawner of the philosophers\<close>

definition word_at :: "machine \<Rightarrow> u32 \<Rightarrow> u32" where
  "word_at m a = of_le32 (mem_bytes (mem (snd m)) a 4)"

text \<open>The loop that initialises the semaphores, over \<open>i\<close>.\<close>

fun init_forks :: "env \<Rightarrow> nat list \<Rightarrow> machine \<Rightarrow> machine option" where
  "init_forks E [] m = Some m"
| "init_forks E (i # is) m = do { m1 \<leftarrow> sem_init E (word_of_nat i) 1 m; init_forks E is m1 }"

text \<open>What a child does before it becomes a philosopher.\<close>

definition spawner_child :: "env \<Rightarrow> u32 \<Rightarrow> machine \<Rightarrow> machine option" where
  "spawner_child E pfds m = do {
     m1 \<leftarrow> close E (word_at m pfds) m;
     fd_swap E STDOUT_FILENO (word_at m1 (pfds + 4)) m1
   }"

text \<open>
  One round of the loop that creates the philosophers, in the parent: the value is the descriptor kept
  for reading, \<open>None\<close> in the child.
\<close>

definition spawn_one :: "env \<Rightarrow> u32 \<Rightarrow> machine \<Rightarrow> (u32 option \<times> machine) option" where
  "spawn_one E pfds m = do {
     m1 \<leftarrow> pipe_call E pfds m;
     m2 \<leftarrow> fork E m1;
     if result m2 = 0 then do { m3 \<leftarrow> spawner_child E pfds m2; Some (None, m3) }
     else do {
       m3 \<leftarrow> close E (word_at m2 (pfds + 4)) m2;
       Some (Some (word_at m3 pfds), m3)
     }
   }"

fun spawn_loop :: "env \<Rightarrow> u32 \<Rightarrow> nat \<Rightarrow> u32 list \<Rightarrow> machine \<Rightarrow> (u32 list option \<times> machine) option" where
  "spawn_loop E pfds 0 ps m = Some (Some ps, m)"
| "spawn_loop E pfds (Suc n) ps m = do {
     (r, m1) \<leftarrow> spawn_one E pfds m;
     case r of None \<Rightarrow> Some (None, m1) | Some fd \<Rightarrow> spawn_loop E pfds n (ps @ [fd]) m1
   }"

definition table_size :: nat where "table_size = 5 * PHIL_COUNT + 1"

text \<open>The loop that collects what the philosophers write, with the total read.\<close>

fun collect :: "env \<Rightarrow> u32 \<Rightarrow> (nat \<times> u32) list \<Rightarrow> int \<Rightarrow> machine \<Rightarrow> (int \<times> machine) option" where
  "collect E table [] tr m = Some (tr, m)"
| "collect E table ((i, fd) # ps) tr m = do {
     m1 \<leftarrow> read_call E fd (table + 5 * word_of_nat i) 5 m;
     collect E table ps (tr + sint (result m1)) m1
   }"

definition collect_round :: "env \<Rightarrow> u32 \<Rightarrow> u32 list \<Rightarrow> machine \<Rightarrow> machine option" where
  "collect_round E table ps m = do {
     (tr, m1) \<leftarrow> collect E table (zip [0..<PHIL_COUNT] ps) 0 m;
     m2 \<leftarrow> (if tr > 0 then write_call E STDOUT_FILENO table (word_of_nat table_size) m1 else Some m1);
     yield E m2
   }"

text \<open>The spawner up to its endless loop of rounds; \<open>None\<close> as the value in a child.\<close>

definition phil_spawner :: "env \<Rightarrow> u32 \<Rightarrow> u32 \<Rightarrow> machine \<Rightarrow> (u32 list option \<times> machine) option" where
  "phil_spawner E pfds table m = do {
     m1 \<leftarrow> init_forks E [0..<PHIL_COUNT] m;
     (r, m2) \<leftarrow> spawn_loop E pfds PHIL_COUNT [] m1;
     case r of
       None \<Rightarrow> Some (None, m2)
     | Some ps \<Rightarrow>
         let bs = replicate (table_size - 1) 0x20 @ [0x0A]
         in Some (Some ps, (fst m2, (snd m2)\<lparr>mem := mem_put table bs (mem (snd m2))\<rparr>))
   }"

section \<open>Properties\<close>

text \<open>The loop ends exactly when all the calls it makes return.\<close>

lemma u32_loop_iff: "u32_loop f x hi = Some () \<longleftrightarrow> (\<forall>y. x \<le> y \<and> y < hi \<longrightarrow> f y \<noteq> None)"
proof (induction "unat hi - unat x" arbitrary: x rule: less_induct)
  case less
  show ?case
  proof (cases "x < hi")
    case False
    then have "\<not> (x \<le> y \<and> y < hi)" for y by auto
    moreover have "u32_loop f x hi = Some ()" using False by (subst u32_loop.simps) simp
    ultimately show ?thesis by blast
  next
    case True
    have n: "unat (x + 1) = Suc (unat x)" using True by (rule unat_plus_one_less)
    have "unat hi - unat (x + 1) < unat hi - unat x" using True n by (simp add: word_less_nat_alt)
    from less [OF this]
    have IH: "u32_loop f (x + 1) hi = Some () \<longleftrightarrow> (\<forall>y. x + 1 \<le> y \<and> y < hi \<longrightarrow> f y \<noteq> None)" .
    have step: "x \<le> y \<longleftrightarrow> y = x \<or> x + 1 \<le> y" for y
      using n by (auto simp: word_le_nat_alt le_Suc_eq intro: word_eq_iff_unsigned [THEN iffD2]) (metis Suc_leI le_neq_implies_less unsigned_word_eqI)
    have all: "(\<forall>y. x \<le> y \<and> y < hi \<longrightarrow> f y \<noteq> None) \<longleftrightarrow> f x \<noteq> None \<and> (\<forall>y. x + 1 \<le> y \<and> y < hi \<longrightarrow> f y \<noteq> None)"
      unfolding step using True by blast
    have "u32_loop f x hi = (case f x of None \<Rightarrow> None | Some r \<Rightarrow> u32_loop f (x + 1) hi)"
      using True by (subst u32_loop.simps) (simp split: option.split)
    then show ?thesis unfolding all IH [symmetric] by (auto split: option.split)
  qed
qed

lemma gcd_sub_returns: "x \<noteq> 0 \<Longrightarrow> y \<noteq> 0 \<Longrightarrow> gcd_sub x y \<noteq> None"
  using gcd_sub_result [of x y] by auto

lemma works_end: "P3_work = Some ()" "P4_work = Some ()" "P5_work = Some ()" "eat = Some ()" "waste_time = Some ()"
proof -
  show "P3_work = Some ()" by (simp add: P3_work_def u32_loop_iff)
  have "\<exists>u. u32_loop (gcd_sub x) (2 ^ 4) (2 ^ 8) = Some u" if "2 ^ 4 \<le> x" for x
  proof -
    have "y \<noteq> 0" if "2 ^ 4 \<le> y" for y :: u32 using that by auto
    then show ?thesis using gcd_sub_returns that by (simp add: u32_loop_iff)
  qed
  then show "P4_work = Some ()" by (auto simp: P4_work_def u32_loop_iff)
  have "is_prime x \<noteq> None" if "x < 2 ^ 16" for x
    using is_prime_result [of x] that by (simp add: word_less_nat_alt)
  then have "u32_loop is_prime (2 ^ 8) (2 ^ 16) = Some ()" unfolding u32_loop_iff by blast
  then show "P5_work = Some ()" "eat = Some ()" "waste_time = Some ()"
    by (simp_all add: P5_work_def eat_def waste_time_def)
qed

text \<open>
  C37: No program is stuck between two calls.  The loops over \<open>weight\<close>, \<open>gcd\<close> and \<open>is_prime\<close> that the
  programs run before a call end, with the counter and the ranges of the sources, so every call of
  \<open>P3\<close>, \<open>P4\<close>, \<open>P5\<close> and of the thinking places of \<open>semtest\<close> is made, whatever its number, and a
  philosopher's meal ends.
\<close>

theorem computations_end:
  "main_P3 E str j m = write_call E STDOUT_FILENO str 2 m
   \<and> main_P4 E str j m = write_call E STDOUT_FILENO str 2 m
   \<and> main_P5 E str j m = (if j < 25 then write_call E STDOUT_FILENO str 2 m
       else if j = 25 then exit E EXIT_SUCCESS m else None)
   \<and> main_semtest E ptext ctext P_Think m = write_call E STDOUT_FILENO ptext 10 m
   \<and> main_semtest E ptext ctext C_Think m = write_call E STDOUT_FILENO ctext 10 m
   \<and> eat = Some ()"
  by (simp add: main_P3_def main_P4_def main_P5_def main_semtest_def works_end)

text \<open>No process waits for a semaphore.\<close>

definition nobody_waits :: "kstate \<Rightarrow> bool" where
  "nobody_waits k \<longleftrightarrow> (\<forall>j. process_exists k j \<longrightarrow> status (pcbs k ! j) \<noteq> STATUS_WAITING)"

lemma nobody_woken: "nobody_waits k \<Longrightarrow> woken k s x = None"
  by (auto simp: woken_def eligible_def nobody_waits_def find_None_iff)

lemma sem_init_sets:
  assumes k: "procs_ok k" "waits_ok k" "nobody_waits k" "length (sems k) = PCB_SIZE" and i: "i < PCB_SIZE" and c: "length (gpr c) = 13"
  shows "\<exists>c'. sem_init E (word_of_nat i) 1 (c, k) = Some (c', k\<lparr>sems := (sems k)[i := 1]\<rparr>) \<and> length (gpr c') = 13"
proof -
  have u: "unat (word_of_nat i :: u32) = i" using i by (simp add: PCB_SIZE_def unat_of_nat)
  have "do_sem_post (word_of_nat i) (1 - sems k ! i) k = Some (k\<lparr>sems := (sems k)[i := 1]\<rparr>)"
  proof (cases "sems k ! i = 1")
    case True
    then have "(sems k)[i := 1] = sems k" by (metis list_update_id)
    then show ?thesis using True by (simp add: do_sem_post_def)
  next
    case False
    then show ?thesis
      using do_sem_post_eq [OF k(1,2), of "word_of_nat i" "1 - sems k ! i"] nobody_woken [OF k(3)] u i
      by (simp add: add_units_def)
  qed
  moreover have "\<not> (32 :: u32) \<le> 1" by (simp add: word_le_nat_alt)
  ultimately show ?thesis
    using u i c by (simp add: user_calls call_numbers trap_def hilevel_handler_svc_def svc_sem_init_def Let_def ret_def
        PCB_SIZE_def set_reg_def)
qed

lemma init_forks_sets:
  assumes "procs_ok k" "waits_ok k" "nobody_waits k" "length (sems k) = PCB_SIZE" "length (gpr c) = 13" "\<forall>i \<in> set is. i < PCB_SIZE"
  shows "\<exists>c'. init_forks E is (c, k) = Some (c', k\<lparr>sems := fold (\<lambda>i ss. ss[i := 1]) is (sems k)\<rparr>) \<and> length (gpr c') = 13"
  using assms
proof (induction "is" arbitrary: c k)
  case (Cons i "is")
  let ?k = "k\<lparr>sems := (sems k)[i := 1]\<rparr>"
  obtain c1 where c1: "sem_init E (word_of_nat i) 1 (c, k) = Some (c1, ?k)" "length (gpr c1) = 13"
    using sem_init_sets [OF Cons.prems(1-4), of i c E] Cons.prems(5,6) by auto
  have "procs_ok ?k" "waits_ok ?k" "nobody_waits ?k"
    using Cons.prems(1-3)
    by (auto simp: procs_ok_def waits_ok_def nobody_waits_def process_exists_def dangling_def load_semwait_def)
  from Cons.IH [OF this _ c1(2)] Cons.prems(4,6) show ?case by (auto simp: c1(1))
qed simp

lemma fold_ones:
  "\<forall>i \<in> set is. i < length ss \<Longrightarrow>
   length (fold (\<lambda>i ss. ss[i := 1]) is ss) = length ss
   \<and> (\<forall>f < length ss. fold (\<lambda>i ss. ss[i := (1 :: u32)]) is ss ! f = (if f \<in> set is then 1 else ss ! f))"
  by (induction "is" arbitrary: ss) (auto simp: nth_list_update)

text \<open>
  The forks on the table.  Whatever the semaphores held before, after the first loop of the spawner
  the semaphores of the forks are those of the start of theory \<open>Philosophers\<close>, and nothing else in the
  kernel has changed.
\<close>

lemma spawner_lays_forks:
  assumes "procs_ok k" "waits_ok k" "nobody_waits k" "length (sems k) = PCB_SIZE" "length (gpr c) = 13"
  shows "\<exists>c' k'. init_forks E [0..<PHIL_COUNT] (c, k) = Some (c', k') \<and> k'\<lparr>sems := sems k\<rparr> = k
    \<and> (\<forall>f < PCB_SIZE. sems k' ! f = (if f < PHIL_COUNT then forks phil_start ! f else sems k ! f))"
proof -
  have less: "\<forall>i \<in> set [0..<PHIL_COUNT]. i < PCB_SIZE" by (simp add: PHIL_COUNT_def PCB_SIZE_def)
  then have "\<forall>i \<in> set [0..<PHIL_COUNT]. i < length (sems k)" using assms(4) by simp
  note ones = fold_ones [OF this]
  obtain c' where "init_forks E [0..<PHIL_COUNT] (c, k)
      = Some (c', k\<lparr>sems := fold (\<lambda>i ss. ss[i := 1]) [0..<PHIL_COUNT] (sems k)\<rparr>)"
    using init_forks_sets [OF assms less, of E] by blast
  then show ?thesis using ones assms(4)
    by (intro exI [of _ c'] exI [of _ "k\<lparr>sems := fold (\<lambda>i ss. ss[i := 1]) [0..<PHIL_COUNT] (sems k)\<rparr>"])
      (simp add: phil_start_def)
qed

lemma spawner_lays_forks_witness:
  "\<exists>c' k'. init_forks sample_env [0..<PHIL_COUNT] (zero_ctx, sample_kernel) = Some (c', k') \<and> sems k' ! 15 = 1 \<and> sems k' ! 16 = 0"
proof -
  have k: "procs_ok sample_kernel" "waits_ok sample_kernel" "nobody_waits sample_kernel" "length (sems sample_kernel) = PCB_SIZE"
      "length (gpr zero_ctx) = 13" "sems sample_kernel = replicate 32 0"
    using sample_kernel_running sample_kernel_waits
    by (auto simp: running_ok_def nobody_waits_def sample_kernel_exists sample_kernel_sel zero_pcb_def zero_ctx_def PCB_SIZE_def)
      (simp_all add: sample_kernel_def boot_kernel_def)
  obtain c' k' where "init_forks sample_env [0..<PHIL_COUNT] (zero_ctx, sample_kernel) = Some (c', k')"
      "\<forall>f < PCB_SIZE. sems k' ! f = (if f < PHIL_COUNT then forks phil_start ! f else sems sample_kernel ! f)"
    using spawner_lays_forks [OF k(1-5), of sample_env] by blast
  then show ?thesis by (simp add: k(6) PCB_SIZE_def PHIL_COUNT_def phil_start_def)
qed

section \<open>The semaphore test: mutual exclusion\<close>

text \<open>
  Parent (\<open>False\<close>) and child (\<open>True\<close>) after the fork, with the units of semaphore 0 and who is blocked in
  its wait.  \<open>semtest_step i\<close> is the next call of process \<open>i\<close> as the kernel performs it: a post wakes the
  other process when it is blocked.
\<close>

record semtest =
  units :: nat
  at :: "bool \<Rightarrow> semtest_place"
  blocked :: "bool \<Rightarrow> bool"

definition semtest_start :: semtest where
  "semtest_start = \<lparr>units = 0, at = (\<lambda>i. if i then C_Wait else P_Think), blocked = (\<lambda>_. False)\<rparr>"

definition advance :: "bool \<Rightarrow> semtest \<Rightarrow> semtest" where
  "advance i t = t\<lparr>at := (at t)(i := semtest_next (at t i) 0), blocked := (blocked t)(i := False)\<rparr>"

definition semtest_step :: "bool \<Rightarrow> semtest \<Rightarrow> semtest option" where
  "semtest_step i t =
     (if blocked t i then None
      else if at t i \<in> {P_Wait, C_Wait} then
        Some (if units t \<ge> 1 then advance i (t\<lparr>units := units t - 1\<rparr>) else t\<lparr>blocked := (blocked t)(i := True)\<rparr>)
      else if at t i \<in> {P_Post, C_Post} then
        Some (if blocked t (\<not> i) then advance i (advance (\<not> i) t) else advance i (t\<lparr>units := units t + 1\<rparr>))
      else Some (advance i t))"

inductive semtest_reach :: "semtest \<Rightarrow> bool" where
  start: "semtest_reach semtest_start"
| step: "semtest_reach t \<Longrightarrow> semtest_step i t = Some t' \<Longrightarrow> semtest_reach t'"

definition has_mutex :: "semtest \<Rightarrow> bool \<Rightarrow> bool" where
  "has_mutex t i \<longleftrightarrow> at t i \<in> {P_Think, P_Post, C_Think, C_Post}"

definition semtest_ok :: "semtest \<Rightarrow> bool" where
  "semtest_ok t \<longleftrightarrow>
     (units t = 1 \<and> at t False = P_Wait \<and> at t True = C_Wait \<and> \<not> blocked t False \<and> \<not> blocked t True)
   \<or> (units t = 0 \<and> at t False \<in> {P_Think, P_Post} \<and> at t True = C_Wait \<and> \<not> blocked t False)
   \<or> (units t = 0 \<and> at t False = P_Wait \<and> at t True \<in> {C_Think, C_Post} \<and> \<not> blocked t True)"

lemma semtest_next_simps [simp]:
  "semtest_next P_Think r = P_Post" "semtest_next P_Post r = P_Wait" "semtest_next P_Wait r = P_Think"
  "semtest_next C_Think r = C_Post" "semtest_next C_Post r = C_Wait" "semtest_next C_Wait r = C_Think"
  by (simp_all add: semtest_next_def)

lemma semtest_ok_cases:
  assumes "semtest_ok t"
  obtains "units t = 1" "at t False = P_Wait" "at t True = C_Wait" "\<not> semtest.blocked t False" "\<not> semtest.blocked t True"
    | "units t = 0" "at t False = P_Think" "at t True = C_Wait" "\<not> semtest.blocked t False"
    | "units t = 0" "at t False = P_Post" "at t True = C_Wait" "\<not> semtest.blocked t False"
    | "units t = 0" "at t False = P_Wait" "at t True = C_Think" "\<not> semtest.blocked t True"
    | "units t = 0" "at t False = P_Wait" "at t True = C_Post" "\<not> semtest.blocked t True"
  using assms unfolding semtest_ok_def insert_iff empty_iff by (elim disjE conjE) auto

lemma semtest_step_ok:
  assumes "semtest_ok t" "semtest_step i t = Some t'"
  shows "semtest_ok t'"
  using assms(1)
proof (cases rule: semtest_ok_cases)
  case 1
  then show ?thesis using assms(2) by (cases i) (auto simp: semtest_step_def semtest_ok_def advance_def)
next
  case 2
  then show ?thesis using assms(2)
    by (cases i; cases "semtest.blocked t True") (auto simp: semtest_step_def semtest_ok_def advance_def)
next
  case 3
  then show ?thesis using assms(2)
    by (cases i; cases "semtest.blocked t True") (auto simp: semtest_step_def semtest_ok_def advance_def)
next
  case 4
  then show ?thesis using assms(2)
    by (cases i; cases "semtest.blocked t False") (auto simp: semtest_step_def semtest_ok_def advance_def)
next
  case 5
  then show ?thesis using assms(2)
    by (cases i; cases "semtest.blocked t False") (auto simp: semtest_step_def semtest_ok_def advance_def)
qed

lemma semtest_reach_ok: "semtest_reach t \<Longrightarrow> semtest_ok t"
proof (induction rule: semtest_reach.induct)
  case start
  show ?case by (simp add: semtest_ok_def semtest_start_def)
next
  case (step t i t')
  then show ?case using semtest_step_ok by blast
qed

text \<open>
  The semaphore test.  Parent and child are never both between wait and post, and they are never
  both blocked.
\<close>

lemma semtest_exclusive:
  assumes "semtest_reach t"
  shows "\<not> (has_mutex t False \<and> has_mutex t True) \<and> \<not> (blocked t False \<and> blocked t True)"
  using semtest_reach_ok [OF assms] by (auto simp: semtest_ok_def has_mutex_def)

lemma semtest_exclusive_witness:
  "\<exists>t. semtest_step True semtest_start = Some t \<and> blocked t True \<and> \<not> (has_mutex t False \<and> has_mutex t True)"
proof -
  let ?t = "semtest_start\<lparr>blocked := (\<lambda>_. False)(True := True)\<rparr>"
  have s: "semtest_step True semtest_start = Some ?t" by (simp add: semtest_step_def semtest_start_def)
  from semtest_exclusive [OF semtest_reach.step [OF semtest_reach.start s]] s show ?thesis
    by (intro exI [of _ ?t]) simp
qed

end
