(* ===== verification/Spec2Isabelle.thy ===== *)
theory Spec2Isabelle
  imports Semaphores Lowlevel Fs1 Fs2_Listing Fs2_Write Programs
begin

text \<open>
  A verification library for a small ARM operating system: a kernel with round-robin scheduling,
  processes, semaphores, pipes and a file table (\<^verbatim>\<open>kernel/hilevel.c\<close>), a file system on a remote
  disk (\<^verbatim>\<open>kernel/fs2.c\<close>), the drivers of the serial line and of the disk (\<^verbatim>\<open>device/\<close>), and the disk
  server at the other end of the line (\<^verbatim>\<open>device/disk.py\<close>).

  Theories, in the order of the calls:

  \<^item> \<open>Prelude\<close>: bytes, little-endian words, C strings, shared lemmas and lemma collections.
  \<^item> \<open>Uart\<close>: the PL011 driver over a line with a peer that answers each byte.
  \<^item> \<open>Disk_Server\<close>, \<open>Disk\<close>: the server's request loop and the client's protocol with its retries;
    the client refines an array of blocks.
  \<^item> \<open>Fs2_Layout\<close>, \<open>Fs2_Cache\<close>, \<open>Fs2_Regions\<close>, \<open>Fs2_Dir\<close>, \<open>Fs2_File\<close>: the file system, from the bytes
    of its structures over caches and region tables to directories, files and volumes.
  \<^item> \<open>Pipe\<close>: the ring buffer and the queue it implements.
  \<^item> \<open>Kernel_State\<close>, \<open>Sched\<close>, \<open>Fdtable\<close>, \<open>Proc\<close>, \<open>Svc\<close>: the kernel's tables and its handlers.
  \<^item> \<open>Kernel_Inv\<close>: the transition system of the machine and the invariant of its reachable states.
\<close>

end
